(* ===== verification/Prelude.thy ===== *)
theory Prelude
  imports Main "HOL-Library.Word" "HOL-Library.Sublist"
begin

text \<open>
  Shared vocabulary of the development. Types that every component names (UUIDs, byte
  strings, instants, process environments), Rust's \<^verbatim>\<open>Result\<close> as a sum with the error on the
  left, the short-circuiting \<^verbatim>\<open>?\<close> operator on plain results (\<open>and_then\<close>) and on functions that
  also pass a world along (\<open>bind_try\<close>), \<^verbatim>\<open>collect::<Result<Vec<_>, _>>()\<close> (\<open>try_map\<close>), and the
  generic facts about them that the component proofs rest on.
\<close>

section \<open>Types\<close>

type_synonym uuid = "128 word"

type_synonym bytes = "char list"

type_synonym instant = int

type_synonym env_vars = "string \<Rightarrow> string option"

type_synonym ('e, 'a) result = "'e + 'a"

type_synonym ('w, 'e, 'a) action = "'w \<Rightarrow> ('e + 'a) \<times> 'w"

named_theorems result_simps "inversion rules for results and actions"

section \<open>Results\<close>

definition and_then :: "'e + 'a \<Rightarrow> ('a \<Rightarrow> 'e + 'b) \<Rightarrow> 'e + 'b" where
  "and_then r f = (case r of Inl e \<Rightarrow> Inl e | Inr x \<Rightarrow> f x)"

definition ok_or :: "'e \<Rightarrow> 'a option \<Rightarrow> 'e + 'a" where
  "ok_or e v = (case v of None \<Rightarrow> Inl e | Some x \<Rightarrow> Inr x)"

definition ensure :: "bool \<Rightarrow> 'e \<Rightarrow> 'e + unit" where
  "ensure b e = (if b then Inr () else Inl e)"

definition map_err :: "('e \<Rightarrow> 'f) \<Rightarrow> 'e + 'a \<Rightarrow> 'f + 'a" where
  "map_err g r = map_sum g id r"

definition is_ok :: "'e + 'a \<Rightarrow> bool" where
  "is_ok r = (case r of Inl _ \<Rightarrow> False | Inr _ \<Rightarrow> True)"

definition filter_opt :: "('a \<Rightarrow> bool) \<Rightarrow> 'a option \<Rightarrow> 'a option" where
  "filter_opt p v = (case v of None \<Rightarrow> None | Some x \<Rightarrow> if p x then Some x else None)"

fun try_map :: "('a \<Rightarrow> 'e + 'b) \<Rightarrow> 'a list \<Rightarrow> 'e + 'b list" where
  "try_map f [] = Inr []"
| "try_map f (x # xs) =
     (case f x of Inl e \<Rightarrow> Inl e
      | Inr y \<Rightarrow> (case try_map f xs of Inl e \<Rightarrow> Inl e | Inr ys \<Rightarrow> Inr (y # ys)))"

lemma and_then_simps [simp]:
  "and_then (Inl e) f = Inl e" "and_then (Inr x) f = f x"
  by (simp_all add: and_then_def)

lemma ok_or_simps [simp]:
  "ok_or e None = Inl e" "ok_or e (Some x) = Inr x"
  by (simp_all add: ok_or_def)

lemma map_err_simps [simp]:
  "map_err g (Inl e) = Inl (g e)" "map_err g (Inr x) = Inr x"
  by (simp_all add: map_err_def)

lemma is_ok_simps [simp]:
  "\<not> is_ok (Inl e)" "is_ok (Inr x)"
  by (simp_all add: is_ok_def)

lemma is_ok_iff: "is_ok r \<longleftrightarrow> (\<exists>x. r = Inr x)"
  by (cases r) simp_all

lemma filter_opt_simps [simp]:
  "filter_opt p None = None" "filter_opt p (Some x) = (if p x then Some x else None)"
  by (simp_all add: filter_opt_def)

lemma and_then_Inr_iff [result_simps]:
  "and_then r f = Inr y \<longleftrightarrow> (\<exists>x. r = Inr x \<and> f x = Inr y)"
  by (cases r) simp_all

lemma and_then_Inl_iff [result_simps]:
  "and_then r f = Inl e \<longleftrightarrow> r = Inl e \<or> (\<exists>x. r = Inr x \<and> f x = Inl e)"
  by (cases r) simp_all

lemma ok_or_Inr_iff [result_simps]: "ok_or e v = Inr x \<longleftrightarrow> v = Some x"
  by (cases v) simp_all

lemma ok_or_Inl_iff [result_simps]: "ok_or e v = Inl e' \<longleftrightarrow> v = None \<and> e' = e"
  by (cases v) auto

lemma ensure_Inr_iff [result_simps]: "ensure b e = Inr u \<longleftrightarrow> b"
  by (simp add: ensure_def)

lemma ensure_Inl_iff [result_simps]: "ensure b e = Inl e' \<longleftrightarrow> \<not> b \<and> e' = e"
  by (auto simp: ensure_def)

lemma ensure_cases [simp]: "ensure True e = Inr ()" "ensure False e = Inl e"
  by (simp_all add: ensure_def)

lemma map_err_Inr_iff [result_simps]: "map_err g r = Inr x \<longleftrightarrow> r = Inr x"
  by (cases r) simp_all

lemma map_err_Inl_iff [result_simps]: "map_err g r = Inl e \<longleftrightarrow> (\<exists>d. r = Inl d \<and> e = g d)"
  by (cases r) auto

lemma filter_opt_Some_iff [result_simps]: "filter_opt p v = Some x \<longleftrightarrow> v = Some x \<and> p x"
  by (cases v) auto

lemma filter_opt_None_iff [result_simps]:
  "filter_opt p v = None \<longleftrightarrow> (\<forall>x. v = Some x \<longrightarrow> \<not> p x)"
  by (cases v) auto

subsection \<open>Collecting a vector of results\<close>

lemma try_map_Inr_iff:
  "try_map f xs = Inr ys \<longleftrightarrow> list_all2 (\<lambda>x y. f x = Inr y) xs ys"
proof (induction xs arbitrary: ys)
  case Nil
  show ?case by auto
next
  case (Cons x xs)
  show ?case
    by (cases "f x"; cases "try_map f xs") (auto simp: list_all2_Cons1 Cons.IH [symmetric])
qed

lemma try_map_append:
  "try_map f (xs @ ys) = and_then (try_map f xs) (\<lambda>us. map_sum id (append us) (try_map f ys))"
proof (induction xs)
  case Nil
  show ?case by (cases "try_map f ys") simp_all
next
  case (Cons x xs)
  then show ?case by (cases "try_map f ys") (auto simp: and_then_def split: sum.splits)
qed

lemma try_map_first_error:
  assumes "is_ok (try_map f us)" and "f x = Inl e"
  shows "try_map f (us @ x # vs) = Inl e"
  using assms by (auto simp: try_map_append is_ok_iff)

lemma try_map_Inl_split:
  "try_map f xs = Inl e \<Longrightarrow> \<exists>us x vs. xs = us @ x # vs \<and> is_ok (try_map f us) \<and> f x = Inl e"
proof (induction xs)
  case (Cons x xs)
  show ?case
  proof (cases "f x")
    case (Inl d)
    with Cons.prems have "x # xs = [] @ x # xs \<and> is_ok (try_map f []) \<and> f x = Inl e" by simp
    then show ?thesis by blast
  next
    case (Inr y)
    with Cons.prems have "try_map f xs = Inl e" by (simp split: sum.splits)
    then obtain us z vs where "xs = us @ z # vs" "is_ok (try_map f us)" "f z = Inl e"
      using Cons.IH by blast
    with Inr have "x # xs = (x # us) @ z # vs \<and> is_ok (try_map f (x # us)) \<and> f z = Inl e"
      by (auto simp: is_ok_iff)
    then show ?thesis by blast
  qed
qed simp

lemma try_map_total: "(\<And>x. x \<in> set xs \<Longrightarrow> f x = Inr (g x)) \<Longrightarrow> try_map f xs = Inr (map g xs)"
  by (induction xs) simp_all

lemma try_map_set: "try_map f xs = Inr ys \<Longrightarrow> y \<in> set ys \<Longrightarrow> \<exists>x \<in> set xs. f x = Inr y"
  by (induction xs arbitrary: ys) (auto split: sum.splits)

lemma try_map_set_conv: "try_map f xs = Inr ys \<Longrightarrow> x \<in> set xs \<Longrightarrow> \<exists>y \<in> set ys. f x = Inr y"
  by (induction xs arbitrary: ys) (auto split: sum.splits)

lemma try_map_length: "try_map f xs = Inr ys \<Longrightarrow> length ys = length xs"
  by (auto simp: try_map_Inr_iff dest: list_all2_lengthD)

section \<open>Actions\<close>

definition pure_ok :: "'a \<Rightarrow> ('w, 'e, 'a) action" where
  "pure_ok x w = (Inr x, w)"

definition lift_result :: "'e + 'a \<Rightarrow> ('w, 'e, 'a) action" where
  "lift_result r w = (r, w)"

definition bind_try :: "('w, 'e, 'a) action \<Rightarrow> ('a \<Rightarrow> ('w, 'e, 'b) action) \<Rightarrow> ('w, 'e, 'b) action" where
  "bind_try m f w = (case m w of (Inl e, w') \<Rightarrow> (Inl e, w') | (Inr x, w') \<Rightarrow> f x w')"

definition act_map_err :: "('e \<Rightarrow> 'f) \<Rightarrow> ('w, 'e, 'a) action \<Rightarrow> ('w, 'f, 'a) action" where
  "act_map_err g m w = (case m w of (r, w') \<Rightarrow> (map_err g r, w'))"

lemma pure_ok_eq [simp]: "pure_ok x w = (Inr x, w)"
  by (simp add: pure_ok_def)

lemma lift_result_eq [simp]: "lift_result r w = (r, w)"
  by (simp add: lift_result_def)

lemma bind_try_Inr_iff [result_simps]:
  "bind_try m f w = (Inr y, w'') \<longleftrightarrow> (\<exists>x w'. m w = (Inr x, w') \<and> f x w' = (Inr y, w''))"
  by (auto simp: bind_try_def split: prod.splits sum.splits)

lemma bind_try_Inl_iff [result_simps]:
  "bind_try m f w = (Inl e, w'') \<longleftrightarrow>
     m w = (Inl e, w'') \<or> (\<exists>x w'. m w = (Inr x, w') \<and> f x w' = (Inl e, w''))"
  by (auto simp: bind_try_def split: prod.splits sum.splits)

lemma bind_try_ok: "m w = (Inr x, w') \<Longrightarrow> bind_try m f w = f x w'"
  by (simp add: bind_try_def)

lemma bind_try_err: "m w = (Inl e, w') \<Longrightarrow> bind_try m f w = (Inl e, w')"
  by (simp add: bind_try_def)

lemma bind_try_lift [simp]:
  "bind_try (lift_result (Inr x)) f = f x" "bind_try (lift_result (Inl e)) f w = (Inl e, w)"
  by (simp_all add: bind_try_def fun_eq_iff)

lemma act_map_err_Inr_iff [result_simps]:
  "act_map_err g m w = (Inr x, w') \<longleftrightarrow> m w = (Inr x, w')"
  by (auto simp: act_map_err_def result_simps split: prod.splits)

lemma act_map_err_Inl_iff [result_simps]:
  "act_map_err g m w = (Inl e, w') \<longleftrightarrow> (\<exists>d. m w = (Inl d, w') \<and> e = g d)"
  by (auto simp: act_map_err_def result_simps split: prod.splits)

subsection \<open>Relations an action keeps\<close>

text \<open>
  \<open>keeps R m\<close>: whatever the action returns, the world it leaves is related by \<open>R\<close> to the
  world it found. For a reflexive and transitive \<open>R\<close> the combinators keep it.
\<close>

definition keeps :: "('w \<Rightarrow> 'w \<Rightarrow> bool) \<Rightarrow> ('w, 'e, 'a) action \<Rightarrow> bool" where
  "keeps R m \<longleftrightarrow> (\<forall>w. R w (snd (m w)))"

lemma keepsD: "keeps R m \<Longrightarrow> m w = (r, w') \<Longrightarrow> R w w'"
  by (metis keeps_def snd_conv)

lemma keepsI: "(\<And>w r w'. m w = (r, w') \<Longrightarrow> R w w') \<Longrightarrow> keeps R m"
  by (metis keeps_def prod.collapse)

lemma keeps_pure: "reflp R \<Longrightarrow> keeps R (pure_ok x)"
  by (simp add: keeps_def reflp_def)

lemma keeps_lift: "reflp R \<Longrightarrow> keeps R (lift_result r)"
  by (simp add: keeps_def reflp_def)

lemma keeps_map_err: "keeps R m \<Longrightarrow> keeps R (act_map_err g m)"
  by (auto simp: keeps_def act_map_err_def split: prod.splits) (metis snd_conv)

lemma keeps_bind_rel:
  assumes m: "keeps R m" and f: "\<And>x. keeps S (f x)"
    and first: "\<And>w v. R w v \<Longrightarrow> T w v" and both: "\<And>w v u. R w v \<Longrightarrow> S v u \<Longrightarrow> T w u"
  shows "keeps T (bind_try m f)"
proof (rule keepsI)
  fix w r w''
  assume run: "bind_try m f w = (r, w'')"
  obtain q w' where mw: "m w = (q, w')" by (cases "m w")
  show "T w w''"
  proof (cases q)
    case (Inl e)
    with run mw keepsD [OF m mw] show ?thesis by (simp add: bind_try_def first)
  next
    case (Inr x)
    with run mw have "f x w' = (r, w'')" by (simp add: bind_try_def)
    from both [OF keepsD [OF m mw] keepsD [OF f this]] show ?thesis .
  qed
qed

lemma keeps_bind: "transp R \<Longrightarrow> keeps R m \<Longrightarrow> (\<And>x. keeps R (f x)) \<Longrightarrow> keeps R (bind_try m f)"
  by (rule keeps_bind_rel [where R = R and S = R]) (auto dest: transpD)

section \<open>Event-driven machines\<close>

text \<open>
  A component that reacts to one event at a time: what every event keeps, every run keeps.
\<close>

locale machine =
  fixes step :: "'s \<Rightarrow> 'e \<Rightarrow> 's"
    and inv :: "'s \<Rightarrow> bool"
  assumes preserved: "inv s \<Longrightarrow> inv (step s e)"
begin

lemma run_keeps: "inv s \<Longrightarrow> inv (foldl step s es)"
  by (induction es arbitrary: s) (auto intro: preserved)

lemma always:
  assumes "inv s"
  shows "\<forall>n. inv (foldl step s (take n es))"
  using assms by (simp add: run_keeps)

end

end
