(* ===== verification/Domain.thy ===== *)
theory Domain
  imports Prelude
begin

text \<open>
  The values the program exchanges with its callers and with PostgreSQL, as the source builds and
  takes apart the types of \<^verbatim>\<open>apme_interfaces\<close>: every enum has the constructors the source
  matches on, every struct the fields of the literals in \<^verbatim>\<open>cases.rs\<close>, \<^verbatim>\<open>auth.rs\<close>, \<^verbatim>\<open>main.rs\<close> and
  their tests. Versions and key versions (\<^verbatim>\<open>i64\<close>, \<^verbatim>\<open>i32\<close>) are integers: the program compares and
  forwards them and never computes with them. Instants (\<^verbatim>\<open>DateTime<Utc>\<close>) are integers as well.
\<close>

section \<open>Enumerations\<close>

datatype case_status = Intake | CollectingDocuments | Review | Submitted | Completed | Closed

datatype retention_class = Standard | Extended | LegalHoldEligible

datatype tenant_role = Viewer | Agent | Administrator

section \<open>Identity and tenancy\<close>

record verified_subject =
  vs_shared_user_id :: string
  vs_session_id :: string

record tenant_context =
  ctx_tenant_id :: uuid
  ctx_organization_id :: uuid
  ctx_role :: tenant_role

record case_subscription =
  cs_tenant_id :: uuid
  cs_case_id :: "uuid option"

section \<open>Cases\<close>

record encrypted_object_reference =
  object_reference :: string
  ciphertext_sha256 :: string
  key_version :: int

record persisted_case =
  pc_id :: uuid
  pc_tenant_id :: uuid
  pc_version :: int
  pc_title :: string
  pc_summary :: string
  pc_client_reference :: string
  pc_destination_country :: string
  pc_document_type :: string
  pc_next_action_due_at :: "instant option"
  pc_status :: case_status
  pc_retention_class :: retention_class
  pc_retain_until :: instant
  pc_legal_hold :: bool
  pc_tombstoned_at :: "instant option"
  pc_encrypted_document :: "encrypted_object_reference option"
  pc_created_at :: instant
  pc_updated_at :: instant

section \<open>Commands and receipts\<close>

record create_case_command =
  cc_title :: string
  cc_summary :: string
  cc_client_reference :: string
  cc_destination_country :: string
  cc_document_type :: string
  cc_next_action_due_at :: "instant option"
  cc_retention_class :: retention_class
  cc_retain_until :: instant
  cc_encrypted_document :: "encrypted_object_reference option"

record transition_case_command =
  tc_expected_version :: int
  tc_to_status :: case_status

record rotate_encrypted_object_command =
  rc_expected_version :: int
  rc_encrypted_document :: encrypted_object_reference

record case_event_receipt =
  er_event_id :: uuid
  er_tenant_id :: uuid
  er_case_id :: uuid
  er_case_version :: int
  er_event_type :: string
  er_occurred_at :: instant
  er_event_hash :: string

record case_mutation_result =
  mr_case :: persisted_case
  mr_event :: case_event_receipt
  mr_replayed :: bool

end
