(* ===== verification/Database.thy ===== *)
theory Database
  imports Domain
begin

text \<open>
  PostgreSQL as the service sees it. The tables and columns are those the SQL text of
  \<^verbatim>\<open>cases.rs\<close> and \<^verbatim>\<open>main.rs\<close> names; the record is extensible, so that a concrete database may
  carry more (the idempotency ledger, the audit chain). A statement either fails and leaves no
  trace (statement atomicity) or returns a value and the next database.

  Every call passes a scheduled slot: what other connections did to the database just before it,
  and whether the connection is lost before or after the statement took effect. The schedule
  (\<open>agenda\<close>) is arbitrary in every theorem, so concurrent requests, lost answers of committed
  statements and an unreachable database are all covered. The stored functions of the
  migration are not part of the repository: they are parameters (\<open>procs\<close>).
\<close>

section \<open>Statements, faults and the schedule\<close>

datatype sql_error = Database_error string | Client_error string

datatype fault = Lost_before string | Lost_after string

type_synonym 'd slot = "('d \<Rightarrow> 'd) \<times> fault option"

type_synonym ('d, 'a) stmt = "'d \<Rightarrow> sql_error + ('a \<times> 'd)"

record 'd world =
  store :: 'd
  agenda :: "'d slot list"

definition run_stmt :: "('d, 'a) stmt \<Rightarrow> 'd \<Rightarrow> (sql_error + 'a) \<times> 'd" where
  "run_stmt q d = (case q d of Inl e \<Rightarrow> (Inl e, d) | Inr (x, d') \<Rightarrow> (Inr x, d'))"

definition db_call :: "('d, 'a) stmt \<Rightarrow> ('d world, sql_error, 'a) action" where
  "db_call q w =
     (case agenda w of
        [] \<Rightarrow> (case run_stmt q (store w) of (r, d) \<Rightarrow> (r, w\<lparr>store := d\<rparr>))
      | (interfere, f) # rest \<Rightarrow>
          (case run_stmt q (interfere (store w)) of (r, d) \<Rightarrow>
             (case f of
                None \<Rightarrow> (r, \<lparr>store = d, agenda = rest\<rparr>)
              | Some (Lost_before m) \<Rightarrow>
                  (Inl (Client_error m), \<lparr>store = interfere (store w), agenda = rest\<rparr>)
              | Some (Lost_after m) \<Rightarrow> (Inl (Client_error m), \<lparr>store = d, agenda = rest\<rparr>))))"

definition query :: "('d \<Rightarrow> sql_error + 'a) \<Rightarrow> ('d, 'a) stmt" where
  "query q d = (case q d of Inl e \<Rightarrow> Inl e | Inr x \<Rightarrow> Inr (x, d))"

definition fetch_optional :: "'a list \<Rightarrow> 'a option" where
  "fetch_optional rows = (case rows of [] \<Rightarrow> None | r # _ \<Rightarrow> Some r)"

definition fetch_one :: "'a list \<Rightarrow> sql_error + 'a" where
  "fetch_one rows = ok_or (Client_error ''RowNotFound'') (fetch_optional rows)"

section \<open>Tables\<close>

record tenant_row =
  tn_id :: uuid
  tn_organization_id :: uuid

record membership_row =
  mb_tenant_id :: uuid
  mb_shared_user_id :: string
  mb_role :: string
  mb_active :: bool

record case_row =
  cr_id :: uuid
  cr_tenant_id :: uuid
  cr_version :: int
  cr_title :: string
  cr_summary :: string
  cr_client_reference :: string
  cr_destination_country :: string
  cr_document_type :: string
  cr_next_action_due_at :: "instant option"
  cr_status :: string
  cr_retention_class :: string
  cr_retain_until :: instant
  cr_legal_hold :: bool
  cr_tombstoned_at :: "instant option"
  cr_encrypted_object_reference :: "string option"
  cr_ciphertext_sha256 :: "string option"
  cr_object_key_version :: "int option"
  cr_created_at :: instant
  cr_updated_at :: instant

record event_row =
  ev_event_id :: uuid
  ev_tenant_id :: uuid
  ev_case_id :: uuid
  ev_case_version :: int
  ev_event_type :: string
  ev_occurred_at :: instant

record database =
  tenants :: "tenant_row list"
  memberships :: "membership_row list"
  case_table :: "case_row list"
  case_events :: "event_row list"

section \<open>The queries of the program\<close>

text \<open>The order of \<^verbatim>\<open>order by created_at desc, id\<close>, as an order on its keys.\<close>

datatype list_key = List_key (key_created: instant) (key_id: uuid)

instantiation list_key :: linorder
begin

definition less_eq_list_key :: "list_key \<Rightarrow> list_key \<Rightarrow> bool" where
  "less_eq_list_key k l \<longleftrightarrow>
     key_created l < key_created k \<or> key_created l = key_created k \<and> key_id k \<le> key_id l"

definition less_list_key :: "list_key \<Rightarrow> list_key \<Rightarrow> bool" where
  "less_list_key k l \<longleftrightarrow>
     key_created l < key_created k \<or> key_created l = key_created k \<and> key_id k < key_id l"

instance
  by standard
    (auto simp: less_eq_list_key_def less_list_key_def intro: list_key.expand)

end

definition case_list_key :: "case_row \<Rightarrow> list_key" where
  "case_list_key r = List_key (cr_created_at r) (cr_id r)"

definition membership_rows :: "uuid \<Rightarrow> string \<Rightarrow> 'x database_scheme \<Rightarrow> (uuid \<times> string) list" where
  "membership_rows tenant_id user d =
     [(tn_organization_id t, mb_role m).
        t \<leftarrow> tenants d, m \<leftarrow> memberships d,
        mb_tenant_id m = tn_id t, tn_id t = tenant_id, mb_shared_user_id m = user, mb_active m]"

definition case_select_list :: "uuid \<Rightarrow> 'x database_scheme \<Rightarrow> case_row list" where
  "case_select_list tenant_id d =
     sort_key case_list_key
       (filter (\<lambda>r. cr_tenant_id r = tenant_id \<and> cr_tombstoned_at r = None) (case_table d))"

definition case_select_one :: "uuid \<Rightarrow> uuid \<Rightarrow> 'x database_scheme \<Rightarrow> case_row list" where
  "case_select_one tenant_id case_id d =
     filter (\<lambda>r. cr_tenant_id r = tenant_id \<and> cr_id r = case_id \<and> cr_tombstoned_at r = None)
       (case_table d)"

definition event_select :: "uuid \<Rightarrow> uuid \<Rightarrow> 'x database_scheme \<Rightarrow> event_row list" where
  "event_select tenant_id event_id d =
     filter (\<lambda>e. ev_tenant_id e = tenant_id \<and> ev_event_id e = event_id) (case_events d)"

definition case_count :: "'x database_scheme \<Rightarrow> nat" where
  "case_count d = length (case_table d)"

section \<open>Stored functions\<close>

record create_args =
  ca_tenant_id :: uuid
  ca_actor :: string
  ca_idempotency_key :: string
  ca_request_hash :: bytes
  ca_title :: string
  ca_summary :: string
  ca_client_reference :: string
  ca_destination_country :: string
  ca_document_type :: string
  ca_next_action_due_at :: "instant option"
  ca_retention_class :: string
  ca_retain_until :: instant
  ca_object_reference :: "string option"
  ca_ciphertext_sha256 :: "string option"
  ca_key_version :: "int option"
  ca_now :: instant

record transition_args =
  ta_tenant_id :: uuid
  ta_actor :: string
  ta_case_id :: uuid
  ta_expected_version :: int
  ta_to_status :: string
  ta_idempotency_key :: string
  ta_request_hash :: bytes
  ta_now :: instant

record rotate_args =
  ra_tenant_id :: uuid
  ra_actor :: string
  ra_case_id :: uuid
  ra_expected_version :: int
  ra_idempotency_key :: string
  ra_request_hash :: bytes
  ra_object_reference :: string
  ra_ciphertext_sha256 :: string
  ra_key_version :: int
  ra_now :: instant

record mutation_row =
  mu_case_id :: uuid
  mu_case_version :: int
  mu_event_id :: uuid
  mu_event_hash :: string
  mu_replayed :: bool

record audit_args =
  aa_tenant_id :: uuid
  aa_action :: string
  aa_actor :: string
  aa_resource_type :: string
  aa_resource_id :: uuid
  aa_occurred_at :: instant
  aa_details :: string

record 'd procs =
  apme_create_case :: "create_args \<Rightarrow> ('d, mutation_row) stmt"
  apme_transition_case :: "transition_args \<Rightarrow> ('d, mutation_row) stmt"
  apme_rotate_case_object :: "rotate_args \<Rightarrow> ('d, mutation_row) stmt"
  apme_append_audit :: "audit_args \<Rightarrow> ('d, unit) stmt"
  apme_apply_retention :: "instant \<Rightarrow> string \<Rightarrow> ('d, int) stmt"
  apme_verify_case_audit :: "uuid \<Rightarrow> ('d, bool) stmt"
  apme_verify_tenant_audit :: "uuid \<Rightarrow> ('d, bool) stmt"
  persistence_migration :: "('d, unit) stmt"

section \<open>Facts\<close>

lemma fetch_optional_simps [simp]:
  "fetch_optional [] = None" "fetch_optional (r # rs) = Some r"
  by (simp_all add: fetch_optional_def)

lemma fetch_optional_mem: "fetch_optional rows = Some r \<Longrightarrow> r \<in> set rows"
  by (cases rows) simp_all

lemma fetch_optional_None_iff: "fetch_optional rows = None \<longleftrightarrow> rows = []"
  by (cases rows) simp_all

lemma fetch_one_mem: "fetch_one rows = Inr r \<Longrightarrow> r \<in> set rows"
  by (auto simp: fetch_one_def result_simps intro: fetch_optional_mem)

text \<open>
  What a call can answer. A success was computed by the statement on the database that the slot
  presented; a failure is the statement's own error or a lost connection.
\<close>

definition presented :: "'d world \<Rightarrow> 'd" where
  "presented w = (case agenda w of [] \<Rightarrow> store w | (interfere, _) # _ \<Rightarrow> interfere (store w))"

lemma db_call_Inr:
  assumes "db_call q w = (Inr x, w')"
  shows "q (presented w) = Inr (x, store w')" and "agenda w' = tl (agenda w)"
  using assms
  by (auto simp: db_call_def presented_def run_stmt_def
      split: list.splits prod.splits sum.splits option.splits fault.splits)

lemma db_call_Inl:
  assumes "db_call q w = (Inl e, w')"
  shows "store w' = presented w \<or> (\<exists>x. q (presented w) = Inr (x, store w') \<and> (\<exists>m. e = Client_error m))"
    and "q (presented w) = Inl e \<or> (\<exists>m. e = Client_error m)" and "agenda w' = tl (agenda w)"
  using assms
  by (auto simp: db_call_def presented_def run_stmt_def
      split: list.splits prod.splits sum.splits option.splits fault.splits)

lemma db_call_calm:
  "agenda w = [] \<Longrightarrow> q (store w) = Inr (x, d) \<Longrightarrow> db_call q w = (Inr x, w\<lparr>store := d\<rparr>)"
  "agenda w = [] \<Longrightarrow> q (store w) = Inl e \<Longrightarrow> db_call q w = (Inl e, w)"
  by (simp_all add: db_call_def run_stmt_def)

lemma query_Inr_iff: "query q d = Inr (x, d') \<longleftrightarrow> q d = Inr x \<and> d' = d"
  by (auto simp: query_def split: sum.splits)

lemma query_Inl_iff: "query q d = Inl e \<longleftrightarrow> q d = Inl e"
  by (auto simp: query_def split: sum.splits)

lemma db_call_query_Inr:
  "db_call (query q) w = (Inr x, w') \<Longrightarrow> q (presented w) = Inr x \<and> store w' = presented w"
  by (auto dest: db_call_Inr simp: query_Inr_iff)

lemma db_call_query_store: "db_call (query q) w = (r, w') \<Longrightarrow> store w' = presented w"
  by (cases r) (auto dest: db_call_Inl db_call_Inr simp: query_Inr_iff)

lemma case_select_list_set:
  "set (case_select_list t d) =
     {r \<in> set (case_table d). cr_tenant_id r = t \<and> cr_tombstoned_at r = None}"
  by (auto simp: case_select_list_def)

lemma case_select_list_sorted: "sorted (map case_list_key (case_select_list t d))"
  by (simp add: case_select_list_def)

lemma case_select_one_set:
  "set (case_select_one t c d) =
     {r \<in> set (case_table d). cr_tenant_id r = t \<and> cr_id r = c \<and> cr_tombstoned_at r = None}"
  by (auto simp: case_select_one_def)

lemma event_select_set:
  "set (event_select t i d) = {e \<in> set (case_events d). ev_tenant_id e = t \<and> ev_event_id e = i}"
  by (auto simp: event_select_def)

end
