(* ===== verification/Rust_Str.thy ===== *)
theory Rust_Str
  imports Prelude
begin

text \<open>
  The part of Rust's string library that the program uses. A \<^verbatim>\<open>str\<close> is its UTF-8 byte
  sequence, a list of \<open>char\<close> (one \<open>char\<close> is one byte), so \<^verbatim>\<open>len()\<close> is \<open>length\<close>, and
  comparison, \<^verbatim>\<open>strip_prefix\<close>, \<^verbatim>\<open>contains\<close> and \<^verbatim>\<open>split\<close> with an ASCII pattern work on bytes.
  \<^verbatim>\<open>chars()\<close> decodes: \<open>utf8_chars\<close> pairs every code point with the bytes that encode it.
  \<^verbatim>\<open>trim\<close>, \<^verbatim>\<open>char::is_control\<close> and \<^verbatim>\<open>char::is_whitespace\<close> follow the Unicode property tables
  (category Cc and White\_Space). A byte sequence that is no UTF-8 is no \<^verbatim>\<open>str\<close>; the decoder is
  total and groups such bytes by their lead byte.
\<close>

section \<open>Decoding\<close>

definition byte :: "char \<Rightarrow> nat" where
  "byte c = of_char c"

definition lead_width :: "char \<Rightarrow> nat" where
  "lead_width c =
     (if byte c < 128 then 1 else if byte c < 224 then 2 else if byte c < 240 then 3 else 4)"

definition code_point :: "string \<Rightarrow> nat" where
  "code_point s =
     (case s of
        [a] \<Rightarrow> byte a
      | [a, b] \<Rightarrow> (byte a mod 32) * 64 + byte b mod 64
      | [a, b, c] \<Rightarrow> (byte a mod 16) * 4096 + (byte b mod 64) * 64 + byte c mod 64
      | [a, b, c, d] \<Rightarrow>
          (byte a mod 8) * 262144 + (byte b mod 64) * 4096 + (byte c mod 64) * 64 + byte d mod 64
      | _ \<Rightarrow> 0)"

function utf8_chars :: "string \<Rightarrow> (nat \<times> string) list" where
  "utf8_chars [] = []"
| "utf8_chars (c # cs) =
     (code_point (take (lead_width c) (c # cs)), take (lead_width c) (c # cs)) #
       utf8_chars (drop (lead_width c) (c # cs))"
  by pat_completeness auto
termination
  by (relation "measure length") (auto simp: lead_width_def)

definition is_whitespace :: "nat \<Rightarrow> bool" where
  "is_whitespace p \<longleftrightarrow>
     9 \<le> p \<and> p \<le> 13 \<or> p = 32 \<or> p = 133 \<or> p = 160 \<or> p = 5760 \<or>
     8192 \<le> p \<and> p \<le> 8202 \<or> p = 8232 \<or> p = 8233 \<or> p = 8239 \<or> p = 8287 \<or> p = 12288"

definition is_control :: "nat \<Rightarrow> bool" where
  "is_control p \<longleftrightarrow> p \<le> 31 \<or> 127 \<le> p \<and> p \<le> 159"

definition any_char :: "(nat \<Rightarrow> bool) \<Rightarrow> string \<Rightarrow> bool" where
  "any_char p s = list_ex (\<lambda>(cp, _). p cp) (utf8_chars s)"

definition trim_chars :: "(nat \<times> string) list \<Rightarrow> (nat \<times> string) list" where
  "trim_chars xs =
     rev (dropWhile (\<lambda>(cp, _). is_whitespace cp)
       (rev (dropWhile (\<lambda>(cp, _). is_whitespace cp) xs)))"

definition trim :: "string \<Rightarrow> string" where
  "trim s = concat (map snd (trim_chars (utf8_chars s)))"

section \<open>Byte-wise operations\<close>

fun strip_prefix :: "string \<Rightarrow> string \<Rightarrow> string option" where
  "strip_prefix [] s = Some s"
| "strip_prefix (p # ps) [] = None"
| "strip_prefix (p # ps) (c # cs) = (if p = c then strip_prefix ps cs else None)"

fun str_contains :: "string \<Rightarrow> string \<Rightarrow> bool" where
  "str_contains pat [] = (pat = [])"
| "str_contains pat (c # cs) = (strip_prefix pat (c # cs) \<noteq> None \<or> str_contains pat cs)"

fun split_on :: "char \<Rightarrow> string \<Rightarrow> string list" where
  "split_on d [] = [[]]"
| "split_on d (c # cs) =
     (if c = d then [] # split_on d cs
      else (case split_on d cs of [] \<Rightarrow> [[c]] | w # ws \<Rightarrow> (c # w) # ws))"

fun join_with :: "char \<Rightarrow> string list \<Rightarrow> string" where
  "join_with d [] = []"
| "join_with d [w] = w"
| "join_with d (w # v # ws) = w @ d # join_with d (v # ws)"

definition ascii_lower :: "char \<Rightarrow> char" where
  "ascii_lower c = (if 65 \<le> byte c \<and> byte c \<le> 90 then char_of (byte c + 32) else c)"

definition eq_ignore_ascii_case :: "string \<Rightarrow> string \<Rightarrow> bool" where
  "eq_ignore_ascii_case s t \<longleftrightarrow> map ascii_lower s = map ascii_lower t"

definition is_ascii_alphanumeric :: "char \<Rightarrow> bool" where
  "is_ascii_alphanumeric c \<longleftrightarrow>
     48 \<le> byte c \<and> byte c \<le> 57 \<or> 65 \<le> byte c \<and> byte c \<le> 90 \<or> 97 \<le> byte c \<and> byte c \<le> 122"

subsection \<open>Parsing \<^verbatim>\<open>usize\<close>\<close>

text \<open>
  \<^verbatim>\<open>str::parse::<usize>()\<close> on a 64-bit target: an optional \<^verbatim>\<open>+\<close>, at least one ASCII digit,
  and every intermediate value below \<open>2 ^ 64\<close>.
\<close>

definition usize_limit :: nat where
  "usize_limit = 2 ^ 64"

definition digit_value :: "char \<Rightarrow> nat option" where
  "digit_value c = (if 48 \<le> byte c \<and> byte c \<le> 57 then Some (byte c - 48) else None)"

fun parse_digits :: "nat \<Rightarrow> string \<Rightarrow> nat option" where
  "parse_digits acc [] = Some acc"
| "parse_digits acc (c # cs) =
     (case digit_value c of
        None \<Rightarrow> None
      | Some v \<Rightarrow> if acc * 10 + v < usize_limit then parse_digits (acc * 10 + v) cs else None)"

definition parse_usize :: "string \<Rightarrow> nat option" where
  "parse_usize s =
     (let ds = (case s of c # cs \<Rightarrow> if c = CHR ''+'' then cs else s | [] \<Rightarrow> [])
      in if ds = [] then None else parse_digits 0 ds)"

text \<open>Decimal output of \<^verbatim>\<open>format!\<close> for an unsigned number.\<close>

fun show_nat :: "nat \<Rightarrow> string" where
  "show_nat n =
     (if n < 10 then [char_of (n + 48)] else show_nat (n div 10) @ [char_of (n mod 10 + 48)])"

declare show_nat.simps [simp del]

section \<open>Facts\<close>

lemma lead_width_pos [simp]: "0 < lead_width c"
  by (simp add: lead_width_def)

lemma utf8_chars_concat [simp]: "concat (map snd (utf8_chars s)) = s"
  by (induction s rule: utf8_chars.induct) simp_all

lemma utf8_chars_ascii:
  "\<forall>c \<in> set s. byte c < 128 \<Longrightarrow> utf8_chars s = map (\<lambda>c. (byte c, [c])) s"
  by (induction s) (simp_all add: lead_width_def code_point_def)

lemma utf8_chars_nonempty: "x \<in> set (utf8_chars s) \<Longrightarrow> snd x \<noteq> []"
  by (induction s rule: utf8_chars.induct)
    (auto simp: lead_width_def split: if_splits)

lemma any_char_ascii:
  "\<forall>c \<in> set s. byte c < 128 \<Longrightarrow> any_char p s \<longleftrightarrow> (\<exists>c \<in> set s. p (byte c))"
  by (auto simp: any_char_def utf8_chars_ascii list_ex_iff)

subsection \<open>Trimming\<close>

text \<open>
  \<open>char_segs\<close> is the shape of a decoded string: every segment carries its own code point and is
  as long as its lead byte says, the last one at most that long. Decoding the concatenation of
  such segments gives them back, so trimming on segments is trimming on strings.
\<close>

fun char_segs :: "(nat \<times> string) list \<Rightarrow> bool" where
  "char_segs [] = True"
| "char_segs ((cp, b) # xs) \<longleftrightarrow>
     b \<noteq> [] \<and> cp = code_point b \<and> length b \<le> lead_width (hd b) \<and>
     (xs \<noteq> [] \<longrightarrow> length b = lead_width (hd b)) \<and> char_segs xs"

lemma char_segs_utf8: "char_segs (utf8_chars s)"
proof (induction s rule: utf8_chars.induct)
  case (2 c cs)
  have "utf8_chars (drop (lead_width c) (c # cs)) \<noteq> [] \<Longrightarrow> lead_width c < length (c # cs)"
    by (cases "lead_width c < length (c # cs)") simp_all
  moreover have "hd (take (lead_width c) (c # cs)) = c"
    by (cases "lead_width c") (use lead_width_pos [of c] in simp_all)
  ultimately show ?case
    using 2 by (auto simp: take_Cons' gr0_conv_Suc simp del: utf8_chars.simps(2) split: nat.splits)
      (subst utf8_chars.simps, auto)
qed simp

lemma utf8_chars_segs: "char_segs xs \<Longrightarrow> utf8_chars (concat (map snd xs)) = xs"
proof (induction xs rule: char_segs.induct)
  case (2 cp b xs)
  then obtain c cs where b: "b = c # cs" by (cases b) auto
  show ?case
  proof (cases "xs = []")
    case True
    with 2 b show ?thesis by simp
  next
    case False
    with 2 b have "lead_width c = length b" by simp
    with 2 b show ?thesis by simp
  qed
qed simp

lemma char_segs_append1: "char_segs (xs @ ys) \<Longrightarrow> char_segs xs"
  by (induction xs rule: char_segs.induct) auto

lemma char_segs_append2: "char_segs (xs @ ys) \<Longrightarrow> char_segs ys"
  by (induction xs rule: char_segs.induct) auto

lemma trim_chars_split: "\<exists>us vs. xs = us @ trim_chars xs @ vs"
proof -
  let ?p = "\<lambda>(cp, _). is_whitespace cp"
  let ?m = "dropWhile ?p xs"
  have "xs = takeWhile ?p xs @ ?m" by simp
  moreover have "?m = rev (dropWhile ?p (rev ?m)) @ rev (takeWhile ?p (rev ?m))"
    by (metis rev_append rev_rev_ident takeWhile_dropWhile_id)
  ultimately show ?thesis unfolding trim_chars_def by metis
qed

lemma char_segs_trim: "char_segs xs \<Longrightarrow> char_segs (trim_chars xs)"
  by (metis trim_chars_split char_segs_append1 char_segs_append2)

lemma utf8_chars_trim [simp]: "utf8_chars (trim s) = trim_chars (utf8_chars s)"
  by (simp add: trim_def utf8_chars_segs char_segs_trim char_segs_utf8)

lemma dropWhile_rev_hd:
  "dropWhile p xs = xs \<Longrightarrow> dropWhile p (rev (dropWhile p (rev xs))) = rev (dropWhile p (rev xs))"
proof (cases xs)
  case (Cons x ys)
  assume "dropWhile p xs = xs"
  with Cons have "\<not> p x" by (metis dropWhile_eq_self_iff list.distinct(1) list.sel(1))
  with Cons have "rev (dropWhile p (rev xs)) = x # rev (dropWhile p (rev ys))"
    by (simp add: dropWhile_append3)
  with \<open>\<not> p x\<close> show ?thesis by simp
qed simp

lemma trim_chars_idem [simp]: "trim_chars (trim_chars xs) = trim_chars xs"
  by (simp add: trim_chars_def dropWhile_rev_hd)

lemma trim_idem [simp]: "trim (trim s) = trim s"
  using trim_def [of "trim s"] by (simp add: trim_def [of s, symmetric])

lemma dropWhile_none: "\<forall>x \<in> set xs. \<not> p x \<Longrightarrow> dropWhile p xs = xs"
  by (induction xs) simp_all

lemma trim_no_whitespace: "\<not> any_char is_whitespace s \<Longrightarrow> trim s = s"
proof -
  let ?p = "\<lambda>(cp, _). is_whitespace cp"
  assume "\<not> any_char is_whitespace s"
  then have none: "\<forall>x \<in> set (utf8_chars s). \<not> ?p x"
    by (auto simp: any_char_def list_ex_iff)
  then have "dropWhile ?p (utf8_chars s) = utf8_chars s"
    and "dropWhile ?p (rev (utf8_chars s)) = rev (utf8_chars s)"
    by (simp_all add: dropWhile_none)
  then show ?thesis by (simp add: trim_def trim_chars_def)
qed

lemma trim_sublist: "sublist (trim s) s"
proof -
  obtain us vs where "utf8_chars s = us @ trim_chars (utf8_chars s) @ vs"
    using trim_chars_split by blast
  then have "s = concat (map snd us) @ trim s @ concat (map snd vs)"
    by (metis concat_append map_append trim_def utf8_chars_concat)
  then show ?thesis by (auto simp: sublist_def)
qed

lemma trim_length: "length (trim s) \<le> length s"
  using trim_sublist sublist_length_le by blast

lemma trim_chars_snoc_hd:
  assumes "trim_chars xs \<noteq> []"
  shows "\<not> is_whitespace (fst (hd (trim_chars xs)))" and "\<not> is_whitespace (fst (last (trim_chars xs)))"
proof -
  let ?p = "\<lambda>(cp, _). is_whitespace cp"
  have "dropWhile ?p (trim_chars xs) = trim_chars xs"
    unfolding trim_chars_def by (rule dropWhile_rev_hd) simp
  with assms show "\<not> is_whitespace (fst (hd (trim_chars xs)))"
    by (auto simp: dropWhile_eq_self_iff split: prod.splits)
  have "dropWhile ?p (rev (trim_chars xs)) = rev (trim_chars xs)"
    unfolding trim_chars_def by simp
  with assms show "\<not> is_whitespace (fst (last (trim_chars xs)))"
    by (auto simp: dropWhile_eq_self_iff hd_rev split: prod.splits)
qed

subsection \<open>Prefixes, substrings and splitting\<close>

lemma strip_prefix_iff: "strip_prefix p s = Some t \<longleftrightarrow> s = p @ t"
  by (induction p s rule: strip_prefix.induct) auto

lemma strip_prefix_append [simp]: "strip_prefix p (p @ t) = Some t"
  by (simp add: strip_prefix_iff)

lemma strip_prefix_None_iff: "strip_prefix p s = None \<longleftrightarrow> \<not> prefix p s"
  by (metis not_Some_eq prefix_def strip_prefix_iff)

lemma str_contains_iff: "str_contains pat s \<longleftrightarrow> sublist pat s"
proof (induction s)
  case (Cons c cs)
  then show ?case
    by (auto simp: strip_prefix_None_iff sublist_Cons_right)
qed simp

lemma split_on_nonempty [simp]: "split_on d s \<noteq> []"
  by (induction s) (auto split: list.splits)

lemma split_on_absent: "d \<notin> set s \<Longrightarrow> split_on d s = [s]"
  by (induction s) auto

lemma split_on_append: "d \<notin> set w \<Longrightarrow> split_on d (w @ d # s) = w # split_on d s"
  by (induction w) auto

lemma split_on_parts: "w \<in> set (split_on d s) \<Longrightarrow> d \<notin> set w"
  by (induction s arbitrary: w) (fastforce split: list.splits if_splits)+

lemma join_split [simp]: "join_with d (split_on d s) = s"
proof (induction s)
  case (Cons c cs)
  obtain w ws where w: "split_on d cs = w # ws" by (cases "split_on d cs") auto
  with Cons show ?case by (cases ws) auto
qed simp

lemma split_join:
  "ws \<noteq> [] \<Longrightarrow> \<forall>w \<in> set ws. d \<notin> set w \<Longrightarrow> split_on d (join_with d ws) = ws"
  by (induction d ws rule: join_with.induct) (simp_all add: split_on_absent split_on_append)

subsection \<open>Numbers\<close>

lemma parse_digits_bound: "parse_digits acc s = Some n \<Longrightarrow> acc < usize_limit \<Longrightarrow> n < usize_limit"
  by (induction acc s rule: parse_digits.induct) (auto split: option.splits if_splits)

lemma parse_usize_bound: "parse_usize s = Some n \<Longrightarrow> n < usize_limit"
  by (auto simp: parse_usize_def Let_def usize_limit_def split: if_splits dest: parse_digits_bound)

lemma parse_digits_snoc:
  "parse_digits acc (s @ [c]) =
     Option.bind (parse_digits acc s) (\<lambda>n. parse_digits n [c])"
  by (induction acc s rule: parse_digits.induct) (auto split: option.splits)

lemma digit_value_char_of: "d < 10 \<Longrightarrow> digit_value (char_of (d + 48)) = Some d"
  by (simp add: digit_value_def byte_def)

lemma parse_digits_show: "n < usize_limit \<Longrightarrow> parse_digits 0 (show_nat n) = Some n"
proof (induction n rule: show_nat.induct)
  case (1 n)
  show ?case
  proof (cases "n < 10")
    case True
    with 1 show ?thesis by (simp add: show_nat.simps [of n] digit_value_char_of)
  next
    case False
    with 1 have "parse_digits 0 (show_nat (n div 10)) = Some (n div 10)" by simp
    with False 1 show ?thesis
      by (simp add: show_nat.simps [of n] parse_digits_snoc digit_value_char_of)
  qed
qed

lemma show_nat_digits: "c \<in> set (show_nat n) \<Longrightarrow> digit_value c \<noteq> None"
proof (induction n rule: show_nat.induct)
  case (1 n)
  show ?case
  proof (cases "n < 10")
    case True
    with "1.prems" show ?thesis by (simp add: show_nat.simps [of n] digit_value_char_of)
  next
    case False
    with "1.prems" have "c \<in> set (show_nat (n div 10)) \<or> c = char_of (n mod 10 + 48)"
      by (auto simp: show_nat.simps [of n])
    with "1.IH" False show ?thesis by (auto simp: digit_value_char_of)
  qed
qed

lemma parse_usize_show: "n < usize_limit \<Longrightarrow> parse_usize (show_nat n) = Some n"
proof -
  assume n: "n < usize_limit"
  obtain c cs where s: "show_nat n = c # cs"
    by (cases "show_nat n") (auto simp: show_nat.simps [of n] split: if_splits)
  then have "c \<noteq> CHR ''+''"
    using show_nat_digits [of c n] by (auto simp: digit_value_def byte_def)
  with s parse_digits_show [OF n] show ?thesis by (simp add: parse_usize_def)
qed

end
