(* ===== verification/Cases.thy ===== *)
theory Cases
  imports Database Rust_Str
begin

text \<open>
  \<^verbatim>\<open>src/cases.rs\<close>: the case service over PostgreSQL. The struct \<^verbatim>\<open>CaseService\<close> holds only the
  connection pool, so its methods are actions on the database world. The functions of
  \<^verbatim>\<open>apme_interfaces\<close>, \<^verbatim>\<open>serde_json\<close> and \<^verbatim>\<open>sha2\<close> that the methods call are fields of the parameter
  record \<open>interfaces\<close>, the stored functions fields of \<open>procs\<close>.
\<close>

section \<open>Errors and parameters\<close>

datatype case_service_error =
    NotAuthorized
  | NotFound
  | IdempotencyConflict
  | StaleVersion
  | InvalidTransition
  | KeyVersionRollback
  | Validation string
  | Storage sql_error

datatype case_config_error = MissingDatabaseUrl | Connect sql_error

text \<open>What \<^verbatim>\<open>canonical_hash\<close> is applied to: the tagged tuples of the three mutations.\<close>

datatype hash_input =
    Create_input nat create_case_command
  | Transition_input nat uuid transition_case_command
  | Rotate_input nat uuid rotate_encrypted_object_command

record interfaces =
  can_create_or_transition :: "tenant_role \<Rightarrow> bool"
  can_export_or_delete :: "tenant_role \<Rightarrow> bool"
  validate_create :: "create_case_command \<Rightarrow> instant \<Rightarrow> string + unit"
  validate_object :: "encrypted_object_reference \<Rightarrow> string + unit"
  json_to_vec :: "hash_input \<Rightarrow> string + bytes"
  sha256_digest :: "bytes \<Rightarrow> bytes"

section \<open>Names stored in the database\<close>

definition parse_status :: "string \<Rightarrow> case_service_error + case_status" where
  "parse_status value =
     (if value = ''intake'' then Inr Intake
      else if value = ''collecting_documents'' then Inr CollectingDocuments
      else if value = ''review'' then Inr Review
      else if value = ''submitted'' then Inr Submitted
      else if value = ''completed'' then Inr Completed
      else if value = ''closed'' then Inr Closed
      else Inl (Validation ''unknown persisted case status''))"

primrec status_name :: "case_status \<Rightarrow> string" where
  "status_name Intake = ''intake''"
| "status_name CollectingDocuments = ''collecting_documents''"
| "status_name Review = ''review''"
| "status_name Submitted = ''submitted''"
| "status_name Completed = ''completed''"
| "status_name Closed = ''closed''"

definition parse_retention :: "string \<Rightarrow> case_service_error + retention_class" where
  "parse_retention value =
     (if value = ''standard'' then Inr Standard
      else if value = ''extended'' then Inr Extended
      else if value = ''legal_hold_eligible'' then Inr LegalHoldEligible
      else Inl (Validation ''unknown persisted retention class''))"

primrec retention_name :: "retention_class \<Rightarrow> string" where
  "retention_name Standard = ''standard''"
| "retention_name Extended = ''extended''"
| "retention_name LegalHoldEligible = ''legal_hold_eligible''"

definition parse_role :: "string \<Rightarrow> case_service_error + tenant_role" where
  "parse_role value =
     (if value = ''viewer'' then Inr Viewer
      else if value = ''agent'' then Inr Agent
      else if value = ''administrator'' then Inr Administrator
      else Inl NotAuthorized)"

section \<open>Rows, keys, hashes and SQL errors\<close>

definition case_from_row :: "case_row \<Rightarrow> case_service_error + persisted_case" where
  "case_from_row row =
     and_then (parse_status (cr_status row)) (\<lambda>status.
     and_then (parse_retention (cr_retention_class row)) (\<lambda>retention.
     and_then
       (case (cr_encrypted_object_reference row, cr_ciphertext_sha256 row, cr_object_key_version row) of
          (Some r, Some c, Some k) \<Rightarrow>
            Inr (Some \<lparr>object_reference = r, ciphertext_sha256 = c, key_version = k\<rparr>)
        | (None, None, None) \<Rightarrow> Inr None
        | _ \<Rightarrow> Inl (Validation ''incomplete encrypted object reference in persistence''))
       (\<lambda>document.
     Inr \<lparr>pc_id = cr_id row, pc_tenant_id = cr_tenant_id row, pc_version = cr_version row,
          pc_title = cr_title row, pc_summary = cr_summary row,
          pc_client_reference = cr_client_reference row,
          pc_destination_country = cr_destination_country row,
          pc_document_type = cr_document_type row,
          pc_next_action_due_at = cr_next_action_due_at row,
          pc_status = status, pc_retention_class = retention,
          pc_retain_until = cr_retain_until row, pc_legal_hold = cr_legal_hold row,
          pc_tombstoned_at = cr_tombstoned_at row, pc_encrypted_document = document,
          pc_created_at = cr_created_at row, pc_updated_at = cr_updated_at row\<rparr>)))"

definition canonical_hash :: "interfaces \<Rightarrow> hash_input \<Rightarrow> case_service_error + bytes" where
  "canonical_hash L value =
     and_then (map_err Validation (json_to_vec L value)) (\<lambda>bytes. Inr (sha256_digest L bytes))"

definition validate_idempotency_key :: "string \<Rightarrow> case_service_error + unit" where
  "validate_idempotency_key value =
     (if value = [] \<or> length value > 200 \<or> any_char is_control value
      then Inl (Validation ''Idempotency-Key must contain 1 through 200 visible characters'')
      else Inr ())"

definition require_mutator :: "interfaces \<Rightarrow> tenant_context \<Rightarrow> case_service_error + unit" where
  "require_mutator L context =
     (if can_create_or_transition L (ctx_role context) then Inr () else Inl NotAuthorized)"

definition database_message :: "sql_error \<Rightarrow> string" where
  "database_message e = (case e of Database_error m \<Rightarrow> m | Client_error _ \<Rightarrow> [])"

definition map_sql_error :: "sql_error \<Rightarrow> case_service_error" where
  "map_sql_error e =
     (let message = database_message e in
      if str_contains ''APME_NOT_AUTHORIZED'' message then NotAuthorized
      else if str_contains ''APME_CASE_NOT_FOUND'' message then NotFound
      else if str_contains ''APME_IDEMPOTENCY_CONFLICT'' message then IdempotencyConflict
      else if str_contains ''APME_STALE_VERSION'' message then StaleVersion
      else if str_contains ''APME_INVALID_TRANSITION'' message then InvalidTransition
      else if str_contains ''APME_KEY_VERSION_ROLLBACK'' message then KeyVersionRollback
      else if str_contains ''APME_CASE_OBJECT_NOT_FOUND'' message then NotFound
      else Storage e)"

section \<open>The service\<close>

record pool_options =
  min_connections :: nat
  max_connections :: nat
  acquire_timeout_secs :: nat

definition database_url :: "env_vars \<Rightarrow> case_config_error + string" where
  "database_url env =
     ok_or MissingDatabaseUrl
       (filter_opt (\<lambda>v. v \<noteq> []) (map_option trim (env ''DATABASE_URL'')))"

definition case_service_from_env ::
  "(pool_options \<Rightarrow> string \<Rightarrow> sql_error + 'd) \<Rightarrow> env_vars \<Rightarrow> case_config_error + 'd" where
  "case_service_from_env connect env =
     and_then (database_url env) (\<lambda>url.
       map_err Connect
         (connect \<lparr>min_connections = 1, max_connections = 16, acquire_timeout_secs = 5\<rparr> url))"

definition migrate :: "'d procs \<Rightarrow> ('d world, case_service_error, unit) action" where
  "migrate P = act_map_err Storage (db_call (persistence_migration P))"

definition tenant_context ::
  "verified_subject \<Rightarrow> uuid \<Rightarrow> ('x database_scheme world, case_service_error, tenant_context) action" where
  "tenant_context subject tenant_id =
     bind_try
       (act_map_err Storage
         (db_call (query (\<lambda>d. Inr (fetch_optional (membership_rows tenant_id (vs_shared_user_id subject) d))))))
       (\<lambda>found. lift_result
         (and_then (ok_or NotAuthorized found) (\<lambda>(organization, role_name).
          and_then (parse_role role_name) (\<lambda>role.
          Inr \<lparr>ctx_tenant_id = tenant_id, ctx_organization_id = organization, ctx_role = role\<rparr>))))"

definition list_cases ::
  "tenant_context \<Rightarrow> ('x database_scheme world, case_service_error, persisted_case list) action" where
  "list_cases context =
     bind_try (act_map_err Storage (db_call (query (\<lambda>d. Inr (case_select_list (ctx_tenant_id context) d)))))
       (\<lambda>rows. lift_result (try_map case_from_row rows))"

definition get_case ::
  "tenant_context \<Rightarrow> uuid \<Rightarrow> ('x database_scheme world, case_service_error, persisted_case) action" where
  "get_case context case_id =
     bind_try
       (act_map_err Storage
         (db_call (query (\<lambda>d. Inr (fetch_optional (case_select_one (ctx_tenant_id context) case_id d))))))
       (\<lambda>found. lift_result (and_then (ok_or NotFound found) case_from_row))"

definition access_audit :: "uuid \<Rightarrow> string \<Rightarrow> uuid \<Rightarrow> instant \<Rightarrow> audit_args" where
  "access_audit tenant actor resource_id now =
     \<lparr>aa_tenant_id = tenant, aa_action = ''access'', aa_actor = actor, aa_resource_type = ''case'',
      aa_resource_id = resource_id, aa_occurred_at = now, aa_details = ''{}''\<rparr>"

definition record_access ::
  "'d procs \<Rightarrow> tenant_context \<Rightarrow> verified_subject \<Rightarrow> uuid \<Rightarrow> instant \<Rightarrow>
     ('d world, case_service_error, unit) action" where
  "record_access P context subject resource_id now =
     act_map_err Storage
       (db_call (apme_append_audit P (access_audit (ctx_tenant_id context) (vs_shared_user_id subject) resource_id now)))"

definition mutation_result ::
  "tenant_context \<Rightarrow> mutation_row \<Rightarrow>
     ('x database_scheme world, case_service_error, case_mutation_result) action" where
  "mutation_result context mutation =
     bind_try (get_case context (mu_case_id mutation)) (\<lambda>c.
     bind_try
       (act_map_err Storage
         (db_call (query (\<lambda>d. fetch_one (event_select (ctx_tenant_id context) (mu_event_id mutation) d)))))
       (\<lambda>e. pure_ok
         \<lparr>mr_case = c,
          mr_event =
            \<lparr>er_event_id = mu_event_id mutation, er_tenant_id = ev_tenant_id e,
             er_case_id = ev_case_id e, er_case_version = ev_case_version e,
             er_event_type = ev_event_type e, er_occurred_at = ev_occurred_at e,
             er_event_hash = mu_event_hash mutation\<rparr>,
          mr_replayed = mu_replayed mutation\<rparr>))"

text \<open>The last step of the three mutations: call the stored function, then read the result back.\<close>

definition commit_mutation ::
  "tenant_context \<Rightarrow> ('x database_scheme, mutation_row) stmt \<Rightarrow>
     ('x database_scheme world, case_service_error, case_mutation_result) action" where
  "commit_mutation context statement =
     bind_try (act_map_err map_sql_error (db_call statement)) (mutation_result context)"

definition create_args_of ::
  "tenant_context \<Rightarrow> verified_subject \<Rightarrow> string \<Rightarrow> bytes \<Rightarrow> create_case_command \<Rightarrow> instant \<Rightarrow> create_args" where
  "create_args_of context subject key request_hash command now =
     \<lparr>ca_tenant_id = ctx_tenant_id context, ca_actor = vs_shared_user_id subject,
      ca_idempotency_key = key, ca_request_hash = request_hash,
      ca_title = cc_title command, ca_summary = cc_summary command,
      ca_client_reference = cc_client_reference command,
      ca_destination_country = cc_destination_country command,
      ca_document_type = cc_document_type command,
      ca_next_action_due_at = cc_next_action_due_at command,
      ca_retention_class = retention_name (cc_retention_class command),
      ca_retain_until = cc_retain_until command,
      ca_object_reference = map_option object_reference (cc_encrypted_document command),
      ca_ciphertext_sha256 = map_option ciphertext_sha256 (cc_encrypted_document command),
      ca_key_version = map_option key_version (cc_encrypted_document command),
      ca_now = now\<rparr>"

definition create_case ::
  "interfaces \<Rightarrow> 'x database_scheme procs \<Rightarrow> tenant_context \<Rightarrow> verified_subject \<Rightarrow> string \<Rightarrow>
     create_case_command \<Rightarrow> instant \<Rightarrow>
     ('x database_scheme world, case_service_error, case_mutation_result) action" where
  "create_case L P context subject key command now =
     bind_try (lift_result (require_mutator L context)) (\<lambda>_.
     bind_try (lift_result (validate_idempotency_key key)) (\<lambda>_.
     bind_try (lift_result (map_err Validation (validate_create L command now))) (\<lambda>_.
     bind_try (lift_result (canonical_hash L (Create_input 1 command))) (\<lambda>request_hash.
     commit_mutation context
       (apme_create_case P (create_args_of context subject key request_hash command now))))))"

definition transition_args_of ::
  "tenant_context \<Rightarrow> verified_subject \<Rightarrow> uuid \<Rightarrow> string \<Rightarrow> bytes \<Rightarrow> transition_case_command \<Rightarrow>
     instant \<Rightarrow> transition_args" where
  "transition_args_of context subject case_id key request_hash command now =
     \<lparr>ta_tenant_id = ctx_tenant_id context, ta_actor = vs_shared_user_id subject,
      ta_case_id = case_id, ta_expected_version = tc_expected_version command,
      ta_to_status = status_name (tc_to_status command), ta_idempotency_key = key,
      ta_request_hash = request_hash, ta_now = now\<rparr>"

definition positive_version :: "int \<Rightarrow> case_service_error + unit" where
  "positive_version v =
     (if v \<le> 0 then Inl (Validation ''expected_version must be positive'') else Inr ())"

definition transition_case ::
  "interfaces \<Rightarrow> 'x database_scheme procs \<Rightarrow> tenant_context \<Rightarrow> verified_subject \<Rightarrow> uuid \<Rightarrow> string \<Rightarrow>
     transition_case_command \<Rightarrow> instant \<Rightarrow>
     ('x database_scheme world, case_service_error, case_mutation_result) action" where
  "transition_case L P context subject case_id key command now =
     bind_try (lift_result (require_mutator L context)) (\<lambda>_.
     bind_try (lift_result (validate_idempotency_key key)) (\<lambda>_.
     bind_try (lift_result (positive_version (tc_expected_version command))) (\<lambda>_.
     bind_try (lift_result (canonical_hash L (Transition_input 1 case_id command))) (\<lambda>request_hash.
     commit_mutation context
       (apme_transition_case P (transition_args_of context subject case_id key request_hash command now))))))"

definition rotate_args_of ::
  "tenant_context \<Rightarrow> verified_subject \<Rightarrow> uuid \<Rightarrow> string \<Rightarrow> bytes \<Rightarrow> rotate_encrypted_object_command \<Rightarrow>
     instant \<Rightarrow> rotate_args" where
  "rotate_args_of context subject case_id key request_hash command now =
     (let document = rc_encrypted_document command in
      \<lparr>ra_tenant_id = ctx_tenant_id context, ra_actor = vs_shared_user_id subject,
       ra_case_id = case_id, ra_expected_version = rc_expected_version command,
       ra_idempotency_key = key, ra_request_hash = request_hash,
       ra_object_reference = object_reference document,
       ra_ciphertext_sha256 = ciphertext_sha256 document,
       ra_key_version = key_version document, ra_now = now\<rparr>)"

definition rotate_encrypted_object ::
  "interfaces \<Rightarrow> 'x database_scheme procs \<Rightarrow> tenant_context \<Rightarrow> verified_subject \<Rightarrow> uuid \<Rightarrow> string \<Rightarrow>
     rotate_encrypted_object_command \<Rightarrow> instant \<Rightarrow>
     ('x database_scheme world, case_service_error, case_mutation_result) action" where
  "rotate_encrypted_object L P context subject case_id key command now =
     bind_try
       (lift_result
         (if can_export_or_delete L (ctx_role context) then Inr () else Inl NotAuthorized)) (\<lambda>_.
     bind_try (lift_result (validate_idempotency_key key)) (\<lambda>_.
     bind_try (lift_result (positive_version (rc_expected_version command))) (\<lambda>_.
     bind_try (lift_result (map_err Validation (validate_object L (rc_encrypted_document command)))) (\<lambda>_.
     bind_try (lift_result (canonical_hash L (Rotate_input 1 case_id command))) (\<lambda>request_hash.
     commit_mutation context
       (apme_rotate_case_object P (rotate_args_of context subject case_id key request_hash command now)))))))"

definition apply_retention ::
  "'d procs \<Rightarrow> instant \<Rightarrow> string \<Rightarrow> ('d world, case_service_error, int) action" where
  "apply_retention P now actor = act_map_err Storage (db_call (apme_apply_retention P now actor))"

definition verify_case_audit :: "'d procs \<Rightarrow> uuid \<Rightarrow> ('d world, case_service_error, bool) action" where
  "verify_case_audit P case_id = act_map_err Storage (db_call (apme_verify_case_audit P case_id))"

definition verify_tenant_audit :: "'d procs \<Rightarrow> uuid \<Rightarrow> ('d world, case_service_error, bool) action" where
  "verify_tenant_audit P tenant_id = act_map_err Storage (db_call (apme_verify_tenant_audit P tenant_id))"

end
