(* ===== verification/Case_Contracts.thy ===== *)
theory Case_Contracts
  imports Cases
begin

text \<open>
  What the case service promises. Three interfaces are stated as locales and discharged for the
  definitions of \<open>Cases\<close>: a codec between an enum and its stored names, tenant-scoped reading,
  and a guarded mutation. The properties of the service follow: reads stay inside the tenant and
  agree with each other, rows and cases correspond one to one, a definite refusal leaves the
  database alone, and every result of a mutation belongs to the tenant of the context.
\<close>

section \<open>Names\<close>

locale name_codec =
  fixes name :: "'a \<Rightarrow> string"
    and parse :: "string \<Rightarrow> 'e + 'a"
  assumes parse_name: "parse (name x) = Inr x"
    and name_parse: "parse s = Inr x \<Longrightarrow> name x = s"
begin

lemma parse_Inr_iff: "parse s = Inr x \<longleftrightarrow> s = name x"
  using parse_name name_parse by auto

lemma name_inj: "name x = name y \<longleftrightarrow> x = y"
  by (metis Inr_inject parse_name)

lemma parse_fails_iff: "\<not> is_ok (parse s) \<longleftrightarrow> s \<notin> range name"
  by (auto simp: is_ok_iff parse_Inr_iff)

end

interpretation status_codec: name_codec status_name parse_status
proof
  show "parse_status (status_name x) = Inr x" for x
    by (cases x) (simp_all add: parse_status_def)
  show "parse_status s = Inr x \<Longrightarrow> status_name x = s" for s x
    by (auto simp: parse_status_def split: if_splits)
qed

interpretation retention_codec: name_codec retention_name parse_retention
proof
  show "parse_retention (retention_name x) = Inr x" for x
    by (cases x) (simp_all add: parse_retention_def)
  show "parse_retention s = Inr x \<Longrightarrow> retention_name x = s" for s x
    by (auto simp: parse_retention_def split: if_splits)
qed

section \<open>Rows and cases\<close>

text \<open>The row that stores a case: what \<open>case_from_row\<close> is the inverse of.\<close>

definition row_of_case :: "persisted_case \<Rightarrow> case_row" where
  "row_of_case c =
     \<lparr>cr_id = pc_id c, cr_tenant_id = pc_tenant_id c, cr_version = pc_version c,
      cr_title = pc_title c, cr_summary = pc_summary c,
      cr_client_reference = pc_client_reference c,
      cr_destination_country = pc_destination_country c,
      cr_document_type = pc_document_type c,
      cr_next_action_due_at = pc_next_action_due_at c,
      cr_status = status_name (pc_status c),
      cr_retention_class = retention_name (pc_retention_class c),
      cr_retain_until = pc_retain_until c, cr_legal_hold = pc_legal_hold c,
      cr_tombstoned_at = pc_tombstoned_at c,
      cr_encrypted_object_reference = map_option object_reference (pc_encrypted_document c),
      cr_ciphertext_sha256 = map_option ciphertext_sha256 (pc_encrypted_document c),
      cr_object_key_version = map_option key_version (pc_encrypted_document c),
      cr_created_at = pc_created_at c, cr_updated_at = pc_updated_at c\<rparr>"

lemma case_from_row_of_case: "case_from_row (row_of_case c) = Inr c"
  by (cases "pc_encrypted_document c")
    (simp_all add: case_from_row_def row_of_case_def status_codec.parse_name retention_codec.parse_name)

lemma row_of_case_from_row: "case_from_row r = Inr c \<Longrightarrow> row_of_case c = r"
  by (auto simp: case_from_row_def row_of_case_def result_simps
      status_codec.parse_Inr_iff retention_codec.parse_Inr_iff split: option.splits)

lemma case_from_row_iff: "case_from_row r = Inr c \<longleftrightarrow> r = row_of_case c"
  using case_from_row_of_case row_of_case_from_row by auto

lemma row_of_case_fields [simp]:
  "cr_id (row_of_case c) = pc_id c" "cr_tenant_id (row_of_case c) = pc_tenant_id c"
  "cr_tombstoned_at (row_of_case c) = pc_tombstoned_at c"
  "cr_created_at (row_of_case c) = pc_created_at c"
  by (simp_all add: row_of_case_def)

lemma case_from_row_Inl: "case_from_row r = Inl e \<Longrightarrow> \<exists>m. e = Validation m"
  by (auto simp: case_from_row_def result_simps parse_status_def parse_retention_def
      split: option.splits if_splits)

section \<open>Reading inside one tenant\<close>

locale tenant_reader =
  fixes get :: "tenant_context \<Rightarrow> uuid \<Rightarrow> ('x database_scheme world, case_service_error, persisted_case) action"
    and listing :: "tenant_context \<Rightarrow> ('x database_scheme world, case_service_error, persisted_case list) action"
  assumes get_stored: "get context i w = (Inr c, w') \<Longrightarrow>
      pc_id c = i \<and> pc_tenant_id c = ctx_tenant_id context \<and> pc_tombstoned_at c = None \<and>
      row_of_case c \<in> set (case_table (presented w))"
    and listing_stored: "listing context w = (Inr cs, w') \<Longrightarrow>
      map row_of_case cs = case_select_list (ctx_tenant_id context) (presented w)"
    and get_reads: "get context i w = (r, w') \<Longrightarrow> store w' = presented w"
    and listing_reads: "listing context w = (q, w') \<Longrightarrow> store w' = presented w"
    and get_indefinite: "get context i w = (Inl e, w') \<Longrightarrow>
      e = NotFound \<or> (\<exists>m. e = Validation m) \<or> (\<exists>s. e = Storage s)"
begin

lemma listing_scoped:
  assumes "listing context w = (Inr cs, w')" and "c \<in> set cs"
  shows "pc_tenant_id c = ctx_tenant_id context" and "pc_tombstoned_at c = None"
proof -
  have "row_of_case c \<in> set (case_select_list (ctx_tenant_id context) (presented w))"
    using assms by (metis listing_stored list.set_map image_eqI)
  then show "pc_tenant_id c = ctx_tenant_id context" and "pc_tombstoned_at c = None"
    by (simp_all add: case_select_list_set)
qed

lemma listing_complete:
  assumes "listing context w = (Inr cs, w')" and "row_of_case c \<in> set (case_table (presented w))"
    and "pc_tenant_id c = ctx_tenant_id context" and "pc_tombstoned_at c = None"
  shows "c \<in> set cs"
proof -
  have "row_of_case c \<in> set (map row_of_case cs)"
    using assms by (simp add: listing_stored case_select_list_set)
  then obtain c' where "c' \<in> set cs" and eq: "row_of_case c = row_of_case c'" by auto
  have "c = c'" using eq by (metis case_from_row_of_case Inr_inject)
  with \<open>c' \<in> set cs\<close> show ?thesis by simp
qed

lemma get_is_listed:
  assumes "get context i w = (Inr c, w')" and "listing context v = (Inr cs, v')"
    and "presented v = presented w"
  shows "c \<in> set cs"
  using assms get_stored [OF assms(1)] by (auto intro: listing_complete)

end

lemma get_case_Inr:
  assumes "get_case context i w = (Inr c, w')"
  shows "pc_id c = i \<and> pc_tenant_id c = ctx_tenant_id context \<and> pc_tombstoned_at c = None \<and>
    row_of_case c \<in> set (case_table (presented w))"
proof -
  from assms obtain rows
    where "fetch_optional (case_select_one (ctx_tenant_id context) i (presented w)) = Some rows"
      and "case_from_row rows = Inr c"
    by (auto simp: get_case_def result_simps dest!: db_call_query_Inr)
  then have "row_of_case c \<in> set (case_select_one (ctx_tenant_id context) i (presented w))"
    by (auto simp: case_from_row_iff dest: fetch_optional_mem)
  then show ?thesis by (simp add: case_select_one_set)
qed

lemma list_cases_Inr:
  assumes "list_cases context w = (Inr cs, w')"
  shows "map row_of_case cs = case_select_list (ctx_tenant_id context) (presented w)"
proof -
  from assms have "try_map case_from_row (case_select_list (ctx_tenant_id context) (presented w)) = Inr cs"
    by (auto simp: list_cases_def result_simps dest!: db_call_query_Inr)
  then have "list_all2 (\<lambda>r c. r = row_of_case c) (case_select_list (ctx_tenant_id context) (presented w)) cs"
    by (simp add: try_map_Inr_iff case_from_row_iff)
  then show ?thesis by (induction rule: list_all2_induct) simp_all
qed

lemma get_case_Inl:
  "get_case context i w = (Inl e, w') \<Longrightarrow>
     e = NotFound \<or> (\<exists>m. e = Validation m) \<or> (\<exists>s. e = Storage s)"
  by (auto simp: get_case_def result_simps dest: case_from_row_Inl)

lemma reading_store:
  "get_case context i w = (r, w') \<Longrightarrow> store w' = presented w"
  "list_cases context w = (q, w') \<Longrightarrow> store w' = presented w"
  by (auto simp: get_case_def list_cases_def bind_try_def act_map_err_def db_call_query_store
      split: prod.splits sum.splits)

interpretation case_reader: tenant_reader get_case list_cases
  by unfold_locales (fact get_case_Inr list_cases_Inr reading_store get_case_Inl)+

section \<open>Guarded mutations\<close>

text \<open>
  A refusal that names a business rule is definite: the stored function raised, so nothing was
  written. The other errors can also come from reading the result back after a commit.
\<close>

definition definite :: "case_service_error \<Rightarrow> bool" where
  "definite e =
     (case e of
        NotAuthorized \<Rightarrow> True | IdempotencyConflict \<Rightarrow> True | StaleVersion \<Rightarrow> True
      | InvalidTransition \<Rightarrow> True | KeyVersionRollback \<Rightarrow> True
      | NotFound \<Rightarrow> False | Validation _ \<Rightarrow> False | Storage _ \<Rightarrow> False)"

text \<open>No other connection writes during the request.\<close>

definition quiet :: "'d world \<Rightarrow> bool" where
  "quiet w \<longleftrightarrow> (\<forall>s \<in> set (agenda w). fst s = id)"

lemma quiet_presented: "quiet w \<Longrightarrow> presented w = store w"
  by (auto simp: quiet_def presented_def split: list.splits)

locale case_mutation =
  fixes may :: "tenant_role \<Rightarrow> bool"
    and run :: "tenant_context \<Rightarrow> 'q \<Rightarrow>
      ('x database_scheme world, case_service_error, case_mutation_result) action"
  assumes refused: "\<not> may (ctx_role context) \<Longrightarrow> run context q w = (Inl NotAuthorized, w)"
    and owned: "run context q w = (Inr m, w') \<Longrightarrow>
      pc_tenant_id (mr_case m) = ctx_tenant_id context \<and> er_tenant_id (mr_event m) = ctx_tenant_id context"
    and definite_refusal: "quiet w \<Longrightarrow> run context q w = (Inl e, w') \<Longrightarrow> definite e \<Longrightarrow> store w' = store w"
begin

lemma allowed: "run context q w = (Inr m, w') \<Longrightarrow> may (ctx_role context)"
  using refused by fastforce

lemma one_tenant: "run context q w = (Inr m, w') \<Longrightarrow> pc_tenant_id (mr_case m) = er_tenant_id (mr_event m)"
  using owned by fastforce

end

lemma map_sql_error_client [simp]: "map_sql_error (Client_error m) = Storage (Client_error m)"
  by (simp add: map_sql_error_def database_message_def)

lemma mutation_result_Inr:
  assumes "mutation_result context row w = (Inr m, w')"
  shows "pc_id (mr_case m) = mu_case_id row" and "pc_tenant_id (mr_case m) = ctx_tenant_id context"
    and "er_tenant_id (mr_event m) = ctx_tenant_id context" and "er_event_id (mr_event m) = mu_event_id row"
    and "er_event_hash (mr_event m) = mu_event_hash row" and "mr_replayed m = mu_replayed row"
proof -
  from assms obtain c v e where got: "get_case context (mu_case_id row) w = (Inr c, v)"
    and "db_call (query (\<lambda>d. fetch_one (event_select (ctx_tenant_id context) (mu_event_id row) d))) v = (Inr e, w')"
    and m: "m = \<lparr>mr_case = c, mr_event = \<lparr>er_event_id = mu_event_id row, er_tenant_id = ev_tenant_id e,
             er_case_id = ev_case_id e, er_case_version = ev_case_version e,
             er_event_type = ev_event_type e, er_occurred_at = ev_occurred_at e,
             er_event_hash = mu_event_hash row\<rparr>, mr_replayed = mu_replayed row\<rparr>"
    by (auto simp: mutation_result_def result_simps)
  then have "e \<in> set (event_select (ctx_tenant_id context) (mu_event_id row) (presented v))"
    by (blast dest: db_call_query_Inr fetch_one_mem)
  then have "ev_tenant_id e = ctx_tenant_id context" by (simp add: event_select_set)
  with m get_case_Inr [OF got]
  show "pc_id (mr_case m) = mu_case_id row" "pc_tenant_id (mr_case m) = ctx_tenant_id context"
    "er_tenant_id (mr_event m) = ctx_tenant_id context" "er_event_id (mr_event m) = mu_event_id row"
    "er_event_hash (mr_event m) = mu_event_hash row" "mr_replayed m = mu_replayed row"
    by simp_all
qed

lemma mutation_result_Inl:
  assumes "mutation_result context row w = (Inl e, w')"
  shows "\<not> definite e"
proof -
  from assms consider "get_case context (mu_case_id row) w = (Inl e, w')" | s where "e = Storage s"
    by (auto simp: mutation_result_def result_simps)
  then show ?thesis
  proof cases
    case 1
    from get_case_Inl [OF this] show ?thesis by (auto simp: definite_def)
  qed (simp add: definite_def)
qed

lemma commit_mutation_Inr:
  assumes "commit_mutation context statement w = (Inr m, w')"
  obtains row v where "statement (presented w) = Inr (row, store v)"
    and "mutation_result context row v = (Inr m, w')"
proof -
  from assms obtain row v where call: "db_call statement w = (Inr row, v)"
    and reread: "mutation_result context row v = (Inr m, w')"
    by (auto simp: commit_mutation_def result_simps)
  from that [OF db_call_Inr(1) [OF call] reread] show thesis .
qed

lemma commit_mutation_owned:
  "commit_mutation context statement w = (Inr m, w') \<Longrightarrow>
     pc_tenant_id (mr_case m) = ctx_tenant_id context \<and> er_tenant_id (mr_event m) = ctx_tenant_id context"
  by (erule commit_mutation_Inr) (simp add: mutation_result_Inr)

lemma commit_mutation_definite:
  assumes "quiet w" and "commit_mutation context statement w = (Inl e, w')" and "definite e"
  shows "store w' = store w"
proof -
  from assms obtain d where d: "db_call statement w = (Inl d, w')" and e: "e = map_sql_error d"
    by (auto simp: commit_mutation_def result_simps dest: mutation_result_Inl)
  have "\<nexists>m. d = Client_error m"
    using e \<open>definite e\<close> by (auto simp: definite_def)
  with db_call_Inl(1) [OF d] have "store w' = presented w" by blast
  with quiet_presented [OF \<open>quiet w\<close>] show ?thesis by simp
qed

lemma calm_reading:
  assumes "agenda w = []"
  shows "get_case context i w =
      (and_then (ok_or NotFound (fetch_optional (case_select_one (ctx_tenant_id context) i (store w)))) case_from_row, w)"
  using assms by (simp add: get_case_def bind_try_def act_map_err_def db_call_def run_stmt_def query_def)

lemma calm_event_read:
  assumes "agenda w = []"
  shows "act_map_err Storage (db_call (query (\<lambda>d. fetch_one (event_select t i d)))) w =
      (map_err Storage (fetch_one (event_select t i (store w))), w)"
  using assms
  by (simp add: act_map_err_def db_call_def run_stmt_def query_def split: sum.splits)

lemma mutation_result_calm: "agenda w = [] \<Longrightarrow> snd (mutation_result context row w) = w"
  by (auto simp: mutation_result_def bind_try_def calm_reading calm_event_read split: sum.splits)

lemma mutation_result_replayed:
  "mutation_result context row w = (Inr m, w') \<Longrightarrow>
     mutation_result context (row\<lparr>mu_replayed := True\<rparr>) w = (Inr (m\<lparr>mr_replayed := True\<rparr>), w')"
  by (auto simp: mutation_result_def bind_try_def split: prod.splits sum.splits)

lemma commit_mutation_calm:
  "agenda w = [] \<Longrightarrow> statement (store w) = Inr (row, d) \<Longrightarrow>
     commit_mutation context statement w = mutation_result context row (w\<lparr>store := d\<rparr>)"
  by (simp add: commit_mutation_def bind_try_def act_map_err_def db_call_calm)

lemma commit_mutation_lost:
  "agenda w = [(id, Some (Lost_after msg))] \<Longrightarrow> statement (store w) = Inr (row, d) \<Longrightarrow>
     commit_mutation context statement w = (Inl (Storage (Client_error msg)), \<lparr>store = d, agenda = []\<rparr>)"
  by (simp add: commit_mutation_def bind_try_def act_map_err_def db_call_def run_stmt_def)

lemmas mutation_defs = create_case_def transition_case_def rotate_encrypted_object_def

lemma lift_chain:
  "bind_try (lift_result r) f w = (case r of Inl e \<Rightarrow> (Inl e, w) | Inr x \<Rightarrow> f x w)"
  by (cases r) simp_all

lemma create_case_cases:
  "create_case L P context subject key command now w =
     (case require_mutator L context of Inl e \<Rightarrow> (Inl e, w) | Inr _ \<Rightarrow>
      (case validate_idempotency_key key of Inl e \<Rightarrow> (Inl e, w) | Inr _ \<Rightarrow>
       (case map_err Validation (validate_create L command now) of Inl e \<Rightarrow> (Inl e, w) | Inr _ \<Rightarrow>
        (case canonical_hash L (Create_input 1 command) of Inl e \<Rightarrow> (Inl e, w) | Inr h \<Rightarrow>
         commit_mutation context (apme_create_case P (create_args_of context subject key h command now)) w))))"
  by (auto simp: create_case_def lift_chain split: sum.split)

lemma transition_case_cases:
  "transition_case L P context subject i key command now w =
     (case require_mutator L context of Inl e \<Rightarrow> (Inl e, w) | Inr _ \<Rightarrow>
      (case validate_idempotency_key key of Inl e \<Rightarrow> (Inl e, w) | Inr _ \<Rightarrow>
       (case positive_version (tc_expected_version command) of Inl e \<Rightarrow> (Inl e, w) | Inr _ \<Rightarrow>
        (case canonical_hash L (Transition_input 1 i command) of Inl e \<Rightarrow> (Inl e, w) | Inr h \<Rightarrow>
         commit_mutation context (apme_transition_case P (transition_args_of context subject i key h command now)) w))))"
  by (auto simp: transition_case_def lift_chain split: sum.split)

lemma rotate_encrypted_object_cases:
  "rotate_encrypted_object L P context subject i key command now w =
     (if \<not> can_export_or_delete L (ctx_role context) then (Inl NotAuthorized, w) else
      (case validate_idempotency_key key of Inl e \<Rightarrow> (Inl e, w) | Inr _ \<Rightarrow>
       (case positive_version (rc_expected_version command) of Inl e \<Rightarrow> (Inl e, w) | Inr _ \<Rightarrow>
        (case map_err Validation (validate_object L (rc_encrypted_document command)) of Inl e \<Rightarrow> (Inl e, w) | Inr _ \<Rightarrow>
         (case canonical_hash L (Rotate_input 1 i command) of Inl e \<Rightarrow> (Inl e, w) | Inr h \<Rightarrow>
          commit_mutation context (apme_rotate_case_object P (rotate_args_of context subject i key h command now)) w)))))"
  by (auto simp: rotate_encrypted_object_def lift_chain split: sum.split)

lemmas mutation_cases = create_case_cases transition_case_cases rotate_encrypted_object_cases

subsection \<open>Prepared mutations\<close>

text \<open>
  The three mutations have one shape: checks that need no database prepare a statement or refuse, then
  the statement is committed and its result read back. This contract gives the previous one, and
  what a repetition and a lost answer do follows from it once for all of them.
\<close>

locale prepared_mutation =
  fixes may :: "tenant_role \<Rightarrow> bool"
    and prepare :: "tenant_context \<Rightarrow> 'q \<Rightarrow> case_service_error + ('x database_scheme, mutation_row) stmt"
    and run :: "tenant_context \<Rightarrow> 'q \<Rightarrow>
      ('x database_scheme world, case_service_error, case_mutation_result) action"
  assumes run_prepared: "run context q w =
      (case prepare context q of Inl e \<Rightarrow> (Inl e, w) | Inr statement \<Rightarrow> commit_mutation context statement w)"
    and prepare_refuses: "\<not> may (ctx_role context) \<Longrightarrow> prepare context q = Inl NotAuthorized"

sublocale prepared_mutation \<subseteq> case_mutation may run
proof
  show "run context q w = (Inl NotAuthorized, w)" if "\<not> may (ctx_role context)" for "context" q w
    using that by (simp add: run_prepared prepare_refuses)
  show "pc_tenant_id (mr_case m) = ctx_tenant_id context \<and> er_tenant_id (mr_event m) = ctx_tenant_id context"
    if "run context q w = (Inr m, w')" for "context" q w m w'
    using that by (simp add: run_prepared commit_mutation_owned split: sum.splits)
  show "store w' = store w" if "quiet w" "run context q w = (Inl e, w')" "definite e" for w "context" q e w'
    using that by (auto simp: run_prepared dest: commit_mutation_definite split: sum.splits)
qed

text \<open>A statement repeats another: run after it, it returns the same row as a replay and changes nothing.\<close>

definition repeats :: "('d, mutation_row) stmt \<Rightarrow> ('d, mutation_row) stmt \<Rightarrow> bool" where
  "repeats st st' \<longleftrightarrow>
     (\<forall>d row d'. st d = Inr (row, d') \<longrightarrow> st' d' = Inr (row\<lparr>mu_replayed := True\<rparr>, d'))"

context prepared_mutation
begin

lemma calm_run:
  assumes "agenda w = []" and "run c q w = (Inr m, v)"
  obtains st row where "prepare c q = Inr st" "st (store w) = Inr (row, store v)"
    "mutation_result c row v = (Inr m, v)" "agenda v = []"
proof -
  from assms(2) obtain st where st: "prepare c q = Inr st" and commit: "commit_mutation c st w = (Inr m, v)"
    by (auto simp: run_prepared split: sum.splits)
  from commit obtain row u where call: "st (store w) = Inr (row, u)"
    using assms(1) by (auto elim!: commit_mutation_Inr simp: presented_def)
  with commit assms(1) have reread: "mutation_result c row (w\<lparr>store := u\<rparr>) = (Inr m, v)"
    by (simp add: commit_mutation_calm)
  with mutation_result_calm [of "w\<lparr>store := u\<rparr>" c row] assms(1) have "v = w\<lparr>store := u\<rparr>" by simp
  with that [OF st] call reread assms(1) show thesis by simp
qed

lemma run_again:
  assumes "agenda w = []" and "run c q w = (Inr m, v)"
    and "\<And>st. prepare c q = Inr st \<Longrightarrow> \<exists>st'. prepare c q' = Inr st' \<and> repeats st st'"
  shows "run c q' v = (Inr (m\<lparr>mr_replayed := True\<rparr>), v)"
proof -
  from assms(1,2) obtain st row where st: "prepare c q = Inr st" and call: "st (store w) = Inr (row, store v)"
    and reread: "mutation_result c row v = (Inr m, v)" and calm: "agenda v = []"
    by (rule calm_run)
  from assms(3) [OF st] obtain st' where st': "prepare c q' = Inr st'" and rep: "repeats st st'" by blast
  from rep call have "st' (store v) = Inr (row\<lparr>mu_replayed := True\<rparr>, store v)" by (simp add: repeats_def)
  then show ?thesis
    by (simp add: run_prepared st' commit_mutation_calm calm mutation_result_replayed [OF reread])
qed

lemma run_lost:
  assumes "agenda w = [(id, Some (Lost_after msg))]" and "run c q (w\<lparr>agenda := []\<rparr>) = (Inr m, v)"
  shows "run c q w = (Inl (Storage (Client_error msg)), v)"
proof -
  have "agenda (w\<lparr>agenda := []\<rparr>) = []" by simp
  from this assms(2) obtain st row where st: "prepare c q = Inr st"
    and call: "st (store (w\<lparr>agenda := []\<rparr>)) = Inr (row, store v)" and v: "agenda v = []"
    by (rule calm_run)
  from v have "v = \<lparr>store = store v, agenda = []\<rparr>" by simp
  then show ?thesis
    using call by (simp add: run_prepared st commit_mutation_lost [where row = row and d = "store v"] assms(1))
qed

lemma run_relates:
  assumes "agenda w = []" and "run c q w = (Inr m, v)"
    and "\<And>st d row d'. prepare c q = Inr st \<Longrightarrow> st d = Inr (row, d') \<Longrightarrow> R d d'"
  shows "R (store w) (store v) \<and> agenda v = []"
  by (rule calm_run [OF assms(1,2)]) (blast intro: assms(3))

end

definition prepare_create ::
  "interfaces \<Rightarrow> 'x database_scheme procs \<Rightarrow> tenant_context \<Rightarrow>
     verified_subject \<times> string \<times> create_case_command \<times> instant \<Rightarrow>
     case_service_error + ('x database_scheme, mutation_row) stmt" where
  "prepare_create L P context = (\<lambda>(subject, key, command, now).
     and_then (require_mutator L context) (\<lambda>_.
     and_then (validate_idempotency_key key) (\<lambda>_.
     and_then (map_err Validation (validate_create L command now)) (\<lambda>_.
     and_then (canonical_hash L (Create_input 1 command)) (\<lambda>h.
     Inr (apme_create_case P (create_args_of context subject key h command now)))))))"

definition prepare_transition ::
  "interfaces \<Rightarrow> 'x database_scheme procs \<Rightarrow> tenant_context \<Rightarrow>
     verified_subject \<times> uuid \<times> string \<times> transition_case_command \<times> instant \<Rightarrow>
     case_service_error + ('x database_scheme, mutation_row) stmt" where
  "prepare_transition L P context = (\<lambda>(subject, i, key, command, now).
     and_then (require_mutator L context) (\<lambda>_.
     and_then (validate_idempotency_key key) (\<lambda>_.
     and_then (positive_version (tc_expected_version command)) (\<lambda>_.
     and_then (canonical_hash L (Transition_input 1 i command)) (\<lambda>h.
     Inr (apme_transition_case P (transition_args_of context subject i key h command now)))))))"

definition prepare_rotate ::
  "interfaces \<Rightarrow> 'x database_scheme procs \<Rightarrow> tenant_context \<Rightarrow>
     verified_subject \<times> uuid \<times> string \<times> rotate_encrypted_object_command \<times> instant \<Rightarrow>
     case_service_error + ('x database_scheme, mutation_row) stmt" where
  "prepare_rotate L P context = (\<lambda>(subject, i, key, command, now).
     and_then (ensure (can_export_or_delete L (ctx_role context)) NotAuthorized) (\<lambda>_.
     and_then (validate_idempotency_key key) (\<lambda>_.
     and_then (positive_version (rc_expected_version command)) (\<lambda>_.
     and_then (map_err Validation (validate_object L (rc_encrypted_document command))) (\<lambda>_.
     and_then (canonical_hash L (Rotate_input 1 i command)) (\<lambda>h.
     Inr (apme_rotate_case_object P (rotate_args_of context subject i key h command now))))))))"

lemmas prepare_defs = prepare_create_def prepare_transition_def prepare_rotate_def

interpretation creating: prepared_mutation "can_create_or_transition L" "prepare_create L P"
  "\<lambda>context (subject, key, command, now). create_case L P context subject key command now" for L P
  by unfold_locales
    (auto simp: create_case_cases prepare_create_def require_mutator_def and_then_def split: sum.splits)

interpretation transitioning: prepared_mutation "can_create_or_transition L" "prepare_transition L P"
  "\<lambda>context (subject, i, key, command, now). transition_case L P context subject i key command now" for L P
  by unfold_locales
    (auto simp: transition_case_cases prepare_transition_def require_mutator_def and_then_def split: sum.splits)

interpretation rotating: prepared_mutation "can_export_or_delete L" "prepare_rotate L P"
  "\<lambda>context (subject, i, key, command, now). rotate_encrypted_object L P context subject i key command now" for L P
  by unfold_locales
    (auto simp: rotate_encrypted_object_cases prepare_rotate_def and_then_def ensure_def split: sum.splits)

end
