(* ===== verification/Witness_Store.thy ===== *)
theory Witness_Store
  imports Case_Contracts
begin

text \<open>
  A small executable store with the behaviour the repository documents for the stored functions
  of the migration (README, \<^verbatim>\<open>tests/postgres_cases.rs\<close>): an idempotency ledger per tenant and key,
  optimistic versions, key versions that only increase, one event per mutation. The model does not depend
  on it: the stored functions stay parameters. It is the concrete instance at which hypotheses
  about them are shown to be satisfiable.
\<close>

record ledger_database = database +
  ledger :: "((uuid \<times> string) \<times> bytes \<times> mutation_row) list"

definition next_id :: "ledger_database \<Rightarrow> uuid" where
  "next_id d = of_nat (length (case_events d) + 1)"

definition receipt_row :: "ledger_database \<Rightarrow> uuid \<Rightarrow> int \<Rightarrow> mutation_row" where
  "receipt_row d case_id version =
     \<lparr>mu_case_id = case_id, mu_case_version = version, mu_event_id = next_id d,
      mu_event_hash = ''00'', mu_replayed = False\<rparr>"

definition log_mutation ::
  "uuid \<Rightarrow> string \<Rightarrow> bytes \<Rightarrow> string \<Rightarrow> instant \<Rightarrow> mutation_row \<Rightarrow> ledger_database \<Rightarrow> ledger_database" where
  "log_mutation tenant key hash kind now row d =
     d\<lparr>case_events := case_events d @
          [\<lparr>ev_event_id = mu_event_id row, ev_tenant_id = tenant, ev_case_id = mu_case_id row,
            ev_case_version = mu_case_version row, ev_event_type = kind, ev_occurred_at = now\<rparr>],
        ledger := ((tenant, key), hash, row) # ledger d\<rparr>"

definition with_ledger ::
  "uuid \<Rightarrow> string \<Rightarrow> bytes \<Rightarrow> (ledger_database, mutation_row) stmt \<Rightarrow> (ledger_database, mutation_row) stmt" where
  "with_ledger tenant key hash fresh d =
     (case map_of (ledger d) (tenant, key) of
        Some (h, row) \<Rightarrow>
          if h = hash then Inr (row\<lparr>mu_replayed := True\<rparr>, d)
          else Inl (Database_error ''APME_IDEMPOTENCY_CONFLICT'')
      | None \<Rightarrow> fresh d)"

definition ref_create :: "create_args \<Rightarrow> (ledger_database, mutation_row) stmt" where
  "ref_create a = with_ledger (ca_tenant_id a) (ca_idempotency_key a) (ca_request_hash a) (\<lambda>d.
     let row = receipt_row d (next_id d) 1 in
     Inr (row, log_mutation (ca_tenant_id a) (ca_idempotency_key a) (ca_request_hash a) ''case.created'' (ca_now a) row
       (d\<lparr>case_table := case_table d @
          [\<lparr>cr_id = next_id d, cr_tenant_id = ca_tenant_id a, cr_version = 1,
            cr_title = ca_title a, cr_summary = ca_summary a,
            cr_client_reference = ca_client_reference a,
            cr_destination_country = ca_destination_country a,
            cr_document_type = ca_document_type a,
            cr_next_action_due_at = ca_next_action_due_at a, cr_status = ''intake'',
            cr_retention_class = ca_retention_class a, cr_retain_until = ca_retain_until a,
            cr_legal_hold = False, cr_tombstoned_at = None,
            cr_encrypted_object_reference = ca_object_reference a,
            cr_ciphertext_sha256 = ca_ciphertext_sha256 a,
            cr_object_key_version = ca_key_version a,
            cr_created_at = ca_now a, cr_updated_at = ca_now a\<rparr>]\<rparr>)))"

definition update_case ::
  "uuid \<Rightarrow> uuid \<Rightarrow> (case_row \<Rightarrow> case_row) \<Rightarrow> ledger_database \<Rightarrow> ledger_database" where
  "update_case tenant i f d =
     d\<lparr>case_table := map (\<lambda>r. if cr_tenant_id r = tenant \<and> cr_id r = i then f r else r) (case_table d)\<rparr>"

definition versioned ::
  "uuid \<Rightarrow> uuid \<Rightarrow> int \<Rightarrow> (case_row \<Rightarrow> (ledger_database, mutation_row) stmt) \<Rightarrow>
     (ledger_database, mutation_row) stmt" where
  "versioned tenant i expected body d =
     (case fetch_optional (case_select_one tenant i d) of
        None \<Rightarrow> Inl (Database_error ''APME_CASE_NOT_FOUND'')
      | Some r \<Rightarrow>
          if cr_version r \<noteq> expected then Inl (Database_error ''APME_STALE_VERSION'') else body r d)"

definition ref_transition :: "transition_args \<Rightarrow> (ledger_database, mutation_row) stmt" where
  "ref_transition a = with_ledger (ta_tenant_id a) (ta_idempotency_key a) (ta_request_hash a)
     (versioned (ta_tenant_id a) (ta_case_id a) (ta_expected_version a) (\<lambda>r d.
        let v = cr_version r + 1; row = receipt_row d (ta_case_id a) v in
        Inr (row, log_mutation (ta_tenant_id a) (ta_idempotency_key a) (ta_request_hash a) ''case.transitioned''
          (ta_now a) row
          (update_case (ta_tenant_id a) (ta_case_id a)
            (\<lambda>r. r\<lparr>cr_version := v, cr_status := ta_to_status a, cr_updated_at := ta_now a\<rparr>) d))))"

definition ref_rotate :: "rotate_args \<Rightarrow> (ledger_database, mutation_row) stmt" where
  "ref_rotate a = with_ledger (ra_tenant_id a) (ra_idempotency_key a) (ra_request_hash a)
     (versioned (ra_tenant_id a) (ra_case_id a) (ra_expected_version a) (\<lambda>r d.
        case cr_object_key_version r of
          None \<Rightarrow> Inl (Database_error ''APME_CASE_OBJECT_NOT_FOUND'')
        | Some k \<Rightarrow>
            if ra_key_version a \<le> k then Inl (Database_error ''APME_KEY_VERSION_ROLLBACK'')
            else
              (let v = cr_version r + 1; row = receipt_row d (ra_case_id a) v in
               Inr (row, log_mutation (ra_tenant_id a) (ra_idempotency_key a) (ra_request_hash a)
                 ''case.document_key_rotated'' (ra_now a) row
                 (update_case (ra_tenant_id a) (ra_case_id a)
                   (\<lambda>r. r\<lparr>cr_version := v, cr_encrypted_object_reference := Some (ra_object_reference a),
                         cr_ciphertext_sha256 := Some (ra_ciphertext_sha256 a),
                         cr_object_key_version := Some (ra_key_version a), cr_updated_at := ra_now a\<rparr>) d)))))"

definition ref_procs :: "ledger_database procs" where
  "ref_procs =
     \<lparr>apme_create_case = ref_create, apme_transition_case = ref_transition,
      apme_rotate_case_object = ref_rotate,
      apme_append_audit = (\<lambda>_ d. Inr ((), d)),
      apme_apply_retention = (\<lambda>_ _ d. Inr (0, d)),
      apme_verify_case_audit = (\<lambda>_ d. Inr (True, d)),
      apme_verify_tenant_audit = (\<lambda>_ d. Inr (True, d)),
      persistence_migration = (\<lambda>d. Inr ((), d))\<rparr>"

definition ref_interfaces :: interfaces where
  "ref_interfaces =
     \<lparr>can_create_or_transition = (\<lambda>r. r \<noteq> Viewer), can_export_or_delete = (\<lambda>r. r = Administrator),
      validate_create = (\<lambda>_ _. Inr ()), validate_object = (\<lambda>_. Inr ()),
      json_to_vec = (\<lambda>_. Inr ''{}''), sha256_digest = (\<lambda>b. b)\<rparr>"

section \<open>Sample data\<close>

definition sample_db :: ledger_database where
  "sample_db =
     \<lparr>tenants = [\<lparr>tn_id = 1, tn_organization_id = 10\<rparr>, \<lparr>tn_id = 2, tn_organization_id = 20\<rparr>],
      memberships =
        [\<lparr>mb_tenant_id = 1, mb_shared_user_id = ''alice'', mb_role = ''agent'', mb_active = True\<rparr>,
         \<lparr>mb_tenant_id = 2, mb_shared_user_id = ''bob'', mb_role = ''administrator'', mb_active = True\<rparr>],
      case_table = [], case_events = [], ledger = []\<rparr>"

definition sample_world :: "ledger_database world" where
  "sample_world = \<lparr>store = sample_db, agenda = []\<rparr>"

definition alice :: verified_subject where
  "alice = \<lparr>vs_shared_user_id = ''alice'', vs_session_id = ''session-a''\<rparr>"

definition alice_context :: tenant_context where
  "alice_context = \<lparr>ctx_tenant_id = 1, ctx_organization_id = 10, ctx_role = Agent\<rparr>"

definition sample_command :: create_case_command where
  "sample_command =
     \<lparr>cc_title = ''Apostille'', cc_summary = ''metadata'', cc_client_reference = ''CLIENT-42'',
      cc_destination_country = ''Peru'', cc_document_type = ''birth_certificate'',
      cc_next_action_due_at = None, cc_retention_class = Standard, cc_retain_until = 2030,
      cc_encrypted_document =
        Some \<lparr>object_reference = ''objects/42'', ciphertext_sha256 = ''aa'', key_version = 7\<rparr>\<rparr>"

definition sample_case :: persisted_case where
  "sample_case =
     \<lparr>pc_id = 1, pc_tenant_id = 1, pc_version = 1, pc_title = ''Apostille'', pc_summary = ''metadata'',
      pc_client_reference = ''CLIENT-42'', pc_destination_country = ''Peru'',
      pc_document_type = ''birth_certificate'', pc_next_action_due_at = None, pc_status = Intake,
      pc_retention_class = Standard, pc_retain_until = 2030, pc_legal_hold = False,
      pc_tombstoned_at = None,
      pc_encrypted_document =
        Some \<lparr>object_reference = ''objects/42'', ciphertext_sha256 = ''aa'', key_version = 7\<rparr>,
      pc_created_at = 5, pc_updated_at = 5\<rparr>"

definition case_world :: "ledger_database world" where
  "case_world = \<lparr>store = sample_db\<lparr>case_table := [row_of_case sample_case]\<rparr>, agenda = []\<rparr>"

definition transition_command :: transition_case_command where
  "transition_command = \<lparr>tc_expected_version = 1, tc_to_status = CollectingDocuments\<rparr>"

lemmas sample_defs = sample_db_def sample_world_def alice_def alice_context_def sample_command_def
  sample_case_def case_world_def row_of_case_def transition_command_def

lemmas ref_defs = ref_procs_def ref_interfaces_def ref_create_def ref_transition_def ref_rotate_def
  with_ledger_def log_mutation_def receipt_row_def next_id_def versioned_def update_case_def

text \<open>The equations that run the service on closed inputs.\<close>

lemmas string_eval = any_char_def is_control_def is_whitespace_def lead_width_def code_point_def byte_def
  trim_def trim_chars_def

lemmas service_eval = mutation_cases require_mutator_def positive_version_def
  validate_idempotency_key_def canonical_hash_def commit_mutation_def bind_try_def act_map_err_def
  db_call_def run_stmt_def create_args_of_def transition_args_of_def rotate_args_of_def
  mutation_result_def get_case_def list_cases_def tenant_context_def record_access_def query_def
  membership_rows_def case_select_one_def case_select_list_def case_from_row_def parse_status_def
  parse_retention_def parse_role_def fetch_one_def event_select_def Let_def string_eval

end
