(* ===== verification/Case_Properties.thy ===== *)
theory Case_Properties
  imports Witness_Store
begin

text \<open>
  The properties of the case service, over the definitions of \<open>Cases\<close>, each with a run of the
  reference store that meets its hypotheses.
\<close>

section \<open>Reading\<close>

lemma row_of_case_inj: "row_of_case c = row_of_case c' \<longleftrightarrow> c = c'"
  by (metis case_from_row_of_case Inr_inject)

lemma sorted_listing:
  "map row_of_case cs = case_select_list t d \<Longrightarrow>
     sorted_wrt (\<lambda>a b. pc_created_at b < pc_created_at a \<or>
       pc_created_at b = pc_created_at a \<and> pc_id a \<le> pc_id b) cs"
proof -
  assume "map row_of_case cs = case_select_list t d"
  with case_select_list_sorted [of t d] have "sorted (map (case_list_key \<circ> row_of_case) cs)"
    by (metis map_map)
  then show ?thesis
    by (simp add: sorted_map case_list_key_def less_eq_list_key_def)
qed

lemma try_map_ok_iff: "is_ok (try_map f xs) \<longleftrightarrow> (\<forall>x \<in> set xs. is_ok (f x))"
  by (induction xs) (auto simp: is_ok_def split: sum.splits)

lemma fetch_unique:
  assumes "distinct (map cr_id (case_table d))" and "r \<in> set (case_table d)"
    and "cr_tenant_id r = t" and "cr_id r = i" and "cr_tombstoned_at r = None"
  shows "fetch_optional (case_select_one t i d) = Some r"
proof -
  have "r \<in> set (case_select_one t i d)" using assms by (simp add: case_select_one_set)
  then obtain q where q: "fetch_optional (case_select_one t i d) = Some q"
    by (cases "case_select_one t i d") auto
  then have "q \<in> set (case_table d)" "cr_id q = cr_id r"
    using assms fetch_optional_mem [OF q] by (simp_all add: case_select_one_set)
  with assms have "q = r" by (metis distinct_map inj_onD)
  with q show ?thesis by simp
qed

text \<open>
  C10. A successful listing returns exactly the undeleted cases of the context's tenant, newest
  first (ties by id), each stored row once, whatever other connections do, and writes nothing.
\<close>

theorem list_cases_exact:
  assumes "list_cases context w = (Inr cs, w')"
  shows "set cs = {c. row_of_case c \<in> set (case_table (presented w)) \<and>
                      pc_tenant_id c = ctx_tenant_id context \<and> pc_tombstoned_at c = None}
    \<and> sorted_wrt (\<lambda>a b. pc_created_at b < pc_created_at a \<or>
        pc_created_at b = pc_created_at a \<and> pc_id a \<le> pc_id b) cs
    \<and> length cs = length (filter (\<lambda>r. cr_tenant_id r = ctx_tenant_id context \<and> cr_tombstoned_at r = None)
        (case_table (presented w)))
    \<and> store w' = presented w"
proof (intro conjI)
  note rows = case_reader.listing_stored [OF assms]
  show "set cs = {c. row_of_case c \<in> set (case_table (presented w)) \<and>
                      pc_tenant_id c = ctx_tenant_id context \<and> pc_tombstoned_at c = None}"
    using case_reader.listing_scoped [OF assms] case_reader.listing_complete [OF assms]
      arg_cong [OF rows, of set] by (auto simp: case_select_list_set)
  show "sorted_wrt (\<lambda>a b. pc_created_at b < pc_created_at a \<or>
        pc_created_at b = pc_created_at a \<and> pc_id a \<le> pc_id b) cs"
    by (rule sorted_listing [OF rows])
  show "length cs = length (filter (\<lambda>r. cr_tenant_id r = ctx_tenant_id context \<and> cr_tombstoned_at r = None)
        (case_table (presented w)))"
    using arg_cong [OF rows, of length] by (simp add: case_select_list_def)
  show "store w' = presented w" by (rule case_reader.listing_reads [OF assms])
qed

lemma sample_listing: "list_cases alice_context case_world = (Inr [sample_case], case_world)"
  by (simp add: service_eval sample_defs)

theorem list_cases_exact_witness:
  "list_cases alice_context case_world = (Inr [sample_case], case_world) \<and>
   store case_world = presented case_world"
  using list_cases_exact [OF sample_listing] sample_listing by simp

text \<open>
  With the database reachable, a listing succeeds exactly when every undeleted row of the
  tenant is well formed: one malformed row turns the whole listing into an error.
\<close>

lemma list_cases_ok_iff:
  assumes "agenda w = []"
  shows "is_ok (fst (list_cases context w)) \<longleftrightarrow>
    (\<forall>r \<in> set (case_table (store w)).
       cr_tenant_id r = ctx_tenant_id context \<and> cr_tombstoned_at r = None \<longrightarrow> (\<exists>c. r = row_of_case c))"
proof -
  let ?rows = "case_select_list (ctx_tenant_id context) (store w)"
  have "fst (list_cases context w) = try_map case_from_row ?rows"
    using assms by (simp add: list_cases_def bind_try_def act_map_err_def db_call_def run_stmt_def query_def)
  moreover have "is_ok (try_map case_from_row ?rows) \<longleftrightarrow> (\<forall>r \<in> set ?rows. is_ok (case_from_row r))"
    by (rule try_map_ok_iff)
  ultimately show ?thesis
    by (auto simp: case_select_list_set is_ok_iff case_from_row_iff)
qed

text \<open>
  Single reads agree with listings: with unique case ids, \<^verbatim>\<open>get_case\<close> finds a case exactly
  when the listing of the same database contains it under that id.
\<close>

lemma get_case_iff_listed:
  assumes "agenda w = []" and "distinct (map cr_id (case_table (store w)))"
    and "list_cases context w = (Inr cs, w)"
  shows "get_case context i w = (Inr c, w) \<longleftrightarrow> c \<in> set cs \<and> pc_id c = i"
proof
  assume got: "get_case context i w = (Inr c, w)"
  from case_reader.get_is_listed [OF this assms(3) refl] case_reader.get_stored [OF got]
  show "c \<in> set cs \<and> pc_id c = i" by simp
next
  assume c: "c \<in> set cs \<and> pc_id c = i"
  have pres: "presented w = store w" using assms(1) by (simp add: presented_def)
  from c have "row_of_case c \<in> set (case_select_list (ctx_tenant_id context) (store w))"
    unfolding pres [symmetric] case_reader.listing_stored [OF assms(3), symmetric] by simp
  then have stored: "row_of_case c \<in> set (case_table (store w))"
    "pc_tenant_id c = ctx_tenant_id context" "pc_tombstoned_at c = None"
    by (simp_all add: case_select_list_set)
  have "fetch_optional (case_select_one (ctx_tenant_id context) i (store w)) = Some (row_of_case c)"
    by (rule fetch_unique [OF assms(2) stored(1)]) (use c stored in simp_all)
  then show "get_case context i w = (Inr c, w)"
    using assms(1) by (simp add: get_case_def bind_try_def act_map_err_def db_call_def run_stmt_def
        query_def case_from_row_of_case)
qed

text \<open>
  C37. Rows and cases correspond one to one: decoding a row yields a case exactly when the row is
  the one that stores that case. In particular status and retention names round-trip and a row with
  a partial object reference decodes to nothing.
\<close>

theorem case_from_row_roundtrip: "case_from_row r = Inr c \<longleftrightarrow> r = row_of_case c"
  by (rule case_from_row_iff)

section \<open>Mutations\<close>

lemma sample_create:
  "create_case ref_interfaces ref_procs alice_context alice ''k1'' sample_command 5 sample_world =
     (Inr \<lparr>mr_case = sample_case,
           mr_event = \<lparr>er_event_id = 1, er_tenant_id = 1, er_case_id = 1, er_case_version = 1,
             er_event_type = ''case.created'', er_occurred_at = 5, er_event_hash = ''00''\<rparr>,
           mr_replayed = False\<rparr>,
      sample_world\<lparr>store := sample_db\<lparr>case_table := [row_of_case sample_case],
        case_events := [\<lparr>ev_event_id = 1, ev_tenant_id = 1, ev_case_id = 1, ev_case_version = 1,
          ev_event_type = ''case.created'', ev_occurred_at = 5\<rparr>],
        ledger := [((1, ''k1''), ''{}'', \<lparr>mu_case_id = 1, mu_case_version = 1, mu_event_id = 1,
          mu_event_hash = ''00'', mu_replayed = False\<rparr>)]\<rparr>\<rparr>)"
  by (simp add: service_eval sample_defs ref_defs)

text \<open>
  Tenant ownership of results: whatever the stored functions do and whatever runs
  concurrently, the case and the event receipt that a successful mutation returns both belong to
  the tenant of the caller's context, and the caller's role permits the mutation.
\<close>

lemma mutation_owned:
  assumes "create_case L P context subject key command now w = (Inr m, w') \<and> g = can_create_or_transition L
      \<or> transition_case L P context subject i key tcommand now w = (Inr m, w') \<and> g = can_create_or_transition L
      \<or> rotate_encrypted_object L P context subject i key rcommand now w = (Inr m, w') \<and> g = can_export_or_delete L"
  shows "pc_tenant_id (mr_case m) = ctx_tenant_id context \<and>
    er_tenant_id (mr_event m) = ctx_tenant_id context \<and> g (ctx_role context)"
  using assms creating.owned [of L P "context" "(subject, key, command, now)" w m w']
    creating.allowed [of L P "context" "(subject, key, command, now)" w m w']
    transitioning.owned [of L P "context" "(subject, i, key, tcommand, now)" w m w']
    transitioning.allowed [of L P "context" "(subject, i, key, tcommand, now)" w m w']
    rotating.owned [of L P "context" "(subject, i, key, rcommand, now)" w m w']
    rotating.allowed [of L P "context" "(subject, i, key, rcommand, now)" w m w']
  by auto

text \<open>
  C17. A definite refusal writes nothing: when a mutation answers \<^verbatim>\<open>NotAuthorized\<close>,
  \<^verbatim>\<open>IdempotencyConflict\<close>, \<^verbatim>\<open>StaleVersion\<close>, \<^verbatim>\<open>InvalidTransition\<close> or \<^verbatim>\<open>KeyVersionRollback\<close>, this request
  left the database as it was, even if the connection fails at any point.
\<close>

theorem definite_refusal_writes_nothing:
  assumes "quiet w" and "definite e"
    and "create_case L P context subject key command now w = (Inl e, w')
      \<or> transition_case L P context subject i key tcommand now w = (Inl e, w')
      \<or> rotate_encrypted_object L P context subject i key rcommand now w = (Inl e, w')"
  shows "store w' = store w"
  using assms creating.definite_refusal [of w L P "context" "(subject, key, command, now)" e w']
    transitioning.definite_refusal [of w L P "context" "(subject, i, key, tcommand, now)" e w']
    rotating.definite_refusal [of w L P "context" "(subject, i, key, rcommand, now)" e w']
  by auto

lemma sample_stale:
  "transition_case ref_interfaces ref_procs alice_context alice 1 ''k2''
     (transition_command\<lparr>tc_expected_version := 9\<rparr>) 6 case_world = (Inl StaleVersion, case_world)"
  by (simp add: service_eval sample_defs ref_defs map_sql_error_def database_message_def)

theorem definite_refusal_writes_nothing_witness:
  "quiet case_world \<and> definite StaleVersion \<and>
   store (snd (transition_case ref_interfaces ref_procs alice_context alice 1 ''k2''
     (transition_command\<lparr>tc_expected_version := 9\<rparr>) 6 case_world)) = store case_world"
proof -
  have q: "quiet case_world" and d: "definite StaleVersion"
    by (simp_all add: quiet_def case_world_def definite_def)
  from definite_refusal_writes_nothing [OF q d disjI2 [OF disjI1 [OF sample_stale]]] q d
  show ?thesis by (simp add: sample_stale)
qed

text \<open>
  Authorization comes first: without the permission the role needs, each of the three
  mutations answers \<^verbatim>\<open>NotAuthorized\<close> and sends no statement at all (the world, its schedule of
  calls included, is untouched), whatever the key and the command are.
\<close>

lemma unauthorized_mutations_touch_nothing:
  shows "(\<not> can_create_or_transition L (ctx_role context) \<longrightarrow>
      create_case L P context subject key command now w = (Inl NotAuthorized, w) \<and>
      transition_case L P context subject i key tcommand now w = (Inl NotAuthorized, w))
    \<and> (\<not> can_export_or_delete L (ctx_role context) \<longrightarrow>
      rotate_encrypted_object L P context subject i key rcommand now w = (Inl NotAuthorized, w))"
  using creating.refused [of L "context" P "(subject, key, command, now)" w]
    transitioning.refused [of L "context" P "(subject, i, key, tcommand, now)" w]
    rotating.refused [of L "context" P "(subject, i, key, rcommand, now)" w]
  by auto

text \<open>
  What a create sends: a successful create ran the stored function once, on the database its
  call met, with the caller's tenant and user id, the request's key and the SHA-256 of the serialized
  \<^verbatim>\<open>(1, command)\<close>, every field of the command at its own parameter, the object reference as three columns, and
  the answer names the case and event that function returned.
\<close>

lemma create_case_sends:
  assumes "create_case L P context subject key command now w = (Inr m, w')"
  shows "\<exists>payload row d args. json_to_vec L (Create_input 1 command) = Inr payload
    \<and> apme_create_case P args (presented w) = Inr (row, d)
    \<and> ca_tenant_id args = ctx_tenant_id context \<and> ca_actor args = vs_shared_user_id subject
    \<and> ca_idempotency_key args = key \<and> ca_request_hash args = sha256_digest L payload
    \<and> ca_title args = cc_title command \<and> ca_summary args = cc_summary command
    \<and> ca_client_reference args = cc_client_reference command
    \<and> ca_destination_country args = cc_destination_country command
    \<and> ca_document_type args = cc_document_type command
    \<and> parse_retention (ca_retention_class args) = Inr (cc_retention_class command)
    \<and> ca_retain_until args = cc_retain_until command \<and> ca_now args = now
    \<and> ca_next_action_due_at args = cc_next_action_due_at command
    \<and> ca_object_reference args = map_option object_reference (cc_encrypted_document command)
    \<and> ca_ciphertext_sha256 args = map_option ciphertext_sha256 (cc_encrypted_document command)
    \<and> ca_key_version args = map_option key_version (cc_encrypted_document command)
    \<and> pc_id (mr_case m) = mu_case_id row \<and> er_event_id (mr_event m) = mu_event_id row
    \<and> mr_replayed m = mu_replayed row"
proof -
  from assms obtain h where hash: "canonical_hash L (Create_input 1 command) = Inr h"
    and commit: "commit_mutation context (apme_create_case P (create_args_of context subject key h command now)) w = (Inr m, w')"
    by (auto simp: create_case_cases split: sum.splits)
  from hash obtain payload where payload: "json_to_vec L (Create_input 1 command) = Inr payload"
    and h: "h = sha256_digest L payload"
    by (auto simp: canonical_hash_def result_simps)
  from commit obtain row v
    where call: "apme_create_case P (create_args_of context subject key h command now) (presented w) = Inr (row, store v)"
      and "mutation_result context row v = (Inr m, w')"
    by (rule commit_mutation_Inr)
  note read_back = mutation_result_Inr [OF this(2)]
  show ?thesis
    by (rule exI [of _ payload], rule exI [of _ row], rule exI [of _ "store v"],
        rule exI [of _ "create_args_of context subject key h command now"],
        intro conjI, rule payload, rule call)
      (simp_all add: read_back h create_args_of_def retention_codec.parse_name)
qed

section \<open>Errors and keys\<close>

text \<open>The codes the stored functions raise, and the error each stands for.\<close>

definition sql_codes :: "(string \<times> case_service_error) list" where
  "sql_codes =
     [(''APME_NOT_AUTHORIZED'', NotAuthorized), (''APME_CASE_NOT_FOUND'', NotFound),
      (''APME_IDEMPOTENCY_CONFLICT'', IdempotencyConflict), (''APME_STALE_VERSION'', StaleVersion),
      (''APME_INVALID_TRANSITION'', InvalidTransition),
      (''APME_KEY_VERSION_ROLLBACK'', KeyVersionRollback),
      (''APME_CASE_OBJECT_NOT_FOUND'', NotFound)]"

lemma str_contains_middle: "str_contains k (pre @ k @ post)"
  by (auto simp: str_contains_iff sublist_def)

text \<open>
  Database errors are classified by their code alone: a message that carries one of the
  seven codes, with any text around it and no other code, becomes the error of that code; an error is
  passed on as a storage error exactly when no code occurs in its database message (so every
  client-side failure is).
\<close>

lemma map_sql_error_by_code:
  "((k, x) \<in> set sql_codes \<and> (\<forall>(k', x') \<in> set sql_codes. str_contains k' (pre @ k @ post) \<longrightarrow> k' = k) \<longrightarrow>
      map_sql_error (Database_error (pre @ k @ post)) = x)
   \<and> ((\<exists>s. map_sql_error e = Storage s) \<longleftrightarrow>
       (\<forall>(k', x') \<in> set sql_codes. \<not> str_contains k' (database_message e)))"
proof (rule conjI, rule impI, elim conjE)
  assume k: "(k, x) \<in> set sql_codes"
    and only: "\<forall>(k', x') \<in> set sql_codes. str_contains k' (pre @ k @ post) \<longrightarrow> k' = k"
  have here: "str_contains k (pre @ k @ post)" by (rule str_contains_middle)
  have code: "str_contains k' (pre @ k @ post) \<longleftrightarrow> k' = k" if "(k', x') \<in> set sql_codes" for k' x'
    using only here that by blast
  have all: "str_contains k' (pre @ k @ post) \<longleftrightarrow> k' = k" if "k' \<in> fst ` set sql_codes" for k'
    using code that by force
  show "map_sql_error (Database_error (pre @ k @ post)) = x"
    using k unfolding map_sql_error_def database_message_def Let_def
    by (simp add: all sql_codes_def) auto
next
  show "(\<exists>s. map_sql_error e = Storage s) \<longleftrightarrow>
       (\<forall>(k', x') \<in> set sql_codes. \<not> str_contains k' (database_message e))"
    by (simp add: map_sql_error_def sql_codes_def Let_def)
qed

text \<open>
  On ASCII keys the validation is what its message says: a key is accepted exactly when it has 1
  through 200 characters, each of them printable (space to tilde).
\<close>

lemma idempotency_key_ascii:
  assumes "\<forall>c \<in> set key. byte c < 128"
  shows "is_ok (validate_idempotency_key key) \<longleftrightarrow>
    1 \<le> length (utf8_chars key) \<and> length (utf8_chars key) \<le> 200 \<and>
    (\<forall>c \<in> set key. 32 \<le> byte c \<and> byte c \<le> 126)"
proof -
  have "any_char is_control key \<longleftrightarrow> (\<exists>c \<in> set key. \<not> (32 \<le> byte c \<and> byte c \<le> 126))"
    using assms by (auto simp: any_char_ascii is_control_def) force+
  then show ?thesis
    using assms by (auto simp: validate_idempotency_key_def utf8_chars_ascii Suc_le_eq)
qed

text \<open>
  Beyond ASCII the limit counts bytes, not characters: a key of 101 visible two-byte
  characters is refused with the message that asks for 1 through 200 characters.
\<close>

lemma idempotency_key_limit_counts_bytes:
  "\<exists>key. length (utf8_chars key) = 101 \<and> \<not> any_char is_control key \<and>
     validate_idempotency_key key =
       Inl (Validation ''Idempotency-Key must contain 1 through 200 visible characters'')"
proof -
  let ?e = "[char_of (195 :: nat), char_of (169 :: nat)]"
  let ?key = "concat (replicate 101 ?e)"
  have chars: "utf8_chars (concat (replicate n ?e)) = replicate n (233, ?e)" for n
    by (induction n) (simp_all add: lead_width_def code_point_def byte_def)
  have "length ?key = 202" by (simp add: length_concat sum_list_replicate)
  moreover have "\<not> any_char is_control ?key"
    by (simp add: any_char_def chars list_ex_iff is_control_def)
  ultimately show ?thesis
    by (intro exI [of _ ?key]) (simp add: chars validate_idempotency_key_def)
qed

end
