(* ===== verification/Auth.thy ===== *)
theory Auth
  imports Rust_Str Domain
begin

text \<open>
  \<^verbatim>\<open>src/auth.rs\<close>: authentication. The Shared Auth guard, the introspection client, scope
  lookup and the sandbox test live in other crates and are fields of the parameter record
  \<open>authority\<close>; so are the two conversions of \<^verbatim>\<open>http::HeaderValue\<close>. A request is judged by the
  authority as it answers at that moment, so a session revoked between two requests is a
  different \<open>authority\<close> for the second one.
\<close>

section \<open>Headers\<close>

type_synonym header_map = "string \<Rightarrow> bytes option"

record http_values =
  header_to_str :: "bytes \<Rightarrow> string option"
  header_from_str :: "string \<Rightarrow> bytes option"

section \<open>Identities\<close>

datatype authority_name = SharedAuth | Other_authority string

record identity =
  id_shared_user_id :: string
  id_provider :: string
  id_provider_tenant :: string
  id_provider_subject :: string
  id_project :: "string option"
  id_supabase_user_id :: "string option"
  id_session_id :: "string option"
  id_email :: "string option"
  id_email_verified :: bool
  id_roles :: "string list"
  id_amr :: "string list"
  id_acr :: "string option"
  id_cred :: "string option"
  id_authority :: authority_name

datatype auth_outcome =
    Authenticated identity authority_name
  | Anonymous
  | Unauthenticated
  | Degraded_outcome

record introspection =
  in_active :: bool
  in_sub :: "string option"
  in_iss :: "string option"
  in_aud :: "string option"
  in_sid :: "string option"
  in_exp :: "nat option"
  in_nbf :: "nat option"
  in_scope :: "string option"

record authority =
  guard_check :: "header_map \<Rightarrow> auth_outcome"
  introspect :: "string \<Rightarrow> string \<Rightarrow> string list \<Rightarrow> string + introspection"
  has_scope :: "introspection \<Rightarrow> string \<Rightarrow> bool"
  is_sandboxed :: "identity \<Rightarrow> bool"

section \<open>The service\<close>

definition MAX_INTROSPECTION_RESPONSE_BYTES :: nat where
  "MAX_INTROSPECTION_RESPONSE_BYTES = 64 * 1024"

definition CASES_READ_SCOPE :: string where
  "CASES_READ_SCOPE = ''apme:cases:read''"

definition CASES_WRITE_SCOPE :: string where
  "CASES_WRITE_SCOPE = ''apme:cases:write''"

datatype auth_failure = Unauthorized | Forbidden | Degraded

datatype auth_config_error = Missing string | InvalidClient

record auth_service =
  au_base :: string
  au_issuer :: string
  au_audience :: string
  au_login_url :: string
  au_guard_timeout_secs :: nat
  au_max_response_bytes :: nat
  au_service_credential :: string

definition required_env :: "env_vars \<Rightarrow> string \<Rightarrow> auth_config_error + string" where
  "required_env env name =
     ok_or (Missing name) (filter_opt (\<lambda>v. v \<noteq> []) (map_option trim (env name)))"

text \<open>\<open>client_ok\<close> stands for \<^verbatim>\<open>SharedAuthClient::try_new\<close>.\<close>

definition auth_from_env :: "(string \<Rightarrow> bool) \<Rightarrow> env_vars \<Rightarrow> auth_config_error + auth_service" where
  "auth_from_env client_ok env =
     and_then (required_env env ''SHARED_AUTH_BASE_URL'') (\<lambda>base.
     and_then (required_env env ''SHARED_AUTH_ISSUER'') (\<lambda>issuer.
     and_then (required_env env ''SHARED_AUTH_AUDIENCE'') (\<lambda>audience.
     and_then (required_env env ''SHARED_AUTH_INTROSPECTION_CREDENTIAL'') (\<lambda>credential.
     and_then (ensure (client_ok base) InvalidClient) (\<lambda>_.
     Inr \<lparr>au_base = base, au_issuer = issuer, au_audience = audience,
          au_login_url =
            (case env ''SHARED_AUTH_LOGIN_URL'' of None \<Rightarrow> ''/auth/sign-in'' | Some u \<Rightarrow> u),
          au_guard_timeout_secs = 2,
          au_max_response_bytes = MAX_INTROSPECTION_RESPONSE_BYTES,
          au_service_credential = credential\<rparr>)))))"

definition bearer :: "http_values \<Rightarrow> header_map \<Rightarrow> string option" where
  "bearer H headers =
     (case headers ''authorization'' of
        None \<Rightarrow> None
      | Some value \<Rightarrow>
          (case header_to_str H value of
             None \<Rightarrow> None
           | Some s \<Rightarrow>
               filter_opt (\<lambda>token. token \<noteq> []) (map_option trim (strip_prefix ''Bearer '' s))))"

text \<open>The system clock in nanoseconds since the epoch; a clock before the epoch reads as 0.\<close>

definition unix_now :: "int \<Rightarrow> nat" where
  "unix_now clock = nat (clock div 1000000000)"

definition validate_active_session ::
  "authority \<Rightarrow> identity \<Rightarrow> introspection \<Rightarrow> string \<Rightarrow> string \<Rightarrow> string list \<Rightarrow> nat \<Rightarrow>
     auth_failure + verified_subject" where
  "validate_active_session A identity i issuer audience required_scopes now =
     and_then (ok_or Unauthorized (filter_opt (\<lambda>v. v \<noteq> []) (id_session_id identity))) (\<lambda>session.
       if \<not> in_active i
          \<or> in_sub i \<noteq> Some (id_shared_user_id identity)
          \<or> in_iss i \<noteq> Some issuer
          \<or> in_aud i \<noteq> Some audience
          \<or> in_sid i \<noteq> Some session
          \<or> (case in_exp i of None \<Rightarrow> True | Some expires \<Rightarrow> expires \<le> now)
          \<or> (case in_nbf i of None \<Rightarrow> False | Some not_before \<Rightarrow> not_before > now)
          \<or> list_ex (\<lambda>required. \<not> has_scope A i required) required_scopes
       then Inl Unauthorized
       else Inr \<lparr>vs_shared_user_id = id_shared_user_id identity, vs_session_id = session\<rparr>)"

definition guard_identity :: "authority \<Rightarrow> auth_outcome \<Rightarrow> auth_failure + identity" where
  "guard_identity A outcome =
     (case outcome of
        Authenticated identity name \<Rightarrow>
          if name = SharedAuth \<and> \<not> is_sandboxed A identity then Inr identity else Inl Forbidden
      | Anonymous \<Rightarrow> Inl Unauthorized
      | Unauthenticated \<Rightarrow> Inl Unauthorized
      | Degraded_outcome \<Rightarrow> Inl Degraded)"

definition authenticate_with_scopes ::
  "auth_service \<Rightarrow> authority \<Rightarrow> http_values \<Rightarrow> int \<Rightarrow> header_map \<Rightarrow> string list \<Rightarrow>
     auth_failure + verified_subject" where
  "authenticate_with_scopes S A H clock headers required_scopes =
     and_then (ok_or Unauthorized (bearer H headers)) (\<lambda>token.
     and_then (guard_identity A (guard_check A headers)) (\<lambda>identity.
     and_then (map_err (\<lambda>_. Degraded) (introspect A token (au_audience S) required_scopes)) (\<lambda>i.
     validate_active_session A identity i (au_issuer S) (au_audience S) required_scopes (unix_now clock))))"

definition authenticate ::
  "auth_service \<Rightarrow> authority \<Rightarrow> http_values \<Rightarrow> int \<Rightarrow> header_map \<Rightarrow> auth_failure + verified_subject" where
  "authenticate S A H clock headers = authenticate_with_scopes S A H clock headers [CASES_READ_SCOPE]"

section \<open>The contract\<close>

text \<open>
  When an authority grants a request: the bearer token is present, the guard vouches for a
  Shared Auth identity that is not sandboxed, and introspecting exactly that token shows an
  active session of the same user and session id, for this issuer and audience, inside its
  lifetime, with every required scope.
\<close>

definition session_live :: "authority \<Rightarrow> introspection \<Rightarrow> string list \<Rightarrow> nat \<Rightarrow> bool" where
  "session_live A i scopes now \<longleftrightarrow>
     in_active i \<and> (\<exists>expires. in_exp i = Some expires \<and> now < expires) \<and>
     (\<forall>not_before. in_nbf i = Some not_before \<longrightarrow> not_before \<le> now) \<and>
     (\<forall>scope \<in> set scopes. has_scope A i scope)"

definition grants ::
  "auth_service \<Rightarrow> authority \<Rightarrow> http_values \<Rightarrow> int \<Rightarrow> header_map \<Rightarrow> string list \<Rightarrow> verified_subject \<Rightarrow> bool" where
  "grants S A H clock headers scopes subject \<longleftrightarrow>
     (\<exists>token identity i.
        bearer H headers = Some token \<and>
        guard_check A headers = Authenticated identity SharedAuth \<and> \<not> is_sandboxed A identity \<and>
        introspect A token (au_audience S) scopes = Inr i \<and> session_live A i scopes (unix_now clock) \<and>
        in_iss i = Some (au_issuer S) \<and> in_aud i = Some (au_audience S) \<and>
        in_sub i = Some (vs_shared_user_id subject) \<and> in_sid i = Some (vs_session_id subject) \<and>
        id_shared_user_id identity = vs_shared_user_id subject \<and>
        id_session_id identity = Some (vs_session_id subject) \<and> vs_session_id subject \<noteq> [])"

lemma validate_active_session_Inr_iff:
  "validate_active_session A identity i issuer audience scopes now = Inr subject \<longleftrightarrow>
     session_live A i scopes now \<and> in_iss i = Some issuer \<and> in_aud i = Some audience \<and>
     in_sub i = Some (vs_shared_user_id subject) \<and> in_sid i = Some (vs_session_id subject) \<and>
     id_shared_user_id identity = vs_shared_user_id subject \<and>
     id_session_id identity = Some (vs_session_id subject) \<and> vs_session_id subject \<noteq> []"
  by (cases subject)
    (auto simp: validate_active_session_def session_live_def result_simps list_ex_iff
      split: option.splits if_splits)

lemma validate_active_session_Inl:
  "validate_active_session A identity i issuer audience scopes now = Inl e \<Longrightarrow> e = Unauthorized"
  by (auto simp: validate_active_session_def result_simps split: if_splits)

lemma guard_identity_Inr_iff:
  "guard_identity A outcome = Inr identity \<longleftrightarrow>
     outcome = Authenticated identity SharedAuth \<and> \<not> is_sandboxed A identity"
  by (auto simp: guard_identity_def split: auth_outcome.splits)

section \<open>A sample authority\<close>

text \<open>The fixtures of the unit tests, with the user of the sample database.\<close>

definition ref_identity :: identity where
  "ref_identity =
     \<lparr>id_shared_user_id = ''alice'', id_provider = ''shared-auth'', id_provider_tenant = ''default'',
      id_provider_subject = ''provider-user-42'', id_project = None, id_supabase_user_id = None,
      id_session_id = Some ''session-a'', id_email = None, id_email_verified = False,
      id_roles = [], id_amr = [''passkey''], id_acr = None, id_cred = None,
      id_authority = SharedAuth\<rparr>"

definition ref_introspection :: introspection where
  "ref_introspection =
     \<lparr>in_active = True, in_sub = Some ''alice'', in_iss = Some ''https://auth.example'',
      in_aud = Some ''apostille-me'', in_sid = Some ''session-a'', in_exp = Some 1100,
      in_nbf = Some 900, in_scope = Some ''apme:cases:read apme:cases:write''\<rparr>"

definition ref_authority :: authority where
  "ref_authority =
     \<lparr>guard_check = (\<lambda>_. Authenticated ref_identity SharedAuth),
      introspect = (\<lambda>_ _ _. Inr ref_introspection),
      has_scope = (\<lambda>_ s. s = ''apme:cases:read'' \<or> s = ''apme:cases:write''),
      is_sandboxed = (\<lambda>_. False)\<rparr>"

definition ref_auth :: auth_service where
  "ref_auth =
     \<lparr>au_base = ''https://auth.example'', au_issuer = ''https://auth.example'',
      au_audience = ''apostille-me'', au_login_url = ''/auth/sign-in'', au_guard_timeout_secs = 2,
      au_max_response_bytes = MAX_INTROSPECTION_RESPONSE_BYTES, au_service_credential = ''svc''\<rparr>"

definition ref_http :: http_values where
  "ref_http =
     \<lparr>header_to_str = (\<lambda>b. if list_all (\<lambda>c. 32 \<le> byte c \<and> byte c < 127 \<or> byte c = 9) b then Some b else None),
      header_from_str = (\<lambda>b. if list_all (\<lambda>c. 32 \<le> byte c \<and> byte c < 127 \<or> byte c = 9) b then Some b else None)\<rparr>"

definition ref_headers :: header_map where
  "ref_headers =
     [''authorization'' \<mapsto> ''Bearer t0ken'', ''x-apme-tenant-id'' \<mapsto> ''1'', ''idempotency-key'' \<mapsto> ''k1'']"

definition ref_clock :: int where
  "ref_clock = 1000 * 1000000000"

lemmas ref_auth_defs = ref_identity_def ref_introspection_def ref_authority_def ref_auth_def
  ref_http_def ref_headers_def ref_clock_def CASES_READ_SCOPE_def CASES_WRITE_SCOPE_def

text \<open>
  C4. Authentication is sound and complete: a request is accepted as a subject exactly when the
  authority grants it, that is, local verification, introspection of the presented token,
  issuer, audience, user, session, lifetime and scopes all agree.
\<close>

theorem authenticate_iff_grants:
  "authenticate_with_scopes S A H clock headers scopes = Inr subject \<longleftrightarrow>
     grants S A H clock headers scopes subject"
  unfolding authenticate_with_scopes_def grants_def result_simps guard_identity_Inr_iff
    validate_active_session_Inr_iff
  by blast

text \<open>
  Failures are classified: \<^verbatim>\<open>Degraded\<close> means that the guard or the introspection service could not
  answer, \<^verbatim>\<open>Forbidden\<close> that the guard authenticated an identity of another authority or a sandboxed one;
  every other refusal is \<^verbatim>\<open>Unauthorized\<close>. A request without a bearer token is
  \<^verbatim>\<open>Unauthorized\<close> whatever the authority would say.
\<close>

lemma authenticate_failures:
  "(bearer H headers = None \<longrightarrow> authenticate_with_scopes S A H clock headers scopes = Inl Unauthorized)
   \<and> (authenticate_with_scopes S A H clock headers scopes = Inl Degraded \<longleftrightarrow>
      (\<exists>token. bearer H headers = Some token \<and>
        (guard_check A headers = Degraded_outcome \<or>
         (\<exists>identity e. guard_check A headers = Authenticated identity SharedAuth \<and>
            \<not> is_sandboxed A identity \<and> introspect A token (au_audience S) scopes = Inl e))))
   \<and> (authenticate_with_scopes S A H clock headers scopes = Inl Forbidden \<longleftrightarrow>
      bearer H headers \<noteq> None \<and>
      (\<exists>identity name. guard_check A headers = Authenticated identity name \<and>
         (name \<noteq> SharedAuth \<or> is_sandboxed A identity)))"
  by (auto simp: authenticate_with_scopes_def result_simps guard_identity_def
      dest: validate_active_session_Inl split: auth_outcome.splits if_splits)

text \<open>
  A session that is accepted at some time is accepted as the same subject exactly from its not-before time on
  and strictly before its expiry: time enters the decision only through that window.
\<close>

lemma session_lifetime:
  assumes "validate_active_session A identity i issuer audience scopes now = Inr subject"
  shows "validate_active_session A identity i issuer audience scopes t = Inr subject \<longleftrightarrow>
    (\<exists>expires. in_exp i = Some expires \<and> t < expires) \<and> (\<forall>start. in_nbf i = Some start \<longrightarrow> start \<le> t)"
  using assms unfolding validate_active_session_Inr_iff session_live_def by blast

end
