(* ===== verification/Http_Api.thy ===== *)
theory Http_Api
  imports Case_Properties Auth
begin

text \<open>
  The REST surface of \<^verbatim>\<open>src/main.rs\<close>: application state, authorization of a request for a tenant,
  one definition per handler, the error responses and the route table. A handler is an action on
  the application state: the database world and the log of events sent to the broadcast
  channel. Extractors (JSON bodies, the UUID path segment) have run before a handler starts, so a handler takes their
  values as arguments.
\<close>

section \<open>State\<close>

definition TENANT_HEADER :: string where
  "TENANT_HEADER = ''x-apme-tenant-id''"

definition IDEMPOTENCY_HEADER :: string where
  "IDEMPOTENCY_HEADER = ''idempotency-key''"

record tenant_event =
  te_tenant_id :: uuid
  te_case_id :: uuid
  te_event :: case_event_receipt

record 'd app_state =
  app_cases :: "'d world"
  app_events :: "tenant_event list"

text \<open>
  What a request depends on besides the state: the configured authentication service and the
  authority behind it, the header and UUID conversions, the interface crate, the stored functions
  and the clock (nanoseconds since the epoch, also \<^verbatim>\<open>Utc::now()\<close>).
\<close>

record 'd deps =
  dep_auth :: auth_service
  dep_authority :: authority
  dep_http :: http_values
  dep_parse_uuid :: "string \<Rightarrow> uuid option"
  dep_interfaces :: interfaces
  dep_procs :: "'d procs"
  dep_clock :: int

section \<open>Errors\<close>

datatype api_error =
    Authentication auth_failure
  | Cases_error case_service_error
  | Validation_error string

fun api_error_code :: "api_error \<Rightarrow> string" where
  "api_error_code (Authentication Unauthorized) = ''unauthorized''"
| "api_error_code (Authentication Forbidden) = ''forbidden''"
| "api_error_code (Cases_error NotAuthorized) = ''forbidden''"
| "api_error_code (Authentication Degraded) = ''temporarily_unavailable''"
| "api_error_code (Cases_error (Storage _)) = ''temporarily_unavailable''"
| "api_error_code (Cases_error NotFound) = ''not_found''"
| "api_error_code (Cases_error IdempotencyConflict) = ''idempotency_key_reused''"
| "api_error_code (Cases_error StaleVersion) = ''stale_version''"
| "api_error_code (Cases_error InvalidTransition) = ''invalid_transition''"
| "api_error_code (Cases_error KeyVersionRollback) = ''key_version_rollback''"
| "api_error_code (Cases_error (Validation _)) = ''validation''"
| "api_error_code (Validation_error _) = ''validation''"

text \<open>Status, \<^verbatim>\<open>error\<close> field and, where present, \<^verbatim>\<open>message\<close> field of an error response.\<close>

fun error_response :: "api_error \<Rightarrow> nat \<times> string \<times> string option" where
  "error_response (Authentication Unauthorized) = (401, ''unauthorized'', None)"
| "error_response (Authentication Forbidden) = (403, ''forbidden'', None)"
| "error_response (Cases_error NotAuthorized) = (403, ''forbidden'', None)"
| "error_response (Authentication Degraded) = (503, ''temporarily_unavailable'', None)"
| "error_response (Cases_error (Storage _)) = (503, ''temporarily_unavailable'', None)"
| "error_response (Cases_error NotFound) = (404, ''not_found'', None)"
| "error_response (Cases_error IdempotencyConflict) = (409, ''idempotency_key_reused'', None)"
| "error_response (Cases_error StaleVersion) = (409, ''stale_version'', None)"
| "error_response (Cases_error InvalidTransition) = (409, ''invalid_transition'', None)"
| "error_response (Cases_error KeyVersionRollback) = (409, ''key_version_rollback'', None)"
| "error_response (Cases_error (Validation message)) = (422, ''validation'', Some message)"
| "error_response (Validation_error message) = (422, ''validation'', Some message)"

section \<open>Authorizing a request\<close>

definition tenant_id :: "'d deps \<Rightarrow> header_map \<Rightarrow> api_error + uuid" where
  "tenant_id D headers =
     ok_or (Validation_error ''x-apme-tenant-id must be a UUID'')
       (Option.bind (Option.bind (headers TENANT_HEADER) (header_to_str (dep_http D))) (dep_parse_uuid D))"

definition idempotency_key :: "'d deps \<Rightarrow> header_map \<Rightarrow> api_error + string" where
  "idempotency_key D headers =
     ok_or (Validation_error ''Idempotency-Key is required'')
       (filter_opt (\<lambda>v. v \<noteq> [])
         (map_option trim (Option.bind (headers IDEMPOTENCY_HEADER) (header_to_str (dep_http D)))))"

definition authorized_tenant_with_scopes ::
  "'x database_scheme deps \<Rightarrow> header_map \<Rightarrow> string list \<Rightarrow>
     ('x database_scheme world, api_error, verified_subject \<times> tenant_context) action" where
  "authorized_tenant_with_scopes D headers required_scopes =
     bind_try
       (lift_result (map_err Authentication
         (authenticate_with_scopes (dep_auth D) (dep_authority D) (dep_http D) (dep_clock D) headers required_scopes)))
       (\<lambda>subject.
     bind_try (lift_result (tenant_id D headers)) (\<lambda>tenant.
     bind_try (act_map_err Cases_error (tenant_context subject tenant)) (\<lambda>context.
     pure_ok (subject, context))))"

definition authorized_tenant ::
  "'x database_scheme deps \<Rightarrow> header_map \<Rightarrow>
     ('x database_scheme world, api_error, verified_subject \<times> tenant_context) action" where
  "authorized_tenant D headers = authorized_tenant_with_scopes D headers [CASES_READ_SCOPE]"

text \<open>The same decision for a bare token, as the framed TCP transport presents it.\<close>

definition token_refused :: "string \<Rightarrow> bool" where
  "token_refused token \<longleftrightarrow>
     token = [] \<or> length token > 16 * 1024 \<or> any_char is_whitespace token \<or> any_char is_control token"

definition authorize_token ::
  "'x database_scheme deps \<Rightarrow> string \<Rightarrow> uuid \<Rightarrow> string list \<Rightarrow>
     ('x database_scheme world, api_error, verified_subject \<times> tenant_context) action" where
  "authorize_token D token tenant required_scopes =
     bind_try (lift_result (ensure (\<not> token_refused token) (Authentication Unauthorized))) (\<lambda>_.
     bind_try (lift_result (ok_or (Authentication Unauthorized) (header_from_str (dep_http D) (''Bearer '' @ token))))
       (\<lambda>authorization.
     bind_try
       (lift_result (map_err Authentication
         (authenticate_with_scopes (dep_auth D) (dep_authority D) (dep_http D) (dep_clock D)
           [''authorization'' \<mapsto> authorization] required_scopes)))
       (\<lambda>subject.
     bind_try (act_map_err Cases_error (tenant_context subject tenant)) (\<lambda>context.
     pure_ok (subject, context)))))"

section \<open>Handlers\<close>

definition on_cases :: "('d world, 'e, 'a) action \<Rightarrow> ('d app_state, 'e, 'a) action" where
  "on_cases m s = (case m (app_cases s) of (r, w) \<Rightarrow> (r, s\<lparr>app_cases := w\<rparr>))"

datatype reply_body =
    Index_body string string string string
  | Health_body string string string
  | Metrics_body string
  | Cases_body "persisted_case list"
  | Case_body persisted_case
  | Mutation_body case_mutation_result
  | Upgraded case_subscription

type_synonym reply = "nat \<times> reply_body"

definition index_handler :: "('d app_state, api_error, reply) action" where
  "index_handler = pure_ok (200, Index_body ''apme-api'' ''Apostille Me'' ''/api/v1/cases'' ''/ws'')"

definition health_handler :: "('d app_state, api_error, reply) action" where
  "health_handler = pure_ok (200, Health_body ''ok'' ''apme-api'' ''0.1.0'')"

definition metrics_text :: "nat \<Rightarrow> string" where
  "metrics_text n =
     ''# TYPE apme_records gauge'' @ [char_of (10 :: nat)] @ ''apme_records '' @ show_nat n @ [char_of (10 :: nat)]"

definition metrics_handler :: "('x database_scheme app_state, api_error, reply) action" where
  "metrics_handler =
     bind_try
       (on_cases (act_map_err (\<lambda>e. Cases_error (Storage e)) (db_call (query (\<lambda>d. Inr (case_count d))))))
       (\<lambda>n. pure_ok (200, Metrics_body (metrics_text n)))"

definition list_cases_handler ::
  "'x database_scheme deps \<Rightarrow> header_map \<Rightarrow> ('x database_scheme app_state, api_error, reply) action" where
  "list_cases_handler D headers =
     bind_try (on_cases (authorized_tenant D headers)) (\<lambda>(_, context).
     bind_try (on_cases (act_map_err Cases_error (list_cases context))) (\<lambda>cs.
     pure_ok (200, Cases_body cs)))"

definition get_case_handler ::
  "'x database_scheme deps \<Rightarrow> uuid \<Rightarrow> header_map \<Rightarrow> ('x database_scheme app_state, api_error, reply) action" where
  "get_case_handler D i headers =
     bind_try (on_cases (authorized_tenant D headers)) (\<lambda>(subject, context).
     bind_try (on_cases (act_map_err Cases_error (get_case context i))) (\<lambda>c.
     bind_try
       (on_cases (act_map_err Cases_error
         (record_access (dep_procs D) context subject (pc_id c) (dep_clock D)))) (\<lambda>_.
     pure_ok (200, Case_body c))))"

definition event_of :: "case_mutation_result \<Rightarrow> tenant_event" where
  "event_of mutation =
     \<lparr>te_tenant_id = pc_tenant_id (mr_case mutation), te_case_id = pc_id (mr_case mutation),
      te_event = mr_event mutation\<rparr>"

definition publish_mutation :: "case_mutation_result \<Rightarrow> 'd app_state \<Rightarrow> 'd app_state" where
  "publish_mutation mutation s = s\<lparr>app_events := app_events s @ [event_of mutation]\<rparr>"

text \<open>The common tail of the mutating handlers: run the mutation, publish it unless it was a replay.\<close>

definition run_and_publish ::
  "('d world, case_service_error, case_mutation_result) action \<Rightarrow>
     ('d app_state, api_error, case_mutation_result) action" where
  "run_and_publish m =
     bind_try (on_cases (act_map_err Cases_error m)) (\<lambda>mutation s.
       (Inr mutation, if mr_replayed mutation then s else publish_mutation mutation s))"

definition create_case_handler ::
  "'x database_scheme deps \<Rightarrow> header_map \<Rightarrow> create_case_command \<Rightarrow>
     ('x database_scheme app_state, api_error, reply) action" where
  "create_case_handler D headers command =
     bind_try (on_cases (authorized_tenant_with_scopes D headers [CASES_WRITE_SCOPE])) (\<lambda>(subject, context).
     bind_try (lift_result (idempotency_key D headers)) (\<lambda>key.
     bind_try
       (run_and_publish
         (create_case (dep_interfaces D) (dep_procs D) context subject key command (dep_clock D))) (\<lambda>mutation.
     pure_ok (if mr_replayed mutation then 200 else 201, Mutation_body mutation))))"

definition transition_case_handler ::
  "'x database_scheme deps \<Rightarrow> uuid \<Rightarrow> header_map \<Rightarrow> transition_case_command \<Rightarrow>
     ('x database_scheme app_state, api_error, reply) action" where
  "transition_case_handler D i headers command =
     bind_try (on_cases (authorized_tenant_with_scopes D headers [CASES_WRITE_SCOPE])) (\<lambda>(subject, context).
     bind_try (lift_result (idempotency_key D headers)) (\<lambda>key.
     bind_try
       (run_and_publish
         (transition_case (dep_interfaces D) (dep_procs D) context subject i key command (dep_clock D))) (\<lambda>mutation.
     pure_ok (200, Mutation_body mutation))))"

definition rotate_encrypted_object_handler ::
  "'x database_scheme deps \<Rightarrow> uuid \<Rightarrow> header_map \<Rightarrow> rotate_encrypted_object_command \<Rightarrow>
     ('x database_scheme app_state, api_error, reply) action" where
  "rotate_encrypted_object_handler D i headers command =
     bind_try (on_cases (authorized_tenant_with_scopes D headers [CASES_WRITE_SCOPE])) (\<lambda>(subject, context).
     bind_try (lift_result (idempotency_key D headers)) (\<lambda>key.
     bind_try
       (run_and_publish
         (rotate_encrypted_object (dep_interfaces D) (dep_procs D) context subject i key command (dep_clock D)))
       (\<lambda>mutation.
     pure_ok (200, Mutation_body mutation))))"

record web_socket_query =
  wq_tenant_id :: uuid
  wq_case_id :: "uuid option"

definition websocket_handler ::
  "'x database_scheme deps \<Rightarrow> web_socket_query \<Rightarrow> header_map \<Rightarrow>
     ('x database_scheme app_state, api_error, reply) action" where
  "websocket_handler D q headers =
     bind_try
       (lift_result (map_err Authentication
         (authenticate (dep_auth D) (dep_authority D) (dep_http D) (dep_clock D) headers))) (\<lambda>subject.
     bind_try (on_cases (act_map_err Cases_error (tenant_context subject (wq_tenant_id q)))) (\<lambda>_.
     pure_ok (101, Upgraded \<lparr>cs_tenant_id = wq_tenant_id q, cs_case_id = wq_case_id q\<rparr>)))"

section \<open>Routes\<close>

datatype http_method = GET | POST

datatype endpoint =
    Index | Health | Metrics | List_cases | Create_case | Get_case | Transition_case
  | Rotate_object | Web_socket

definition routes :: "(string \<times> http_method \<times> endpoint) list" where
  "routes =
     [(''/'', GET, Index), (''/healthz'', GET, Health), (''/readyz'', GET, Health),
      (''/metrics'', GET, Metrics),
      (''/api/v1/cases'', GET, List_cases), (''/api/v1/cases'', POST, Create_case),
      (''/api/v1/cases/{id}'', GET, Get_case),
      (''/api/v1/cases/{id}/transition'', POST, Transition_case),
      (''/api/v1/cases/{id}/rotate-object'', POST, Rotate_object),
      (''/ws'', GET, Web_socket)]"

text \<open>A request after extraction: the endpoint it was routed to, with what its extractors produced.\<close>

datatype request =
    Index_request
  | Health_request
  | Metrics_request
  | List_request header_map
  | Create_request header_map create_case_command
  | Get_request uuid header_map
  | Transition_request uuid header_map transition_case_command
  | Rotate_request uuid header_map rotate_encrypted_object_command
  | Socket_request web_socket_query header_map

primrec endpoint_of :: "request \<Rightarrow> endpoint" where
  "endpoint_of Index_request = Index"
| "endpoint_of Health_request = Health"
| "endpoint_of Metrics_request = Metrics"
| "endpoint_of (List_request _) = List_cases"
| "endpoint_of (Create_request _ _) = Create_case"
| "endpoint_of (Get_request _ _) = Get_case"
| "endpoint_of (Transition_request _ _ _) = Transition_case"
| "endpoint_of (Rotate_request _ _ _) = Rotate_object"
| "endpoint_of (Socket_request _ _) = Web_socket"

primrec handle ::
  "'x database_scheme deps \<Rightarrow> request \<Rightarrow> ('x database_scheme app_state, api_error, reply) action" where
  "handle D Index_request = index_handler"
| "handle D Health_request = health_handler"
| "handle D Metrics_request = metrics_handler"
| "handle D (List_request headers) = list_cases_handler D headers"
| "handle D (Create_request headers command) = create_case_handler D headers command"
| "handle D (Get_request i headers) = get_case_handler D i headers"
| "handle D (Transition_request i headers command) = transition_case_handler D i headers command"
| "handle D (Rotate_request i headers command) = rotate_encrypted_object_handler D i headers command"
| "handle D (Socket_request q headers) = websocket_handler D q headers"

text \<open>What goes back over the wire.\<close>

datatype response = Success nat reply_body | Failure nat string "string option"

definition respond :: "api_error + reply \<Rightarrow> response" where
  "respond r =
     (case r of
        Inl e \<Rightarrow> (case error_response e of (status, code, message) \<Rightarrow> Failure status code message)
      | Inr (status, body) \<Rightarrow> Success status body)"

end
