(* ===== verification/Http_Properties.thy ===== *)
theory Http_Properties
  imports Http_Api
begin

text \<open>
  What the REST surface guarantees. The gate every protected handler passes through is an
  interface (\<open>tenant_gate\<close>), interpreted for the header-based and for the token-based
  authorization; what the handlers do behind the gate rests on the reader and mutation
  interfaces of the case service.
\<close>

section \<open>The tenant gate\<close>

definition member :: "uuid \<Rightarrow> string \<Rightarrow> tenant_role \<Rightarrow> 'x database_scheme \<Rightarrow> bool" where
  "member tenant user role d \<longleftrightarrow>
     (\<exists>t \<in> set (tenants d). tn_id t = tenant) \<and>
     (\<exists>m \<in> set (memberships d). mb_tenant_id m = tenant \<and> mb_shared_user_id m = user \<and>
        mb_active m \<and> parse_role (mb_role m) = Inr role)"

lemma membership_rows_member:
  "(org, name) \<in> set (membership_rows tenant user d) \<Longrightarrow> parse_role name = Inr role \<Longrightarrow>
     member tenant user role d"
  by (auto simp: membership_rows_def member_def split: if_splits)

lemma tenant_context_Inr:
  assumes "tenant_context subject tenant w = (Inr c, w')"
  shows "ctx_tenant_id c = tenant" and "member tenant (vs_shared_user_id subject) (ctx_role c) (presented w)"
proof -
  from assms obtain org name role
    where "fetch_optional (membership_rows tenant (vs_shared_user_id subject) (presented w)) = Some (org, name)"
      and role: "parse_role name = Inr role"
      and c: "c = \<lparr>ctx_tenant_id = tenant, ctx_organization_id = org, ctx_role = role\<rparr>"
    by (auto simp: tenant_context_def result_simps dest!: db_call_query_Inr)
  then have "(org, name) \<in> set (membership_rows tenant (vs_shared_user_id subject) (presented w))"
    by (auto dest: fetch_optional_mem)
  with role c show "ctx_tenant_id c = tenant"
    and "member tenant (vs_shared_user_id subject) (ctx_role c) (presented w)"
    by (auto dest: membership_rows_member)
qed

lemma tenant_context_reads: "tenant_context subject tenant w = (r, w') \<Longrightarrow> store w' = presented w"
  by (auto simp: tenant_context_def bind_try_def act_map_err_def db_call_query_store
      split: prod.splits sum.splits)

lemma on_cases_Inr_iff [result_simps]:
  "on_cases m s = (Inr x, s') \<longleftrightarrow> (\<exists>w. m (app_cases s) = (Inr x, w) \<and> s' = s\<lparr>app_cases := w\<rparr>)"
  by (auto simp: on_cases_def split: prod.splits)

lemma on_cases_Inl_iff [result_simps]:
  "on_cases m s = (Inl e, s') \<longleftrightarrow> (\<exists>w. m (app_cases s) = (Inl e, w) \<and> s' = s\<lparr>app_cases := w\<rparr>)"
  by (auto simp: on_cases_def split: prod.splits)

lemma on_cases_events: "on_cases m s = (r, s') \<Longrightarrow> app_events s' = app_events s"
  by (auto simp: on_cases_def split: prod.splits)

locale tenant_gate =
  fixes authorize :: "'q \<Rightarrow> ('x database_scheme world, api_error, verified_subject \<times> tenant_context) action"
    and granted :: "'q \<Rightarrow> verified_subject \<Rightarrow> bool"
    and wanted :: "'q \<Rightarrow> uuid option"
  assumes admits: "authorize q w = (Inr (subject, c), w') \<Longrightarrow>
      granted q subject \<and> wanted q = Some (ctx_tenant_id c) \<and>
      member (ctx_tenant_id c) (vs_shared_user_id subject) (ctx_role c) (presented w)"
    and silent: "\<forall>subject. \<not> granted q subject \<Longrightarrow> \<exists>e. authorize q w = (Inl (Authentication e), w)"
begin

lemma closed:
  assumes "\<forall>subject. \<not> granted q subject"
  shows "\<exists>e. bind_try (on_cases (authorize q)) body s = (Inl (Authentication e), s)"
proof -
  from silent [OF assms] obtain e where "authorize q (app_cases s) = (Inl (Authentication e), app_cases s)" ..
  then have "bind_try (on_cases (authorize q)) body s = (Inl (Authentication e), s)"
    by (simp add: bind_try_def on_cases_def)
  then show ?thesis ..
qed

lemma through:
  assumes "bind_try (on_cases (authorize q)) body s = (Inr x, s')"
  obtains subject c u where "granted q subject" "wanted q = Some (ctx_tenant_id c)"
    "member (ctx_tenant_id c) (vs_shared_user_id subject) (ctx_role c) (presented (app_cases s))"
    "body (subject, c) u = (Inr x, s')" "app_events u = app_events s"
proof -
  from assms obtain p u where p: "on_cases (authorize q) s = (Inr p, u)" and b: "body p u = (Inr x, s')"
    by (auto simp: bind_try_Inr_iff)
  obtain subject c where sc: "p = (subject, c)" by (cases p)
  from p sc obtain w where "authorize q (app_cases s) = (Inr (subject, c), w)" by (auto simp: on_cases_Inr_iff)
  from admits [OF this] that b sc on_cases_events [OF p] show thesis by blast
qed

end

definition grants_here :: "'d deps \<Rightarrow> header_map \<Rightarrow> string list \<Rightarrow> verified_subject \<Rightarrow> bool" where
  "grants_here D headers scopes subject =
     grants (dep_auth D) (dep_authority D) (dep_http D) (dep_clock D) headers scopes subject"

lemma authenticate_grants:
  "authenticate_with_scopes (dep_auth D) (dep_authority D) (dep_http D) (dep_clock D) headers scopes = Inr subject
     \<longleftrightarrow> grants_here D headers scopes subject"
  unfolding grants_here_def authenticate_with_scopes_def grants_def result_simps guard_identity_Inr_iff
    validate_active_session_Inr_iff
  by blast

lemma authenticate_refuses:
  "\<forall>subject. \<not> grants_here D headers scopes subject \<Longrightarrow>
   \<exists>e. authenticate_with_scopes (dep_auth D) (dep_authority D) (dep_http D) (dep_clock D) headers scopes = Inl e"
  unfolding authenticate_grants [symmetric] by (metis sum.exhaust)

definition wanted_tenant :: "'d deps \<Rightarrow> header_map \<Rightarrow> uuid option" where
  "wanted_tenant D headers = (case tenant_id D headers of Inl _ \<Rightarrow> None | Inr t \<Rightarrow> Some t)"

interpretation header_gate: tenant_gate
  "\<lambda>(headers, scopes). authorized_tenant_with_scopes D headers scopes"
  "\<lambda>(headers, scopes). grants_here D headers scopes"
  "\<lambda>(headers, scopes). wanted_tenant D headers" for D
proof (unfold_locales, goal_cases)
  case (1 q w subject c w')
  then show ?case
    by (cases q) (auto simp: authorized_tenant_with_scopes_def result_simps authenticate_grants wanted_tenant_def
        dest: tenant_context_Inr)
next
  case (2 q w)
  then obtain e where "authenticate_with_scopes (dep_auth D) (dep_authority D) (dep_http D) (dep_clock D)
      (fst q) (snd q) = Inl e"
    using authenticate_refuses [of D "fst q" "snd q"] by (auto split: prod.splits)
  then show ?case by (auto simp: authorized_tenant_with_scopes_def split: prod.splits)
qed

definition grants_token :: "'d deps \<Rightarrow> string \<Rightarrow> string list \<Rightarrow> verified_subject \<Rightarrow> bool" where
  "grants_token D token scopes subject \<longleftrightarrow>
     \<not> token_refused token \<and>
     (\<exists>v. header_from_str (dep_http D) (''Bearer '' @ token) = Some v \<and>
        grants_here D [''authorization'' \<mapsto> v] scopes subject)"

interpretation token_gate: tenant_gate
  "\<lambda>(token, tenant, scopes). authorize_token D token tenant scopes"
  "\<lambda>(token, tenant, scopes). grants_token D token scopes"
  "\<lambda>(token, tenant, scopes). Some tenant" for D
proof (unfold_locales, goal_cases)
  case (1 q w subject c w')
  then show ?case
    by (cases q) (auto simp: authorize_token_def result_simps authenticate_grants grants_token_def
        dest: tenant_context_Inr)
next
  case (2 q w)
  obtain token tenant scopes where q: "q = (token, tenant, scopes)" by (cases q)
  show ?case
  proof (cases "token_refused token \<or> header_from_str (dep_http D) (''Bearer '' @ token) = None")
    case True
    then show ?thesis
      by (cases "token_refused token") (simp_all add: q authorize_token_def)
  next
    case False
    then obtain v where v: "header_from_str (dep_http D) (''Bearer '' @ token) = Some v" by auto
    with 2 False q obtain e where "authenticate_with_scopes (dep_auth D) (dep_authority D) (dep_http D)
        (dep_clock D) [''authorization'' \<mapsto> v] scopes = Inl e"
      using authenticate_refuses [of D "[''authorization'' \<mapsto> v]" scopes] by (auto simp: grants_token_def)
    with False v show ?thesis by (simp add: q authorize_token_def)
  qed
qed

section \<open>What a request asks for\<close>

fun headers_of :: "request \<Rightarrow> header_map" where
  "headers_of (List_request h) = h"
| "headers_of (Create_request h _) = h"
| "headers_of (Get_request _ h) = h"
| "headers_of (Transition_request _ h _) = h"
| "headers_of (Rotate_request _ h _) = h"
| "headers_of (Socket_request _ h) = h"
| "headers_of _ = Map.empty"

definition is_protected :: "endpoint \<Rightarrow> bool" where
  "is_protected e \<longleftrightarrow> e \<notin> {Index, Health, Metrics}"

definition writes :: "endpoint \<Rightarrow> bool" where
  "writes e \<longleftrightarrow> e \<in> {Create_case, Transition_case, Rotate_object}"

definition needed_scopes :: "request \<Rightarrow> string list" where
  "needed_scopes r = (if writes (endpoint_of r) then [CASES_WRITE_SCOPE] else [CASES_READ_SCOPE])"

fun cases_in :: "reply_body \<Rightarrow> persisted_case set" where
  "cases_in (Cases_body cs) = set cs"
| "cases_in (Case_body c) = {c}"
| "cases_in (Mutation_body m) = {mr_case m}"
| "cases_in _ = {}"

lemmas handler_defs = list_cases_handler_def get_case_handler_def create_case_handler_def
  transition_case_handler_def rotate_encrypted_object_handler_def websocket_handler_def
  authorized_tenant_def

lemmas request_defs = needed_scopes_def writes_def is_protected_def

text \<open>What every reply behind the header gate presupposes.\<close>

definition admitted :: "'x database_scheme deps \<Rightarrow> header_map \<Rightarrow> string list \<Rightarrow> 'x database_scheme \<Rightarrow>
    verified_subject \<Rightarrow> tenant_context \<Rightarrow> bool" where
  "admitted D h scopes d subject c \<longleftrightarrow>
     grants_here D h scopes subject \<and> tenant_id D h = Inr (ctx_tenant_id c) \<and>
     member (ctx_tenant_id c) (vs_shared_user_id subject) (ctx_role c) d"

lemma gate_passed:
  assumes "bind_try (on_cases (authorized_tenant_with_scopes D h scopes)) body s = (Inr x, s')"
  obtains subject c u where "admitted D h scopes (presented (app_cases s)) subject c"
    "body (subject, c) u = (Inr x, s')" "app_events u = app_events s"
proof (rule header_gate.through [of D "(h, scopes)" body s x s'], goal_cases)
  case 1
  from assms show ?case by simp
next
  case (2 subject c u)
  then have "admitted D h scopes (presented (app_cases s)) subject c"
    by (auto simp: admitted_def wanted_tenant_def split: sum.splits)
  with 2 that show thesis by blast
qed

text \<open>Every handler behind the header gate is a continuation of it.\<close>

lemma gated_handlers:
  assumes "is_protected (endpoint_of r)" and "endpoint_of r \<noteq> Web_socket"
  shows "\<exists>body. handle D r =
    bind_try (on_cases ((\<lambda>(headers, scopes). authorized_tenant_with_scopes D headers scopes)
      (headers_of r, needed_scopes r))) body"
  using assms by (cases r) (auto simp: handler_defs request_defs)

lemma socket_refused:
  assumes "\<forall>subject. \<not> grants_here D h [CASES_READ_SCOPE] subject"
  shows "\<exists>e. websocket_handler D q h s = (Inl (Authentication e), s)"
  using authenticate_refuses [OF assms] by (auto simp: websocket_handler_def authenticate_def)

subsection \<open>What stands behind a successful reply\<close>

lemma list_handler_Inr:
  assumes "list_cases_handler D h s = (Inr reply, s')"
  obtains subject c cs where "admitted D h [CASES_READ_SCOPE] (presented (app_cases s)) subject c"
    "reply = (200, Cases_body cs)" "\<forall>x \<in> set cs. pc_tenant_id x = ctx_tenant_id c"
    "app_events s' = app_events s"
proof (rule gate_passed [OF assms [unfolded handler_defs]])
  fix subject c u
  assume adm: "admitted D h [CASES_READ_SCOPE] (presented (app_cases s)) subject c"
    and ev: "app_events u = app_events s"
    and run: "(\<lambda>(_, context).
       bind_try (on_cases (act_map_err Cases_error (list_cases context))) (\<lambda>cs. pure_ok (200, Cases_body cs)))
       (subject, c) u = (Inr reply, s')"
  from run obtain cs w where "list_cases c (app_cases u) = (Inr cs, w)"
    and r: "reply = (200, Cases_body cs)" "s' = u\<lparr>app_cases := w\<rparr>"
    by (auto simp: result_simps)
  with case_reader.listing_scoped have "\<forall>x \<in> set cs. pc_tenant_id x = ctx_tenant_id c" by blast
  with adm ev r show thesis by (intro that) simp_all
qed

lemma get_handler_Inr:
  assumes "get_case_handler D i h s = (Inr reply, s')"
  obtains subject c x where "admitted D h [CASES_READ_SCOPE] (presented (app_cases s)) subject c"
    "reply = (200, Case_body x)" "pc_id x = i" "pc_tenant_id x = ctx_tenant_id c"
    "\<exists>d. apme_append_audit (dep_procs D) (access_audit (ctx_tenant_id c) (vs_shared_user_id subject) i (dep_clock D)) d =
       Inr ((), store (app_cases s'))"
    "app_events s' = app_events s"
proof (rule gate_passed [OF assms [unfolded handler_defs]])
  fix subject c u
  assume adm: "admitted D h [CASES_READ_SCOPE] (presented (app_cases s)) subject c"
    and ev: "app_events u = app_events s"
    and run: "(\<lambda>(subject, context).
       bind_try (on_cases (act_map_err Cases_error (get_case context i))) (\<lambda>c.
       bind_try
         (on_cases (act_map_err Cases_error
           (record_access (dep_procs D) context subject (pc_id c) (dep_clock D)))) (\<lambda>_.
       pure_ok (200, Case_body c))))
       (subject, c) u = (Inr reply, s')"
  from run obtain x v w where got: "get_case c i (app_cases u) = (Inr x, v)"
    and aud: "db_call (apme_append_audit (dep_procs D) (access_audit (ctx_tenant_id c) (vs_shared_user_id subject) (pc_id x)
        (dep_clock D))) v = (Inr (), w)"
    and r: "reply = (200, Case_body x)" "s' = u\<lparr>app_cases := w\<rparr>"
    by (auto simp: result_simps record_access_def)
  from case_reader.get_stored [OF got] have x: "pc_id x = i" "pc_tenant_id x = ctx_tenant_id c" by simp_all
  from db_call_Inr(1) [OF aud] x r have "\<exists>d. apme_append_audit (dep_procs D) (access_audit (ctx_tenant_id c)
      (vs_shared_user_id subject) i (dep_clock D)) d = Inr ((), store (app_cases s'))" by auto
  with adm ev r x show thesis by (intro that) simp_all
qed

lemma run_and_publish_Inr:
  "run_and_publish m s = (Inr x, s') \<longleftrightarrow>
     (\<exists>w. m (app_cases s) = (Inr x, w) \<and>
       s' = s\<lparr>app_cases := w, app_events := app_events s @ (if mr_replayed x then [] else [event_of x])\<rparr>)"
  by (auto simp: run_and_publish_def result_simps publish_mutation_def)

lemma run_and_publish_Inl: "run_and_publish m s = (Inl e, s') \<Longrightarrow> app_events s' = app_events s"
  by (auto simp: run_and_publish_def result_simps)

text \<open>The common shape of the mutating handlers.\<close>

definition mutation_handler ::
  "'x database_scheme deps \<Rightarrow> header_map \<Rightarrow>
     (verified_subject \<Rightarrow> tenant_context \<Rightarrow> string \<Rightarrow>
        ('x database_scheme world, case_service_error, case_mutation_result) action) \<Rightarrow>
     (case_mutation_result \<Rightarrow> nat) \<Rightarrow> ('x database_scheme app_state, api_error, reply) action" where
  "mutation_handler D h run status =
     bind_try (on_cases (authorized_tenant_with_scopes D h [CASES_WRITE_SCOPE])) (\<lambda>(subject, context).
     bind_try (lift_result (idempotency_key D h)) (\<lambda>key.
     bind_try (run_and_publish (run subject context key)) (\<lambda>mutation.
     pure_ok (status mutation, Mutation_body mutation))))"

lemma mutation_handlers:
  "create_case_handler D h command = mutation_handler D h
     (\<lambda>subject context key. create_case (dep_interfaces D) (dep_procs D) context subject key command (dep_clock D))
     (\<lambda>m. if mr_replayed m then 200 else 201)"
  "transition_case_handler D i h tcommand = mutation_handler D h
     (\<lambda>subject context key. transition_case (dep_interfaces D) (dep_procs D) context subject i key tcommand (dep_clock D))
     (\<lambda>m. 200)"
  "rotate_encrypted_object_handler D i h rcommand = mutation_handler D h
     (\<lambda>subject context key.
        rotate_encrypted_object (dep_interfaces D) (dep_procs D) context subject i key rcommand (dep_clock D))
     (\<lambda>m. 200)"
  by (simp_all add: mutation_handler_def create_case_handler_def transition_case_handler_def
      rotate_encrypted_object_handler_def)

lemma mutation_handler_Inr:
  assumes "mutation_handler D h run status s = (Inr reply, s')"
  obtains subject c key m u w where "admitted D h [CASES_WRITE_SCOPE] (presented (app_cases s)) subject c"
    "idempotency_key D h = Inr key" "run subject c key u = (Inr m, w)"
    "reply = (status m, Mutation_body m)"
    "app_cases s' = w" "app_events s' = app_events s @ (if mr_replayed m then [] else [event_of m])"
proof (rule gate_passed [OF assms [unfolded mutation_handler_def]])
  fix subject c u
  assume adm: "admitted D h [CASES_WRITE_SCOPE] (presented (app_cases s)) subject c"
    and ev: "app_events u = app_events s"
    and b: "(\<lambda>(subject, context).
     bind_try (lift_result (idempotency_key D h)) (\<lambda>key.
     bind_try (run_and_publish (run subject context key)) (\<lambda>mutation.
     pure_ok (status mutation, Mutation_body mutation)))) (subject, c) u = (Inr reply, s')"
  from b obtain key m w where "idempotency_key D h = Inr key" "run subject c key (app_cases u) = (Inr m, w)"
    "reply = (status m, Mutation_body m)"
    "s' = u\<lparr>app_cases := w, app_events := app_events u @ (if mr_replayed m then [] else [event_of m])\<rparr>"
    by (auto simp: result_simps run_and_publish_Inr)
  with adm ev show thesis by (intro that) simp_all
qed

lemma mutation_handler_Inl:
  "mutation_handler D h run status s = (Inl e, s') \<Longrightarrow> app_events s' = app_events s"
  by (auto simp: mutation_handler_def result_simps dest: run_and_publish_Inl)

lemma created_owned:
  "create_case L P c subject key x now w = (Inr m, w') \<Longrightarrow>
     pc_tenant_id (mr_case m) = ctx_tenant_id c \<and> er_tenant_id (mr_event m) = ctx_tenant_id c \<and>
     can_create_or_transition L (ctx_role c)"
  using creating.owned [of L P c "(subject, key, x, now)" w m w']
    creating.allowed [of L P c "(subject, key, x, now)" w m w'] by simp

lemma transitioned_owned:
  "transition_case L P c subject i key x now w = (Inr m, w') \<Longrightarrow>
     pc_tenant_id (mr_case m) = ctx_tenant_id c \<and> er_tenant_id (mr_event m) = ctx_tenant_id c \<and>
     can_create_or_transition L (ctx_role c)"
  using transitioning.owned [of L P c "(subject, i, key, x, now)" w m w']
    transitioning.allowed [of L P c "(subject, i, key, x, now)" w m w'] by simp

lemma rotated_owned:
  "rotate_encrypted_object L P c subject i key x now w = (Inr m, w') \<Longrightarrow>
     pc_tenant_id (mr_case m) = ctx_tenant_id c \<and> er_tenant_id (mr_event m) = ctx_tenant_id c \<and>
     can_export_or_delete L (ctx_role c)"
  using rotating.owned [of L P c "(subject, i, key, x, now)" w m w']
    rotating.allowed [of L P c "(subject, i, key, x, now)" w m w'] by simp

lemma admitted_case:
  "admitted D h scopes d subject c \<Longrightarrow> pc_tenant_id x = ctx_tenant_id c \<Longrightarrow>
     tenant_id D h = Inr (pc_tenant_id x) \<and>
     (\<exists>subject role. grants_here D h scopes subject \<and>
        member (pc_tenant_id x) (vs_shared_user_id subject) role d)"
  by (auto simp: admitted_def)

section \<open>Properties\<close>

definition ref_deps :: "ledger_database deps" where
  "ref_deps =
     \<lparr>dep_auth = ref_auth, dep_authority = ref_authority, dep_http = ref_http,
      dep_parse_uuid = (\<lambda>s. if s = ''1'' then Some 1 else if s = ''2'' then Some 2 else None),
      dep_interfaces = ref_interfaces, dep_procs = ref_procs, dep_clock = ref_clock\<rparr>"

definition sample_app :: "ledger_database app_state" where
  "sample_app = \<lparr>app_cases = sample_world, app_events = []\<rparr>"

definition case_app :: "ledger_database app_state" where
  "case_app = \<lparr>app_cases = case_world, app_events = []\<rparr>"

lemmas http_eval = handler_defs authorized_tenant_with_scopes_def authenticate_with_scopes_def
  authenticate_def bearer_def guard_identity_def validate_active_session_def unix_now_def tenant_id_def
  idempotency_key_def on_cases_def run_and_publish_def publish_mutation_def event_of_def
  TENANT_HEADER_def IDEMPOTENCY_HEADER_def ref_deps_def sample_app_def case_app_def ref_auth_defs
  trim_def byte_def

lemma sample_list_request:
  "handle ref_deps (List_request ref_headers) case_app = (Inr (200, Cases_body [sample_case]), case_app)"
  by (simp add: http_eval service_eval sample_defs ref_defs)

lemma sample_create_request:
  "\<exists>m s'. handle ref_deps (Create_request ref_headers sample_command) sample_app = (Inr (201, Mutation_body m), s') \<and>
     pc_tenant_id (mr_case m) = 1 \<and> pc_id (mr_case m) = 1 \<and> \<not> mr_replayed m"
  by (simp add: http_eval service_eval sample_defs ref_defs)

text \<open>
  C3. No grant, no effect: when the authority grants the request's bearer to nobody for the
  scope its endpoint needs (no token, revoked, expired, wrong issuer, audience or session, missing
  scope, authority down), every protected endpoint answers with an authentication error and leaves
  the database, the schedule of calls and the event channel untouched. The protected endpoints are those
  routed under \<^verbatim>\<open>/api/\<close> and \<^verbatim>\<open>/ws\<close>.
\<close>

theorem no_grant_no_effect:
  assumes "is_protected (endpoint_of r)"
    and "\<forall>subject. \<not> grants_here D (headers_of r) (needed_scopes r) subject"
  shows "(\<exists>e. handle D r s = (Inl (Authentication e), s)) \<and>
    (\<forall>(path, method, endpoint) \<in> set routes.
       is_protected endpoint \<longleftrightarrow> prefix ''/api/'' path \<or> path = ''/ws'')"
proof
  show "\<exists>e. handle D r s = (Inl (Authentication e), s)"
  proof (cases "endpoint_of r = Web_socket")
    case True
    then obtain q h where "r = Socket_request q h" by (cases r) auto
    with assms(2) show ?thesis by (auto simp: request_defs intro!: socket_refused)
  next
    case False
    with assms(1) obtain body where "handle D r =
      bind_try (on_cases ((\<lambda>(headers, scopes). authorized_tenant_with_scopes D headers scopes)
        (headers_of r, needed_scopes r))) body"
      using gated_handlers by blast
    with header_gate.closed [of D "(headers_of r, needed_scopes r)" body s] assms(2) show ?thesis by simp
  qed
  show "\<forall>(path, method, endpoint) \<in> set routes.
       is_protected endpoint \<longleftrightarrow> prefix ''/api/'' path \<or> path = ''/ws''"
    by (simp add: routes_def is_protected_def)
qed

theorem no_grant_no_effect_witness:
  "\<exists>e. handle ref_deps (Create_request Map.empty sample_command) sample_app = (Inl (Authentication e), sample_app)"
proof -
  let ?r = "Create_request Map.empty sample_command"
  have p: "is_protected (endpoint_of ?r)" by (simp add: is_protected_def)
  have "\<forall>subject. \<not> grants_here ref_deps (headers_of ?r) (needed_scopes ?r) subject"
    by (simp add: grants_here_def grants_def bearer_def)
  from no_grant_no_effect [OF p this, of sample_app] show ?thesis by blast
qed

text \<open>
  Tenant isolation of replies: every case in a successful reply belongs to the tenant named
  in the request's tenant header, the authority grants the caller the endpoint's scope, and the
  caller is an active member of that tenant in the database the request met.
\<close>

lemma replies_stay_in_tenant:
  assumes "handle D r s = (Inr (status, body), s')" and "c \<in> cases_in body"
  shows "tenant_id D (headers_of r) = Inr (pc_tenant_id c) \<and>
    (\<exists>subject role. grants_here D (headers_of r) (needed_scopes r) subject \<and>
       member (pc_tenant_id c) (vs_shared_user_id subject) role (presented (app_cases s)))"
proof -
  have ok: ?thesis if "admitted D (headers_of r) (needed_scopes r) (presented (app_cases s)) subject k"
    and "pc_tenant_id c = ctx_tenant_id k" for subject k
    using admitted_case [OF that] .
  show ?thesis
  proof (cases r)
    case (List_request h)
    with assms(1) have "list_cases_handler D h s = (Inr (status, body), s')" by simp
    then show ?thesis by (rule list_handler_Inr) (rule ok, use List_request assms(2) in \<open>simp_all add: request_defs\<close>)
  next
    case (Get_request i h)
    with assms(1) have "get_case_handler D i h s = (Inr (status, body), s')" by simp
    then show ?thesis by (rule get_handler_Inr) (rule ok, use Get_request assms(2) in \<open>simp_all add: request_defs\<close>)
  next
    case (Create_request h x)
    with assms(1) have "create_case_handler D h x s = (Inr (status, body), s')" by simp
    then show ?thesis unfolding mutation_handlers
      by (rule mutation_handler_Inr) (rule ok, use Create_request assms(2) in \<open>simp_all add: request_defs created_owned\<close>)
  next
    case (Transition_request i h x)
    with assms(1) have "transition_case_handler D i h x s = (Inr (status, body), s')" by simp
    then show ?thesis unfolding mutation_handlers
      by (rule mutation_handler_Inr) (rule ok, use Transition_request assms(2) in \<open>simp_all add: request_defs transitioned_owned\<close>)
  next
    case (Rotate_request i h x)
    with assms(1) have "rotate_encrypted_object_handler D i h x s = (Inr (status, body), s')" by simp
    then show ?thesis unfolding mutation_handlers
      by (rule mutation_handler_Inr) (rule ok, use Rotate_request assms(2) in \<open>simp_all add: request_defs rotated_owned\<close>)
  qed (use assms in \<open>auto simp: index_handler_def health_handler_def metrics_handler_def websocket_handler_def result_simps\<close>)
qed

section \<open>The event channel\<close>

text \<open>The events an answer stands for: one for a fresh mutation, none for anything else.\<close>

fun published :: "api_error + reply \<Rightarrow> tenant_event list" where
  "published (Inr (_, Mutation_body m)) = (if mr_replayed m then [] else [event_of m])"
| "published _ = []"

lemma reading_publishes_nothing:
  "handle D r s = (res, s') \<Longrightarrow> \<not> writes (endpoint_of r) \<Longrightarrow>
     published res = [] \<and> app_events s' = app_events s"
  by (cases r; cases res)
    (auto simp: index_handler_def health_handler_def metrics_handler_def handler_defs request_defs result_simps)

lemma handle_publishes:
  "app_events (snd (handle D r s)) = app_events s @ published (fst (handle D r s))"
proof (cases "handle D r s")
  case (Pair res s')
  have mut: "app_events s' = app_events s @ published res"
    if "mutation_handler D h run status s = (res, s')" for h run status
  proof (cases res)
    case (Inl e)
    with that show ?thesis by (simp add: mutation_handler_Inl)
  next
    case (Inr reply)
    with that have "mutation_handler D h run status s = (Inr reply, s')" by simp
    then show ?thesis by (rule mutation_handler_Inr) (simp add: Inr)
  qed
  have "app_events s' = app_events s @ published res"
  proof (cases "writes (endpoint_of r)")
    case True
    with Pair show ?thesis by (cases r) (auto simp: request_defs mutation_handlers intro: mut)
  next
    case False
    from reading_publishes_nothing [OF Pair this] show ?thesis by simp
  qed
  with Pair show ?thesis by simp
qed

definition mutation_right :: "interfaces \<Rightarrow> endpoint \<Rightarrow> tenant_role \<Rightarrow> bool" where
  "mutation_right L e = (if e = Rotate_object then can_export_or_delete L else can_create_or_transition L)"

definition accountable :: "'x database_scheme deps \<Rightarrow> request \<Rightarrow> 'x database_scheme \<Rightarrow> tenant_event \<Rightarrow> bool" where
  "accountable D r d e \<longleftrightarrow>
     writes (endpoint_of r) \<and> tenant_id D (headers_of r) = Inr (te_tenant_id e) \<and>
     er_tenant_id (te_event e) = te_tenant_id e \<and>
     (\<exists>subject role. grants_here D (headers_of r) [CASES_WRITE_SCOPE] subject \<and>
        member (te_tenant_id e) (vs_shared_user_id subject) role d \<and>
        mutation_right (dep_interfaces D) (endpoint_of r) role)"

lemma admitted_accountable:
  "admitted D (headers_of r) [CASES_WRITE_SCOPE] d subject c \<Longrightarrow> writes (endpoint_of r) \<Longrightarrow>
     pc_tenant_id (mr_case m) = ctx_tenant_id c \<Longrightarrow> er_tenant_id (mr_event m) = ctx_tenant_id c \<Longrightarrow>
     mutation_right (dep_interfaces D) (endpoint_of r) (ctx_role c) \<Longrightarrow> accountable D r d (event_of m)"
  by (auto simp: admitted_def accountable_def event_of_def)

lemma mutation_handler_accountable:
  assumes "mutation_handler D (headers_of r) run status s = (res, s')" and "e \<in> set (published res)"
    and "writes (endpoint_of r)"
    and "\<And>subject c key u m w. run subject c key u = (Inr m, w) \<Longrightarrow>
      pc_tenant_id (mr_case m) = ctx_tenant_id c \<and> er_tenant_id (mr_event m) = ctx_tenant_id c \<and>
      mutation_right (dep_interfaces D) (endpoint_of r) (ctx_role c)"
  shows "accountable D r (presented (app_cases s)) e"
proof -
  from assms(2) obtain reply where "res = Inr reply" by (cases res) auto
  with assms(1) have "mutation_handler D (headers_of r) run status s = (Inr reply, s')" by simp
  then obtain subject c key m u w where
    adm: "admitted D (headers_of r) [CASES_WRITE_SCOPE] (presented (app_cases s)) subject c"
    and run: "run subject c key u = (Inr m, w)" and reply: "reply = (status m, Mutation_body m)"
    by (rule mutation_handler_Inr)
  from assms(2) reply \<open>res = Inr reply\<close> have "e = event_of m" by (simp split: if_splits)
  with admitted_accountable [OF adm assms(3)] assms(4) [OF run] show ?thesis by simp
qed

lemma handle_accountable:
  assumes "e \<in> set (published (fst (handle D r s)))"
  shows "accountable D r (presented (app_cases s)) e"
proof (cases "handle D r s")
  case (Pair res s')
  with assms have e: "e \<in> set (published res)" by simp
  have "writes (endpoint_of r)"
  proof (rule ccontr)
    assume "\<not> writes (endpoint_of r)"
    from reading_publishes_nothing [OF Pair this] e show False by simp
  qed
  note mutating = mutation_handler_accountable [OF _ e this]
  show ?thesis
  proof (cases r)
    case (Create_request h x)
    with Pair show ?thesis by (intro mutating) (auto simp: mutation_handlers mutation_right_def dest: created_owned)
  next
    case (Transition_request i h x)
    with Pair show ?thesis by (intro mutating) (auto simp: mutation_handlers mutation_right_def dest: transitioned_owned)
  next
    case (Rotate_request i h x)
    with Pair show ?thesis by (intro mutating) (auto simp: mutation_handlers mutation_right_def dest: rotated_owned)
  qed (use \<open>writes (endpoint_of r)\<close> in \<open>simp_all add: writes_def\<close>)
qed

text \<open>
  C28. Single reads are audited: a case is returned only after the stored audit function has run
  successfully, as the last statement of the request, for the case's tenant, the authenticated user and
  the id in the path.
\<close>

theorem case_reads_are_audited:
  assumes "handle D (Get_request i h) s = (Inr (status, Case_body c), s')"
  shows "\<exists>subject d. grants_here D h [CASES_READ_SCOPE] subject \<and> pc_id c = i \<and>
    apme_append_audit (dep_procs D)
      \<lparr>aa_tenant_id = pc_tenant_id c, aa_action = ''access'', aa_actor = vs_shared_user_id subject,
       aa_resource_type = ''case'', aa_resource_id = i, aa_occurred_at = dep_clock D, aa_details = ''{}''\<rparr> d =
      Inr ((), store (app_cases s'))"
proof -
  from assms have "get_case_handler D i h s = (Inr (status, Case_body c), s')" by simp
  then show ?thesis by (rule get_handler_Inr) (auto simp: admitted_def access_audit_def)
qed

theorem case_reads_are_audited_witness:
  "\<exists>c s'. handle ref_deps (Get_request 1 ref_headers) case_app = (Inr (200, Case_body c), s') \<and> pc_id c = 1"
proof -
  have "handle ref_deps (Get_request 1 ref_headers) case_app = (Inr (200, Case_body sample_case), case_app)"
    by (simp add: http_eval service_eval sample_defs ref_defs)
  from case_reads_are_audited [OF this] this show ?thesis by blast
qed

text \<open>
  Errors look the same on both transports and leak nothing: the body's error code is the code
  the framed transport sends, only validation errors carry a message, every error has a status
  in the 4xx or 5xx range, and the detail of a storage failure does not reach the response.
\<close>

lemma error_responses_uniform:
  "fst (snd (error_response e)) = api_error_code e \<and>
   (snd (snd (error_response e)) \<noteq> None \<longleftrightarrow> api_error_code e = ''validation'') \<and>
   (fst (error_response e) = 503 \<longleftrightarrow> api_error_code e = ''temporarily_unavailable'') \<and>
   400 \<le> fst (error_response e) \<and> fst (error_response e) < 600 \<and>
   respond (Inl (Cases_error (Storage x))) = respond (Inl (Cases_error (Storage y)))"
  by (cases e rule: error_response.cases) (simp_all add: respond_def)

end
