(* ===== verification/Web_Socket.thy ===== *)
theory Web_Socket
  imports Http_Properties
begin

text \<open>
  The WebSocket side of \<^verbatim>\<open>src/main.rs\<close>: the subscription filter and the socket loop. One input is
  what one turn of the \<^verbatim>\<open>select!\<close> found ready (an item of the broadcast receiver or of the socket),
  together with whether a frame sent in that turn goes out; the loop is a recursion over the
  inputs in the order in which they became ready, so every interleaving of the two sources is a list of inputs.
  The serializer is a parameter.
\<close>

section \<open>Model\<close>

definition subscription_allows :: "case_subscription \<Rightarrow> tenant_event \<Rightarrow> bool" where
  "subscription_allows subscription event \<longleftrightarrow>
     cs_tenant_id subscription = te_tenant_id event \<and>
     (case cs_case_id subscription of None \<Rightarrow> True | Some case_id \<Rightarrow> case_id = te_case_id event)"

datatype client_message = Ping bytes | Close_frame | Other_frame

datatype socket_input =
    Event_received tenant_event
  | Events_lagged nat
  | Events_closed
  | Client_message client_message
  | Client_failed
  | Client_gone

datatype socket_frame = Text_frame string | Pong_frame bytes

text \<open>One turn: the frames that went out and whether the loop goes on.\<close>

fun socket_turn ::
  "(tenant_event \<Rightarrow> string option) \<Rightarrow> case_subscription \<Rightarrow> socket_input \<Rightarrow> bool \<Rightarrow> socket_frame list \<times> bool" where
  "socket_turn to_json subscription (Event_received event) sends =
     (if subscription_allows subscription event
      then (case to_json event of
              None \<Rightarrow> ([], False)
            | Some text \<Rightarrow> if sends then ([Text_frame text], True) else ([], False))
      else ([], True))"
| "socket_turn to_json subscription (Events_lagged _) sends = ([], True)"
| "socket_turn to_json subscription Events_closed sends = ([], False)"
| "socket_turn to_json subscription (Client_message (Ping data)) sends =
     (if sends then ([Pong_frame data], True) else ([], False))"
| "socket_turn to_json subscription (Client_message Close_frame) sends = ([], False)"
| "socket_turn to_json subscription (Client_message Other_frame) sends = ([], True)"
| "socket_turn to_json subscription Client_failed sends = ([], False)"
| "socket_turn to_json subscription Client_gone sends = ([], False)"

text \<open>The frames sent, and whether the loop is still waiting for input.\<close>

fun socket_loop ::
  "(tenant_event \<Rightarrow> string option) \<Rightarrow> case_subscription \<Rightarrow> (socket_input \<times> bool) list \<Rightarrow> socket_frame list \<times> bool" where
  "socket_loop to_json subscription [] = ([], True)"
| "socket_loop to_json subscription ((input, sends) # rest) =
     (case socket_turn to_json subscription input sends of
        (frames, False) \<Rightarrow> (frames, False)
      | (frames, True) \<Rightarrow>
          (case socket_loop to_json subscription rest of (later, running) \<Rightarrow> (frames @ later, running)))"

section \<open>What a client receives\<close>

definition stops :: "(tenant_event \<Rightarrow> string option) \<Rightarrow> case_subscription \<Rightarrow> socket_input \<times> bool \<Rightarrow> bool" where
  "stops to_json subscription i \<longleftrightarrow> \<not> snd (socket_turn to_json subscription (fst i) (snd i))"

fun events_received :: "(socket_input \<times> bool) list \<Rightarrow> tenant_event list" where
  "events_received [] = []"
| "events_received ((Event_received e, _) # rest) = e # events_received rest"
| "events_received (_ # rest) = events_received rest"

fun pings_received :: "(socket_input \<times> bool) list \<Rightarrow> bytes list" where
  "pings_received [] = []"
| "pings_received ((Client_message (Ping b), _) # rest) = b # pings_received rest"
| "pings_received (_ # rest) = pings_received rest"

fun texts :: "socket_frame list \<Rightarrow> string list" where
  "texts [] = []"
| "texts (Text_frame t # fs) = t # texts fs"
| "texts (Pong_frame _ # fs) = texts fs"

fun pongs :: "socket_frame list \<Rightarrow> bytes list" where
  "pongs [] = []"
| "pongs (Text_frame _ # fs) = pongs fs"
| "pongs (Pong_frame b # fs) = b # pongs fs"

lemma texts_append [simp]: "texts (xs @ ys) = texts xs @ texts ys"
  by (induction xs rule: texts.induct) simp_all

lemma pongs_append [simp]: "pongs (xs @ ys) = pongs xs @ pongs ys"
  by (induction xs rule: pongs.induct) simp_all

lemma texts_iff: "t \<in> set (texts fs) \<longleftrightarrow> Text_frame t \<in> set fs"
  by (induction fs rule: texts.induct) auto

lemma stopping_turn: "\<not> snd (socket_turn to_json sub i b) \<Longrightarrow> fst (socket_turn to_json sub i b) = []"
  by (cases "(to_json, sub, i, b)" rule: socket_turn.cases) (auto split: option.splits)

lemma turn_texts:
  "snd (socket_turn to_json sub i b) \<Longrightarrow>
     map Some (texts (fst (socket_turn to_json sub i b))) =
       map to_json (filter (subscription_allows sub) (events_received [(i, b)]))"
  by (cases "(to_json, sub, i, b)" rule: socket_turn.cases) (auto split: option.splits if_splits)

lemma turn_pongs:
  "snd (socket_turn to_json sub i b) \<Longrightarrow>
     pongs (fst (socket_turn to_json sub i b)) = pings_received [(i, b)]"
  by (cases "(to_json, sub, i, b)" rule: socket_turn.cases) (auto split: option.splits if_splits)

lemma events_received_Cons: "events_received (i # rest) = events_received [i] @ events_received rest"
  by (cases "i # rest" rule: events_received.cases) auto

lemma pings_received_Cons: "pings_received (i # rest) = pings_received [i] @ pings_received rest"
  by (cases "i # rest" rule: pings_received.cases) auto

lemma events_received_takeWhile:
  "e \<in> set (events_received (takeWhile p ins)) \<Longrightarrow> e \<in> set (events_received ins)"
proof (induction ins)
  case (Cons i rest)
  then show ?case
    using events_received_Cons [of i rest] events_received_Cons [of i "takeWhile p rest"]
    by (auto split: if_splits)
qed simp

lemma socket_loop_run:
  "map Some (texts (fst (socket_loop to_json sub ins))) =
     map to_json (filter (subscription_allows sub)
       (events_received (takeWhile (\<lambda>i. \<not> stops to_json sub i) ins))) \<and>
   pongs (fst (socket_loop to_json sub ins)) =
     pings_received (takeWhile (\<lambda>i. \<not> stops to_json sub i) ins) \<and>
   snd (socket_loop to_json sub ins) = list_all (\<lambda>i. \<not> stops to_json sub i) ins"
proof (induction ins)
  case (Cons x rest)
  obtain i b where x: "x = (i, b)" by (cases x)
  obtain frames go where turn: "socket_turn to_json sub i b = (frames, go)"
    by (cases "socket_turn to_json sub i b")
  show ?case
  proof (cases go)
    case True
    with turn have "map Some (texts frames) = map to_json (filter (subscription_allows sub) (events_received [(i, b)]))"
      and "pongs frames = pings_received [(i, b)]"
      using turn_texts [of to_json sub i b] turn_pongs [of to_json sub i b] by simp_all
    moreover obtain later running where "socket_loop to_json sub rest = (later, running)"
      by (cases "socket_loop to_json sub rest")
    ultimately show ?thesis using Cons True turn
      by (simp add: x stops_def events_received_Cons [of "(i, b)" "takeWhile _ rest"]
          pings_received_Cons [of "(i, b)" "takeWhile _ rest"]
          del: events_received.simps pings_received.simps)
  next
    case False
    with turn stopping_turn [of to_json sub i b] show ?thesis by (simp add: x stops_def)
  qed
qed simp

lemma socket_text_event:
  assumes "Text_frame t \<in> set (fst (socket_loop to_json sub ins))"
  obtains e where "e \<in> set (events_received ins)" "subscription_allows sub e" "to_json e = Some t"
proof -
  have "Some t \<in> set (map Some (texts (fst (socket_loop to_json sub ins))))"
    using assms by (simp add: texts_iff)
  then have "Some t \<in> set (map to_json (filter (subscription_allows sub)
      (events_received (takeWhile (\<lambda>i. \<not> stops to_json sub i) ins))))"
    using socket_loop_run [of to_json sub ins] by simp
  then show thesis using that by (auto dest: events_received_takeWhile)
qed

text \<open>
  C19. The socket loop forwards exactly what the subscription allows: the text frames are the
  serializations, in order and without omission, of the allowed events among the inputs before the first
  one that ends the loop; every ping before that point is answered by one pong with its payload; and the
  loop is still running exactly when no input ended it.
\<close>

theorem socket_loop_exact:
  "map Some (texts (fst (socket_loop to_json sub ins))) =
     map to_json (filter (subscription_allows sub)
       (events_received (takeWhile (\<lambda>i. \<not> stops to_json sub i) ins))) \<and>
   pongs (fst (socket_loop to_json sub ins)) =
     pings_received (takeWhile (\<lambda>i. \<not> stops to_json sub i) ins) \<and>
   snd (socket_loop to_json sub ins) = list_all (\<lambda>i. \<not> stops to_json sub i) ins"
  by (rule socket_loop_run)

section \<open>The handshake\<close>

text \<open>The state in which the server starts: a migrated database and an empty channel.\<close>

definition initial :: "'d app_state \<Rightarrow> bool" where
  "initial s \<longleftrightarrow> app_events s = []"

lemma published_at_most_one: "published result = [] \<or> (\<exists>e. published result = [e])"
  by (cases result rule: published.cases) simp_all

lemma handshake:
  assumes "handle D (Socket_request q h) s = (Inr (status, Upgraded sub), s')"
  shows "cs_tenant_id sub = wq_tenant_id q" and "cs_case_id sub = wq_case_id q"
    and "\<exists>subject role. grants_here D h [CASES_READ_SCOPE] subject \<and>
      member (wq_tenant_id q) (vs_shared_user_id subject) role (presented (app_cases s))"
    and "app_events s' = app_events s"
proof -
  from assms obtain subject c w where auth: "grants_here D h [CASES_READ_SCOPE] subject"
    and ctx: "tenant_context subject (wq_tenant_id q) (app_cases s) = (Inr c, w)"
    and sub: "sub = \<lparr>cs_tenant_id = wq_tenant_id q, cs_case_id = wq_case_id q\<rparr>" and s': "s' = s\<lparr>app_cases := w\<rparr>"
    by (auto simp: websocket_handler_def result_simps authenticate_def authenticate_grants)
  show "cs_tenant_id sub = wq_tenant_id q" "cs_case_id sub = wq_case_id q" "app_events s' = app_events s"
    using sub s' by simp_all
  show "\<exists>subject role. grants_here D h [CASES_READ_SCOPE] subject \<and>
      member (wq_tenant_id q) (vs_shared_user_id subject) role (presented (app_cases s))"
    using auth tenant_context_Inr(2) [OF ctx] by blast
qed

end
