(* ===== verification/Cors.thy ===== *)
theory Cors
  imports Http_Api
begin

text \<open>
  The browser origin policy of \<^verbatim>\<open>src/main.rs\<close>: reading \<^verbatim>\<open>CORS_ALLOWED_ORIGINS\<close>, parsing it into exact
  origins and the layer built from them. The conversion of a string to a header value is that of
  the HTTP library (\<open>header_from_str\<close>); the layer is the data handed to the middleware.
\<close>

section \<open>Model\<close>

definition DEFAULT_DEV_ORIGINS :: string where
  "DEFAULT_DEV_ORIGINS = ''http://127.0.0.1:3000,http://localhost:3000''"

datatype cors_error = Invalid_input string | Invalid_header_value

definition comma :: char where
  "comma = CHR '',''"

definition candidates :: "string \<Rightarrow> string list" where
  "candidates raw = filter (\<lambda>origin. origin \<noteq> []) (map trim (split_on comma raw))"

definition origin_authority :: "string \<Rightarrow> string option" where
  "origin_authority origin =
     (case strip_prefix ''https://'' origin of
        Some a \<Rightarrow> Some a
      | None \<Rightarrow> strip_prefix ''http://'' origin)"

definition parse_origin :: "http_values \<Rightarrow> string \<Rightarrow> cors_error + bytes" where
  "parse_origin H origin =
     (if origin = ''*'' then Inl (Invalid_input ''wildcard CORS origins are not allowed'')
      else
        and_then
          (ok_or (Invalid_input (''CORS origin must use http or https: '' @ origin)) (origin_authority origin))
          (\<lambda>authority.
             if authority = [] \<or> str_contains ''/'' authority \<or> str_contains ''?'' authority \<or>
                str_contains ''#'' authority
             then Inl (Invalid_input
               (''CORS origin must not contain a path, query, or fragment: '' @ origin))
             else ok_or Invalid_header_value (header_from_str H origin)))"

definition parse_allowed_origins :: "http_values \<Rightarrow> string \<Rightarrow> cors_error + bytes list" where
  "parse_allowed_origins H raw =
     (if candidates raw = []
      then Inl (Invalid_input ''CORS_ALLOWED_ORIGINS must contain at least one origin'')
      else try_map (parse_origin H) (candidates raw))"

record cors_layer =
  cl_origins :: "bytes list"
  cl_methods :: "http_method list"
  cl_headers :: "string list"

definition cors_layer_of :: "http_values \<Rightarrow> string \<Rightarrow> cors_error + cors_layer" where
  "cors_layer_of H raw =
     and_then (parse_allowed_origins H raw) (\<lambda>origins.
       Inr \<lparr>cl_origins = origins, cl_methods = [GET, POST],
            cl_headers = [''authorization'', ''content-type'', TENANT_HEADER, IDEMPOTENCY_HEADER]\<rparr>)"

definition production :: "env_vars \<Rightarrow> bool" where
  "production env =
     (case env ''APP_ENV'' of None \<Rightarrow> False | Some v \<Rightarrow> eq_ignore_ascii_case v ''production'')"

definition cors_layer_from_env :: "http_values \<Rightarrow> env_vars \<Rightarrow> cors_error + cors_layer" where
  "cors_layer_from_env H env =
     (case env ''CORS_ALLOWED_ORIGINS'' of
        Some raw \<Rightarrow> cors_layer_of H raw
      | None \<Rightarrow>
          if production env
          then Inl (Invalid_input ''CORS_ALLOWED_ORIGINS is required when APP_ENV=production'')
          else cors_layer_of H DEFAULT_DEV_ORIGINS)"

section \<open>Exact origins\<close>

text \<open>A scheme, a nonempty authority, and nothing after it.\<close>

definition exact_origin :: "string \<Rightarrow> bool" where
  "exact_origin origin \<longleftrightarrow>
     (\<exists>scheme authority. scheme \<in> {''https://'', ''http://''} \<and> origin = scheme @ authority \<and>
        authority \<noteq> [] \<and> set authority \<inter> {CHR ''/'', CHR ''?'', CHR ''#''} = {})"

lemma str_contains_char: "str_contains [c] s \<longleftrightarrow> c \<in> set s"
  by (induction s) auto

lemma origin_authority_iff:
  "origin_authority origin = Some a \<longleftrightarrow> origin = ''https://'' @ a \<or> origin = ''http://'' @ a"
proof (cases "strip_prefix ''https://'' origin")
  case None
  then have "origin \<noteq> ''https://'' @ a" using strip_prefix_append by fastforce
  with None show ?thesis unfolding origin_authority_def by (simp add: strip_prefix_iff del: append_Cons)
next
  case (Some b)
  then have "origin = ''https://'' @ b" by (simp add: strip_prefix_iff)
  with Some show ?thesis unfolding origin_authority_def by auto
qed

lemma exact_origin_iff:
  "exact_origin origin \<longleftrightarrow>
     (\<exists>a. origin_authority origin = Some a \<and> a \<noteq> [] \<and> set a \<inter> {CHR ''/'', CHR ''?'', CHR ''#''} = {})"
  unfolding exact_origin_def origin_authority_iff by blast

lemma parse_origin_iff: "parse_origin H origin = Inr v \<longleftrightarrow> exact_origin origin \<and> header_from_str H origin = Some v"
proof -
  have "origin_authority ''*'' = None" by (simp add: origin_authority_def)
  then have "exact_origin origin \<Longrightarrow> origin \<noteq> ''*''" by (auto simp: exact_origin_iff)
  then show ?thesis
    by (auto simp: parse_origin_def result_simps exact_origin_iff str_contains_char)
qed

lemma exact_origin_not_wildcard: "exact_origin origin \<Longrightarrow> origin \<noteq> ''*''"
  by (auto simp: exact_origin_def)

section \<open>Properties\<close>

text \<open>
  C30. The origin parser accepts exactly the lists of exact origins: it succeeds if and only if at
  least one candidate remains after splitting at commas, trimming and dropping empty
  entries, and every candidate is an http or https scheme followed by a nonempty authority without
  path, query or fragment that converts to a header value; the result is the list of those
  values in order.
\<close>

theorem parse_allowed_origins_iff:
  "parse_allowed_origins H raw = Inr origins \<longleftrightarrow>
     candidates raw \<noteq> [] \<and>
     list_all2 (\<lambda>org v. exact_origin org \<and> header_from_str H org = Some v) (candidates raw) origins"
  by (simp add: parse_allowed_origins_def try_map_Inr_iff parse_origin_iff)

lemma candidates_join:
  assumes "os \<noteq> []" and "\<forall>org \<in> set os. org \<noteq> [] \<and> comma \<notin> set org \<and> trim org = org"
  shows "candidates (join_with comma os) = os"
proof -
  have "map trim os = os" using assms(2) by (induction os) simp_all
  moreover have "filter (\<lambda>origin. origin \<noteq> []) os = os" using assms(2) by (induction os) simp_all
  ultimately show ?thesis using assms by (simp add: candidates_def split_join)
qed

text \<open>
  Round trip: joining exact origins with commas and parsing the result gives back the header
  values of exactly these origins, in order.
\<close>

lemma parse_allowed_origins_join:
  assumes "os \<noteq> []" and "\<forall>org \<in> set os. exact_origin org \<and> comma \<notin> set org \<and> trim org = org"
    and "\<forall>org \<in> set os. header_from_str H org = Some org"
  shows "parse_allowed_origins H (join_with comma os) = Inr os"
proof -
  have "\<forall>org \<in> set os. org \<noteq> [] \<and> comma \<notin> set org \<and> trim org = org"
    using assms(2) by (auto simp: exact_origin_def)
  note cand = candidates_join [OF assms(1) this]
  have "try_map (parse_origin H) os = Inr (map id os)"
    using assms(2,3) by (intro try_map_total) (simp add: parse_origin_iff)
  with assms(1) show ?thesis by (simp add: parse_allowed_origins_def cand)
qed

text \<open>
  The policy that starts with the server is closed: every origin in it is an exact http or
  https origin (never the wildcard), the methods are GET and POST, the headers are the four the
  API reads, and in production it exists only when \<^verbatim>\<open>CORS_ALLOWED_ORIGINS\<close> is set.
\<close>

lemma cors_policy_closed:
  assumes "cors_layer_from_env H env = Inr layer"
  shows "cl_origins layer \<noteq> [] \<and>
    (\<forall>v \<in> set (cl_origins layer). \<exists>org. exact_origin org \<and> org \<noteq> ''*'' \<and> header_from_str H org = Some v) \<and>
    cl_methods layer = [GET, POST] \<and>
    cl_headers layer = [''authorization'', ''content-type'', ''x-apme-tenant-id'', ''idempotency-key''] \<and>
    (production env \<longrightarrow> (\<exists>raw. env ''CORS_ALLOWED_ORIGINS'' = Some raw))"
proof -
  from assms obtain raw where layer: "cors_layer_of H raw = Inr layer"
    and prod: "production env \<longrightarrow> (\<exists>raw. env ''CORS_ALLOWED_ORIGINS'' = Some raw)"
    by (auto simp: cors_layer_from_env_def split: option.splits if_splits)
  from layer obtain origins where origins: "parse_allowed_origins H raw = Inr origins"
    and eq: "layer = \<lparr>cl_origins = origins, cl_methods = [GET, POST],
      cl_headers = [''authorization'', ''content-type'', TENANT_HEADER, IDEMPOTENCY_HEADER]\<rparr>"
    by (auto simp: cors_layer_of_def result_simps)
  from origins have "try_map (parse_origin H) (candidates raw) = Inr origins" "candidates raw \<noteq> []"
    by (auto simp: parse_allowed_origins_def split: if_splits)
  then have "origins \<noteq> []" and "\<forall>v \<in> set origins. \<exists>org. parse_origin H org = Inr v"
    by (auto dest: try_map_length try_map_set)
  with eq prod show ?thesis
    by (auto simp: parse_origin_iff TENANT_HEADER_def IDEMPOTENCY_HEADER_def dest: exact_origin_not_wildcard)
qed

end
