(* ===== verification/Tcp_Transport.thy ===== *)
theory Tcp_Transport
  imports Http_Properties
begin

text \<open>
  The framed mTLS transport of \<^verbatim>\<open>src/transport.rs\<close> (module \<^verbatim>\<open>tcp\<close>): its configuration, the TLS setup, the
  execution of one frame, the loop of one connection and the accept loop with its permits. JSON,
  the length-delimited codec, PEM parsing and rustls are parameters; an \<^verbatim>\<open>anyhow\<close> error is the text
  of its outermost context.
\<close>

section \<open>Configuration\<close>

definition MAX_REQUEST_BYTES :: nat where
  "MAX_REQUEST_BYTES = 20 * 1024"

definition MAX_RESPONSE_BYTES :: nat where
  "MAX_RESPONSE_BYTES = 64 * 1024"

definition DEFAULT_MAX_CONNECTIONS :: nat where
  "DEFAULT_MAX_CONNECTIONS = 128"

definition DEFAULT_MAX_REQUESTS :: nat where
  "DEFAULT_MAX_REQUESTS = 64"

definition DEFAULT_IDLE_SECONDS :: nat where
  "DEFAULT_IDLE_SECONDS = 15"

record tcp_config =
  tcp_bind :: string
  certificate_path :: string
  private_key_path :: string
  client_ca_path :: string
  tcp_max_connections :: nat
  max_requests_per_connection :: nat
  idle_timeout_secs :: nat

definition optional_env :: "env_vars \<Rightarrow> string \<Rightarrow> string option" where
  "optional_env env name = filter_opt (\<lambda>value. value \<noteq> []) (map_option trim (env name))"

definition required_path :: "env_vars \<Rightarrow> string \<Rightarrow> string + string" where
  "required_path env name = ok_or (name @ '' is required when mTLS is enabled'') (optional_env env name)"

definition bounded_env :: "env_vars \<Rightarrow> string \<Rightarrow> nat \<Rightarrow> nat \<Rightarrow> nat \<Rightarrow> string + nat" where
  "bounded_env env name default_value minimum maximum =
     and_then
       (case optional_env env name of
          Some value \<Rightarrow> ok_or (name @ '' must be an integer'') (parse_usize value)
        | None \<Rightarrow> Inr default_value)
       (\<lambda>value.
          if minimum \<le> value \<and> value \<le> maximum then Inr value else Inl (name @ '' is out of bounds''))"

definition tcp_config_from_env :: "env_vars \<Rightarrow> string + tcp_config option" where
  "tcp_config_from_env env =
     (case optional_env env ''APME_API_TCP_BIND'' of
        None \<Rightarrow> Inr None
      | Some bind \<Rightarrow>
          and_then (required_path env ''APME_API_TCP_TLS_CERT_FILE'') (\<lambda>certificate.
          and_then (required_path env ''APME_API_TCP_TLS_KEY_FILE'') (\<lambda>key.
          and_then (required_path env ''APME_API_TCP_CLIENT_CA_FILE'') (\<lambda>client_ca.
          and_then (bounded_env env ''APME_API_TCP_MAX_CONNECTIONS'' DEFAULT_MAX_CONNECTIONS 1 4096) (\<lambda>connections.
          and_then (bounded_env env ''APME_API_TCP_MAX_REQUESTS_PER_CONNECTION'' DEFAULT_MAX_REQUESTS 1 4096) (\<lambda>requests.
          and_then (bounded_env env ''APME_API_TCP_IDLE_TIMEOUT_SECONDS'' DEFAULT_IDLE_SECONDS 1 300) (\<lambda>idle.
          Inr (Some \<lparr>tcp_bind = bind, certificate_path = certificate, private_key_path = key,
            client_ca_path = client_ca, tcp_max_connections = connections,
            max_requests_per_connection = requests, idle_timeout_secs = idle\<rparr>))))))))"

section \<open>TLS\<close>

text \<open>
  What the TLS setup calls: opening a file, the two PEM readers, adding a root, building the
  client verifier and joining chain and key.
\<close>

record ('cert, 'key, 'root, 'verifier, 'tls) tls_library =
  open_file :: "string \<Rightarrow> bytes option"
  pem_certs :: "bytes \<Rightarrow> 'cert list option"
  pem_private_key :: "bytes \<Rightarrow> 'key option option"
  add_root :: "'cert \<Rightarrow> 'root option"
  client_verifier :: "'root list \<Rightarrow> 'verifier option"
  single_cert :: "'verifier \<Rightarrow> 'cert list \<Rightarrow> 'key \<Rightarrow> 'tls option"

definition load_tls_config ::
  "('cert, 'key, 'root, 'verifier, 'tls) tls_library \<Rightarrow> tcp_config \<Rightarrow> string + 'tls" where
  "load_tls_config T config =
     and_then (ok_or ''open mTLS server certificate'' (open_file T (certificate_path config))) (\<lambda>certificate_file.
     and_then (ok_or ''parse mTLS server certificate'' (pem_certs T certificate_file)) (\<lambda>certificates.
     and_then (ensure (certificates \<noteq> []) ''server certificate chain is empty'') (\<lambda>_.
     and_then (ok_or ''open mTLS server key'' (open_file T (private_key_path config))) (\<lambda>key_file.
     and_then (ok_or ''parse mTLS server key'' (pem_private_key T key_file)) (\<lambda>key.
     and_then (ok_or ''mTLS server key is missing'' key) (\<lambda>private_key.
     and_then (ok_or ''open mTLS client CA'' (open_file T (client_ca_path config))) (\<lambda>ca_file.
     and_then (ok_or ''parse mTLS client CA'' (pem_certs T ca_file)) (\<lambda>client_cas.
     and_then (ensure (client_cas \<noteq> []) ''client CA bundle is empty'') (\<lambda>_.
     and_then (try_map (\<lambda>c. ok_or ''invalid mTLS client CA'' (add_root T c)) client_cas) (\<lambda>roots.
     and_then (ok_or ''build mandatory client-certificate verifier'' (client_verifier T roots)) (\<lambda>verifier.
     ok_or ''mTLS certificate and key do not match'' (single_cert T verifier certificates private_key))))))))))))"

section \<open>Frames\<close>

datatype operation = ListCases

record frame_request =
  fr_request_id :: uuid
  fr_tenant_id :: uuid
  fr_bearer_token :: string
  fr_operation :: operation

datatype frame_payload = Cases_payload "persisted_case list" string

record frame_response =
  fp_request_id :: uuid
  fp_status :: string
  fp_payload :: "frame_payload option"
  fp_error :: "string option"

text \<open>
  The serializer and the codec as the connection uses them: parsing a request, printing a
  response, and the decoder and encoder of a codec built with a maximal frame length.
\<close>

record wire =
  parse_request :: "bytes \<Rightarrow> frame_request option"
  print_response :: "frame_response \<Rightarrow> bytes option"
  decode_frame :: "nat \<Rightarrow> bytes \<Rightarrow> bytes option"
  encode_frame :: "nat \<Rightarrow> bytes \<Rightarrow> bytes option"

definition encoding_failed :: bytes where
  "encoding_failed = ''{\"status\":\"error\",\"error\":\"encoding_failed\"}''"

definition encode_failure :: "wire \<Rightarrow> uuid \<Rightarrow> string \<Rightarrow> bytes" where
  "encode_failure W request_id error =
     (case print_response W
        \<lparr>fp_request_id = request_id, fp_status = ''error'', fp_payload = None, fp_error = Some error\<rparr> of
        Some b \<Rightarrow> b
      | None \<Rightarrow> encoding_failed)"

definition ok_response :: "frame_request \<Rightarrow> persisted_case list \<Rightarrow> frame_response" where
  "ok_response request cs =
     \<lparr>fp_request_id = fr_request_id request, fp_status = ''ok'',
      fp_payload = Some (Cases_payload cs ''stateful_mtls_tcp''), fp_error = None\<rparr>"

definition execute ::
  "wire \<Rightarrow> 'x database_scheme deps \<Rightarrow> bytes \<Rightarrow> 'x database_scheme world \<Rightarrow> bytes \<times> 'x database_scheme world" where
  "execute W D frame w =
     (case parse_request W frame of
        None \<Rightarrow> (encode_failure W 0 ''invalid_request'', w)
      | Some request \<Rightarrow>
          (case authorize_token D (fr_bearer_token request) (fr_tenant_id request) [CASES_READ_SCOPE] w of
             (Inl error, w1) \<Rightarrow> (encode_failure W (fr_request_id request) (api_error_code error), w1)
           | (Inr (_, context), w1) \<Rightarrow>
               (case fr_operation request of
                  ListCases \<Rightarrow>
                    (case list_cases context w1 of
                       (Inl _, w2) \<Rightarrow> (encode_failure W (fr_request_id request) ''temporarily_unavailable'', w2)
                     | (Inr cs, w2) \<Rightarrow>
                         (case filter_opt (\<lambda>value. length value \<le> MAX_RESPONSE_BYTES)
                                 (print_response W (ok_response request cs)) of
                            Some value \<Rightarrow> (value, w2)
                          | None \<Rightarrow> (encode_failure W (fr_request_id request) ''response_too_large'', w2))))))"

section \<open>One connection\<close>

text \<open>
  Time is counted in milliseconds. A future of the peer either completes after some delay or never;
  \<open>timeout\<close> is that of tokio: the value if it is there by the deadline, and how long the caller waited.
\<close>

datatype 'a delayed = Never | After nat 'a

fun timeout :: "nat \<Rightarrow> 'a delayed \<Rightarrow> 'a option \<times> nat" where
  "timeout limit Never = (None, limit)"
| "timeout limit (After d x) = (if d \<le> limit then (Some x, d) else (None, limit))"

text \<open>
  One turn of the loop as the environment decides it: when and how the next read completes, how long executing the
  frame takes, when and how the write completes. After the turns that are listed the peer is silent.
\<close>

datatype frame_read = Read_closed | Read_failed | Incoming bytes

datatype frame_write = Write_done | Write_failed

record turn =
  turn_read :: "frame_read delayed"
  turn_busy :: nat
  turn_write :: "frame_write delayed"

definition silent_turn :: turn where
  "silent_turn = \<lparr>turn_read = Never, turn_busy = 0, turn_write = Never\<rparr>"

datatype connection_end = Request_limit | Peer_closed | Failed string | Send_error

text \<open>The body of the loop: it ends the connection or has sent a response; with the time it took.\<close>

definition serve_turn ::
  "wire \<Rightarrow> 'x database_scheme deps \<Rightarrow> nat \<Rightarrow> turn \<Rightarrow> 'x database_scheme world \<Rightarrow>
     (connection_end + bytes) \<times> nat \<times> 'x database_scheme world" where
  "serve_turn W D idle_timeout turn w =
     (case timeout idle_timeout (turn_read turn) of
        (None, t) \<Rightarrow> (Inl (Failed ''mTLS connection idle timeout''), t, w)
      | (Some Read_closed, t) \<Rightarrow> (Inl Peer_closed, t, w)
      | (Some Read_failed, t) \<Rightarrow> (Inl (Failed ''read bounded mTLS frame''), t, w)
      | (Some (Incoming raw), t) \<Rightarrow>
          (case decode_frame W MAX_REQUEST_BYTES raw of
             None \<Rightarrow> (Inl (Failed ''read bounded mTLS frame''), t, w)
           | Some frame \<Rightarrow>
               (case execute W D frame w of (response, w1) \<Rightarrow>
                  if response = [] \<or> \<not> length response \<le> MAX_RESPONSE_BYTES
                  then (Inl (Failed ''invalid response frame length''), t + turn_busy turn, w1)
                  else
                    (case encode_frame W MAX_REQUEST_BYTES response of
                       None \<Rightarrow> (Inl Send_error, t + turn_busy turn, w1)
                     | Some _ \<Rightarrow>
                         (case timeout idle_timeout (turn_write turn) of
                            (None, u) \<Rightarrow> (Inl (Failed ''mTLS response timeout''), t + turn_busy turn + u, w1)
                          | (Some Write_failed, u) \<Rightarrow> (Inl Send_error, t + turn_busy turn + u, w1)
                          | (Some Write_done, u) \<Rightarrow> (Inr response, t + turn_busy turn + u, w1))))))"

primrec serve_requests ::
  "wire \<Rightarrow> 'x database_scheme deps \<Rightarrow> nat \<Rightarrow> nat \<Rightarrow> turn list \<Rightarrow> 'x database_scheme world \<Rightarrow>
     connection_end \<times> bytes list \<times> nat \<times> 'x database_scheme world" where
  "serve_requests W D idle_timeout 0 turns w = (Request_limit, [], 0, w)"
| "serve_requests W D idle_timeout (Suc n) turns w =
     (case serve_turn W D idle_timeout (case turns of [] \<Rightarrow> silent_turn | turn # _ \<Rightarrow> turn) w of
        (Inl ended, t, w1) \<Rightarrow> (ended, [], t, w1)
      | (Inr response, t, w1) \<Rightarrow>
          (case serve_requests W D idle_timeout n (tl turns) w1 of
             (ended, sent, u, w2) \<Rightarrow> (ended, response # sent, t + u, w2)))"

definition idle_timeout :: "tcp_config \<Rightarrow> nat" where
  "idle_timeout config = 1000 * idle_timeout_secs config"

definition serve_connection ::
  "wire \<Rightarrow> 'x database_scheme deps \<Rightarrow> tcp_config \<Rightarrow> turn list \<Rightarrow> 'x database_scheme world \<Rightarrow>
     connection_end \<times> bytes list \<times> nat \<times> 'x database_scheme world" where
  "serve_connection W D config turns w =
     serve_requests W D (idle_timeout config) (max_requests_per_connection config) turns w"

text \<open>
  The task that is spawned for a connection: it awaits the TLS handshake, which completes after some time with or without
  success, or never; then it serves the connection. \<open>None\<close> is a task that never gets past the handshake.
\<close>

definition connection_task ::
  "wire \<Rightarrow> 'x database_scheme deps \<Rightarrow> tcp_config \<Rightarrow> bool delayed \<Rightarrow> turn list \<Rightarrow> 'x database_scheme world \<Rightarrow>
     (nat \<times> (connection_end \<times> bytes list \<times> nat \<times> 'x database_scheme world) option) option" where
  "connection_task W D config accept turns w =
     (case accept of
        Never \<Rightarrow> None
      | After d completed \<Rightarrow> Some (d, if completed then Some (serve_connection W D config turns w) else None))"

section \<open>The accept loop\<close>

text \<open>
  Connections are numbered in the order the listener hands them out. A connection that gets a permit is spawned: it
  first completes the TLS handshake, then is served; its permit returns when its task ends.
\<close>

datatype phase = Handshaking | Serving

record tcp_server =
  listening :: bool
  permits :: nat
  accepted :: nat
  tasks :: "(nat \<times> phase) list"

datatype tcp_event =
    Accepted
  | Accept_failed
  | Handshake_ended nat bool
  | Serving_ended nat
  | Shutdown_changed
  | Shutdown_channel_closed

definition server_start :: "nat \<Rightarrow> tcp_server" where
  "server_start limit = \<lparr>listening = True, permits = limit, accepted = 0, tasks = []\<rparr>"

definition end_task :: "nat \<Rightarrow> tcp_server \<Rightarrow> tcp_server" where
  "end_task c s = s\<lparr>permits := permits s + 1, tasks := filter (\<lambda>t. fst t \<noteq> c) (tasks s)\<rparr>"

fun serve_event :: "tcp_server \<Rightarrow> tcp_event \<Rightarrow> tcp_server" where
  "serve_event s Accepted =
     (if \<not> listening s then s
      else if permits s = 0 then s\<lparr>accepted := accepted s + 1\<rparr>
      else s\<lparr>accepted := accepted s + 1, permits := permits s - 1,
             tasks := (accepted s, Handshaking) # tasks s\<rparr>)"
| "serve_event s Accept_failed = s\<lparr>listening := False\<rparr>"
| "serve_event s (Handshake_ended c completed) =
     (if (c, Handshaking) \<notin> set (tasks s) then s
      else if completed
      then s\<lparr>tasks := map (\<lambda>t. if t = (c, Handshaking) then (c, Serving) else t) (tasks s)\<rparr>
      else end_task c s)"
| "serve_event s (Serving_ended c) = (if (c, Serving) \<in> set (tasks s) then end_task c s else s)"
| "serve_event s Shutdown_changed = s\<lparr>listening := False\<rparr>"
| "serve_event s Shutdown_channel_closed = s\<lparr>listening := False\<rparr>"

definition serve_events :: "tcp_server \<Rightarrow> tcp_event list \<Rightarrow> tcp_server" where
  "serve_events = foldl serve_event"

end
