(* ===== verification/Effects.thy ===== *)
theory Effects
  imports Case_Contracts
begin

text \<open>
  What the operations of the case service do to the database when no other connection writes: reads leave it
  alone, a mutation changes it by at most the one statement it prepared, whatever it returns and wherever the
  connection fails.
\<close>

section \<open>Actions that read and actions that issue a statement\<close>

definition only_reads :: "'d world \<Rightarrow> 'd world \<Rightarrow> bool" where
  "only_reads w w' \<longleftrightarrow> (quiet w \<longrightarrow> quiet w' \<and> store w' = store w)"

definition at_most :: "('d \<Rightarrow> 'd \<Rightarrow> bool) \<Rightarrow> 'd world \<Rightarrow> 'd world \<Rightarrow> bool" where
  "at_most R w w' \<longleftrightarrow> (quiet w \<longrightarrow> quiet w' \<and> (store w' = store w \<or> R (store w) (store w')))"

lemma only_reads_refl: "reflp only_reads" and only_reads_trans: "transp only_reads"
  by (auto simp: only_reads_def reflp_def transp_def)

lemma at_most_refl: "reflp (at_most R)"
  by (auto simp: at_most_def reflp_def)

lemma at_most_mono: "keeps (at_most R) m \<Longrightarrow> (\<And>d d'. R d d' \<Longrightarrow> R' d d') \<Longrightarrow> keeps (at_most R') m"
  by (auto simp: keeps_def at_most_def)

lemma only_reads_at_most: "keeps only_reads m \<Longrightarrow> keeps (at_most R) m"
  by (auto simp: keeps_def at_most_def only_reads_def)

lemma quiet_tail: "quiet w \<Longrightarrow> agenda w' = tl (agenda w) \<Longrightarrow> quiet w'"
  by (cases "agenda w") (auto simp: quiet_def)

lemma db_call_tail: "db_call q w = (r, w') \<Longrightarrow> agenda w' = tl (agenda w)"
  by (cases r) (auto dest: db_call_Inl(3) db_call_Inr(2))

lemma query_reads: "keeps only_reads (db_call (query q))"
  by (rule keepsI)
    (auto simp: only_reads_def quiet_presented db_call_query_store intro: quiet_tail db_call_tail)

lemma statement_writes: "keeps (at_most (\<lambda>d d'. \<exists>x. st d = Inr (x, d'))) (db_call st)"
proof (rule keepsI)
  fix w r w'
  assume run: "db_call st w = (r, w')"
  show "at_most (\<lambda>d d'. \<exists>x. st d = Inr (x, d')) w w'"
    using db_call_tail [OF run] db_call_Inl(1) [of st w _ w'] db_call_Inr(1) [of st w _ w'] run
    by (cases r) (auto simp: at_most_def quiet_presented dest: quiet_tail)
qed

lemma write_then_read: "keeps (at_most R) m \<Longrightarrow> (\<And>x. keeps only_reads (f x)) \<Longrightarrow> keeps (at_most R) (bind_try m f)"
  by (rule keeps_bind_rel [where R = "at_most R" and S = only_reads]) (auto simp: at_most_def only_reads_def)

lemma read_then_write: "keeps only_reads m \<Longrightarrow> (\<And>x. keeps (at_most R) (f x)) \<Longrightarrow> keeps (at_most R) (bind_try m f)"
  by (rule keeps_bind_rel [where R = only_reads and S = "at_most R"]) (auto simp: at_most_def only_reads_def)

lemmas reads_intros = query_reads keeps_map_err keeps_bind [OF only_reads_trans]
  keeps_lift [OF only_reads_refl] keeps_pure [OF only_reads_refl]

section \<open>The operations of the service\<close>

lemma tenant_context_only_reads: "keeps only_reads (tenant_context subject tenant)"
  unfolding tenant_context_def by (intro reads_intros)

lemma get_case_only_reads: "keeps only_reads (get_case c i)"
  unfolding get_case_def by (intro reads_intros)

lemma list_cases_only_reads: "keeps only_reads (list_cases c)"
  unfolding list_cases_def by (intro reads_intros)

lemma mutation_result_only_reads: "keeps only_reads (mutation_result c row)"
  unfolding mutation_result_def by (intro reads_intros get_case_only_reads)

lemma commit_mutation_writes: "keeps (at_most (\<lambda>d d'. \<exists>row. st d = Inr (row, d'))) (commit_mutation c st)"
  unfolding commit_mutation_def
  by (intro write_then_read keeps_map_err statement_writes mutation_result_only_reads)

text \<open>A mutation writes at most the statement it prepared.\<close>

context prepared_mutation
begin

lemma run_writes: "keeps (at_most (\<lambda>d d'. \<exists>st row. prepare c q = Inr st \<and> st d = Inr (row, d'))) (run c q)"
proof (cases "prepare c q")
  case (Inl e)
  then show ?thesis by (auto simp: keeps_def at_most_def run_prepared)
next
  case (Inr st)
  then have "run c q = commit_mutation c st" by (simp add: run_prepared fun_eq_iff)
  with Inr commit_mutation_writes [of st c] show ?thesis by simp
qed

end

end
