(* ===== verification/Tcp_Properties.thy ===== *)
theory Tcp_Properties
  imports Tcp_Transport Effects
begin

text \<open>
  What the framed transport guarantees: a configuration is complete and within bounds or startup
  fails, client certificates are mandatory, every frame is authorized afresh with its own token for its
  own tenant, the transport only reads, and connections are bounded. One limit of the code is also
  proved: handshakes have no deadline.
\<close>

section \<open>Configuration and TLS\<close>

lemma optional_env_Some_iff: "optional_env env name = Some v \<longleftrightarrow> (\<exists>raw. env name = Some raw \<and> v = trim raw \<and> v \<noteq> [])"
  by (auto simp: optional_env_def result_simps)

lemma bounded_env_Inr:
  "bounded_env env name def lo hi = Inr v \<longleftrightarrow>
     lo \<le> v \<and> v \<le> hi \<and>
     (case optional_env env name of None \<Rightarrow> v = def | Some raw \<Rightarrow> parse_usize raw = Some v)"
  by (auto simp: bounded_env_def result_simps split: option.splits if_splits)

text \<open>
  The transport is configured completely and within bounds, or startup fails: without a bind address it is
  disabled; otherwise a configuration results exactly when the certificate, key and client CA
  paths are all set and each of the three limits is absent or a number within its range, and then its fields are those
  values, with the documented defaults.
\<close>

lemma tcp_config_iff:
  "(tcp_config_from_env env = Inr None \<longleftrightarrow> optional_env env ''APME_API_TCP_BIND'' = None) \<and>
   (tcp_config_from_env env = Inr (Some c) \<longleftrightarrow>
      optional_env env ''APME_API_TCP_BIND'' = Some (tcp_bind c) \<and>
      optional_env env ''APME_API_TCP_TLS_CERT_FILE'' = Some (certificate_path c) \<and>
      optional_env env ''APME_API_TCP_TLS_KEY_FILE'' = Some (private_key_path c) \<and>
      optional_env env ''APME_API_TCP_CLIENT_CA_FILE'' = Some (client_ca_path c) \<and>
      tcp_max_connections c \<in> {1..4096} \<and> max_requests_per_connection c \<in> {1..4096} \<and>
      idle_timeout_secs c \<in> {1..300} \<and>
      (case optional_env env ''APME_API_TCP_MAX_CONNECTIONS'' of
         None \<Rightarrow> tcp_max_connections c = 128 | Some v \<Rightarrow> parse_usize v = Some (tcp_max_connections c)) \<and>
      (case optional_env env ''APME_API_TCP_MAX_REQUESTS_PER_CONNECTION'' of
         None \<Rightarrow> max_requests_per_connection c = 64
       | Some v \<Rightarrow> parse_usize v = Some (max_requests_per_connection c)) \<and>
      (case optional_env env ''APME_API_TCP_IDLE_TIMEOUT_SECONDS'' of
         None \<Rightarrow> idle_timeout_secs c = 15 | Some v \<Rightarrow> parse_usize v = Some (idle_timeout_secs c)))"
proof (cases "optional_env env ''APME_API_TCP_BIND''")
  case None
  then show ?thesis by (simp add: tcp_config_from_env_def)
next
  case (Some bind)
  then show ?thesis
    by (cases c)
      (auto simp: tcp_config_from_env_def result_simps required_path_def bounded_env_Inr
        DEFAULT_MAX_CONNECTIONS_def DEFAULT_MAX_REQUESTS_def DEFAULT_IDLE_SECONDS_def split: option.splits)
qed

lemma tcp_config_limits:
  assumes "tcp_config_from_env env = Inr (Some c)"
  shows "tcp_max_connections c \<in> {1..4096} \<and> max_requests_per_connection c \<in> {1..4096} \<and> idle_timeout_secs c \<in> {1..300}"
  using assms
  by (cases "optional_env env ''APME_API_TCP_BIND''")
    (auto simp: tcp_config_from_env_def result_simps bounded_env_Inr)

text \<open>
  C34. Client certificates are mandatory: a TLS configuration is produced only by a verifier built
  from a nonempty list of roots, namely all the certificates of the configured client CA file, together
  with a nonempty server chain and a key.
\<close>

theorem tls_demands_client_certificates:
  assumes "load_tls_config T config = Inr tls"
  shows "\<exists>ca_file cas roots verifier chain key.
    open_file T (client_ca_path config) = Some ca_file \<and> pem_certs T ca_file = Some cas \<and> cas \<noteq> [] \<and>
    list_all2 (\<lambda>c root. add_root T c = Some root) cas roots \<and> roots \<noteq> [] \<and>
    client_verifier T roots = Some verifier \<and> chain \<noteq> [] \<and> single_cert T verifier chain key = Some tls"
proof -
  from assms obtain ca_file cas roots verifier chain key where
    r: "open_file T (client_ca_path config) = Some ca_file" "pem_certs T ca_file = Some cas" "cas \<noteq> []"
      "try_map (\<lambda>c. ok_or ''invalid mTLS client CA'' (add_root T c)) cas = Inr roots"
      "client_verifier T roots = Some verifier" "chain \<noteq> []" "single_cert T verifier chain key = Some tls"
    unfolding load_tls_config_def by (auto simp: result_simps)
  then have "list_all2 (\<lambda>c root. add_root T c = Some root) cas roots" "roots \<noteq> []"
    by (auto simp: try_map_Inr_iff result_simps)
  with r show ?thesis by blast
qed

definition ref_tls :: "(string, string, string, string list, string list \<times> string list \<times> string) tls_library" where
  "ref_tls =
     \<lparr>open_file = [''c'' \<mapsto> ''chain'', ''k'' \<mapsto> ''key'', ''a'' \<mapsto> ''ca''],
      pem_certs = (\<lambda>b. Some [b]), pem_private_key = (\<lambda>b. Some (Some b)), add_root = Some,
      client_verifier = Some, single_cert = (\<lambda>v c k. Some (v, c, k))\<rparr>"

definition ref_tcp_config :: tcp_config where
  "ref_tcp_config =
     \<lparr>tcp_bind = ''127.0.0.1:9443'', certificate_path = ''c'', private_key_path = ''k'', client_ca_path = ''a'',
      tcp_max_connections = 128, max_requests_per_connection = 64, idle_timeout_secs = 15\<rparr>"

theorem tls_demands_client_certificates_witness:
  "\<exists>tls cas. load_tls_config ref_tls ref_tcp_config = Inr tls \<and> cas \<noteq> [] \<and> pem_certs ref_tls ''ca'' = Some cas"
proof -
  have "load_tls_config ref_tls ref_tcp_config = Inr ([''ca''], [''chain''], ''key'')"
    by (simp add: load_tls_config_def ref_tls_def ref_tcp_config_def)
  from tls_demands_client_certificates [OF this] this show ?thesis
    by (auto simp: ref_tls_def ref_tcp_config_def)
qed

section \<open>Executing a frame\<close>

text \<open>The failures a frame can be answered with.\<close>

definition frame_failures :: "string list" where
  "frame_failures =
     [''invalid_request'', ''unauthorized'', ''forbidden'', ''temporarily_unavailable'', ''response_too_large'']"

definition refused :: "wire \<Rightarrow> bytes \<Rightarrow> bytes \<Rightarrow> bool" where
  "refused W frame out \<longleftrightarrow>
     list_ex (\<lambda>code. out = encode_failure W (case parse_request W frame of None \<Rightarrow> 0 | Some r \<Rightarrow> fr_request_id r) code)
       frame_failures"

lemma refusedI:
  "out = encode_failure W (case parse_request W frame of None \<Rightarrow> 0 | Some r \<Rightarrow> fr_request_id r) code \<Longrightarrow>
     code \<in> set frame_failures \<Longrightarrow> refused W frame out"
  by (auto simp: refused_def list_ex_iff)

lemma authorize_token_failures:
  assumes "fst (authorize_token D token tenant scopes w) = Inl e"
  shows "api_error_code e \<in> set frame_failures"
proof -
  have auth: "api_error_code (Authentication f) \<in> set frame_failures" for f
    by (cases f) (simp_all add: frame_failures_def)
  have "api_error_code (Cases_error NotAuthorized) \<in> set frame_failures" "api_error_code (Cases_error (Storage m)) \<in> set frame_failures" for m
    by (simp_all add: frame_failures_def)
  with assms auth show ?thesis
    by (cases "authorize_token D token tenant scopes w")
      (auto simp: authorize_token_def tenant_context_def parse_role_def result_simps simp del: api_error_code.simps split: if_splits)
qed

text \<open>
  Every frame stands for itself: the answer to a frame is either a failure naming a fixed code, or
  the printed list of cases of the tenant in that frame, at most \<^verbatim>\<open>MAX_RESPONSE_BYTES\<close> long, and then the
  token in that same frame was granted the read scope, its user is an active member of that tenant, and the list is
  exactly what the case table held for it when it was read.
\<close>

lemma frames_are_authorized:
  "refused W frame (fst (execute W D frame w)) \<or>
   (\<exists>request cs subject role.
      parse_request W frame = Some request \<and>
      print_response W (ok_response request cs) = Some (fst (execute W D frame w)) \<and>
      length (fst (execute W D frame w)) \<le> MAX_RESPONSE_BYTES \<and>
      grants_token D (fr_bearer_token request) [CASES_READ_SCOPE] subject \<and>
      member (fr_tenant_id request) (vs_shared_user_id subject) role (presented w) \<and>
      map row_of_case cs = case_select_list (fr_tenant_id request) (store (snd (execute W D frame w))))"
proof (cases "parse_request W frame")
  case None
  then show ?thesis by (auto simp: execute_def frame_failures_def intro!: refusedI)
next
  case (Some request)
  obtain r w1 where auth: "authorize_token D (fr_bearer_token request) (fr_tenant_id request) [CASES_READ_SCOPE] w = (r, w1)"
    by (cases "authorize_token D (fr_bearer_token request) (fr_tenant_id request) [CASES_READ_SCOPE] w")
  show ?thesis
  proof (cases r)
    case (Inl e)
    with Some auth authorize_token_failures [of D "fr_bearer_token request" "fr_tenant_id request" "[CASES_READ_SCOPE]" w e]
    show ?thesis by (auto simp: execute_def intro!: refusedI)
  next
    case (Inr p)
    obtain subject c where p: "p = (subject, c)" by (cases p)
    from auth Inr p have ok: "authorize_token D (fr_bearer_token request) (fr_tenant_id request) [CASES_READ_SCOPE] w =
        (Inr (subject, c), w1)" by simp
    have adm: "grants_token D (fr_bearer_token request) [CASES_READ_SCOPE] subject"
      "ctx_tenant_id c = fr_tenant_id request"
      "member (fr_tenant_id request) (vs_shared_user_id subject) (ctx_role c) (presented w)"
      using token_gate.admits [of D "(fr_bearer_token request, fr_tenant_id request, [CASES_READ_SCOPE])" w subject c w1]
        ok by auto
    obtain q w2 where ls: "list_cases c w1 = (q, w2)" by (cases "list_cases c w1")
    show ?thesis
    proof (cases "\<exists>cs v. q = Inr cs \<and> print_response W (ok_response request cs) = Some v \<and> length v \<le> MAX_RESPONSE_BYTES")
      case True
      then obtain cs v where q: "q = Inr cs" "print_response W (ok_response request cs) = Some v"
        "length v \<le> MAX_RESPONSE_BYTES" by blast
      with Some ok ls have out: "execute W D frame w = (v, w2)"
        by (simp add: execute_def split: operation.splits)
      have "map row_of_case cs = case_select_list (fr_tenant_id request) (store w2)"
        using case_reader.listing_stored [of c w1 cs w2] case_reader.listing_reads [of c w1 _ w2] ls q adm by simp
      with Some q out adm show ?thesis
        by (intro disjI2 exI [of _ request] exI [of _ cs] exI [of _ subject] exI [of _ "ctx_role c"]) simp
    next
      case False
      with Some ok ls have "refused W frame (fst (execute W D frame w))"
        by (auto simp: execute_def filter_opt_Some_iff frame_failures_def intro!: refusedI split: operation.splits sum.splits option.splits)
      then show ?thesis ..
    qed
  qed
qed

text \<open>
  What the transport relies on in the HTTP library: reading a header value back gives the string it was made
  of, where it can be read as a string at all.
\<close>

definition header_values_faithful :: "http_values \<Rightarrow> bool" where
  "header_values_faithful H \<longleftrightarrow>
     (\<forall>s v t. header_from_str H s = Some v \<longrightarrow> header_to_str H v = Some t \<longrightarrow> t = s)"

lemma ref_http_faithful: "header_values_faithful ref_http"
  by (auto simp: header_values_faithful_def ref_http_def split: if_splits)

text \<open>
  Two authorities that answer alike to a token: to the guard's question about the one header made of it, to the introspection of
  that token for the configured audience and these scopes, and about scopes and sandboxes.
\<close>

definition alike_about :: "'d deps \<Rightarrow> string \<Rightarrow> string list \<Rightarrow> authority \<Rightarrow> bool" where
  "alike_about D token scopes A \<longleftrightarrow>
     (\<forall>v. header_from_str (dep_http D) (''Bearer '' @ token) = Some v \<longrightarrow>
        guard_check A [''authorization'' \<mapsto> v] = guard_check (dep_authority D) [''authorization'' \<mapsto> v]) \<and>
     introspect A token (au_audience (dep_auth D)) scopes = introspect (dep_authority D) token (au_audience (dep_auth D)) scopes \<and>
     has_scope A = has_scope (dep_authority D) \<and> is_sandboxed A = is_sandboxed (dep_authority D)"

lemma bearer_of_token:
  assumes "header_values_faithful (dep_http D)" and "\<not> token_refused token"
    and "header_from_str (dep_http D) (''Bearer '' @ token) = Some v"
  shows "bearer (dep_http D) [''authorization'' \<mapsto> v] \<in> {None, Some token}"
proof (cases "header_to_str (dep_http D) v")
  case None
  then show ?thesis by (simp add: bearer_def)
next
  case (Some t)
  with assms(1,3) have "t = ''Bearer '' @ token" by (auto simp: header_values_faithful_def)
  moreover have "trim token = token" "token \<noteq> []"
    using assms(2) by (auto simp: token_refused_def intro: trim_no_whitespace)
  ultimately show ?thesis using Some by (simp add: bearer_def strip_prefix_append del: append_Cons)
qed

lemma authorized_token_live:
  assumes "header_values_faithful (dep_http D)" and "authorize_token D token tenant scopes w = (Inr (subject, c), w')"
  shows "\<not> token_refused token \<and> ctx_tenant_id c = tenant \<and>
    (\<exists>i. introspect (dep_authority D) token (au_audience (dep_auth D)) scopes = Inr i \<and>
       session_live (dep_authority D) i scopes (unix_now (dep_clock D)) \<and>
       in_sub i = Some (vs_shared_user_id subject) \<and> in_sid i = Some (vs_session_id subject) \<and>
       in_iss i = Some (au_issuer (dep_auth D)) \<and> in_aud i = Some (au_audience (dep_auth D)))"
proof -
  have g: "grants_token D token scopes subject" and c: "ctx_tenant_id c = tenant"
    using token_gate.admits [of D "(token, tenant, scopes)" w subject c w'] assms(2) by auto
  from g obtain v where fine: "\<not> token_refused token"
    and v: "header_from_str (dep_http D) (''Bearer '' @ token) = Some v"
    and here: "grants_here D [''authorization'' \<mapsto> v] scopes subject"
    by (auto simp: grants_token_def)
  with bearer_of_token [OF assms(1) fine v] c show ?thesis by (auto simp: grants_here_def grants_def)
qed

lemma token_decides:
  assumes "header_values_faithful (dep_http D)" and "alike_about D token scopes A"
  shows "authorize_token (D\<lparr>dep_authority := A\<rparr>) token tenant scopes w = authorize_token D token tenant scopes w"
proof (cases "token_refused token \<or> header_from_str (dep_http D) (''Bearer '' @ token) = None")
  case True
  then show ?thesis by (cases "token_refused token") (simp_all add: authorize_token_def)
next
  case False
  then obtain v where v: "header_from_str (dep_http D) (''Bearer '' @ token) = Some v" "\<not> token_refused token" by auto
  have "guard_identity A = guard_identity (dep_authority D)" and "validate_active_session A = validate_active_session (dep_authority D)"
    using assms(2) by (auto simp: fun_eq_iff alike_about_def guard_identity_def validate_active_session_def split: auth_outcome.split)
  then have "authenticate_with_scopes (dep_auth D) A (dep_http D) (dep_clock D) [''authorization'' \<mapsto> v] scopes =
      authenticate_with_scopes (dep_auth D) (dep_authority D) (dep_http D) (dep_clock D) [''authorization'' \<mapsto> v] scopes"
    using bearer_of_token [OF assms(1) v(2,1)] assms(2) v(1)
    by (auto simp: authenticate_with_scopes_def alike_about_def)
  with v show ?thesis by (simp add: authorize_token_def)
qed

text \<open>
  C26. The token of a frame is introspected as it was sent and nothing else decides: whatever the authority would say, a token that
  is empty, longer than 16 KiB or contains whitespace or control characters is refused as unauthorized with no effect; for every other
  token the outcome depends on the authority only through its answers about exactly this token (the guard's about the header made of
  it, the introspection of it for the configured audience and the required scopes); and authorization succeeds only if that
  introspection shows a live session of the subject with the scopes, issuer and audience.
\<close>

theorem token_introspected_verbatim:
  assumes "header_values_faithful (dep_http D)"
  shows "(token_refused token \<longrightarrow>
      (\<forall>A. authorize_token (D\<lparr>dep_authority := A\<rparr>) token tenant scopes w = (Inl (Authentication Unauthorized), w))) \<and>
    (\<forall>A. alike_about D token scopes A \<longrightarrow>
      authorize_token (D\<lparr>dep_authority := A\<rparr>) token tenant scopes w = authorize_token D token tenant scopes w) \<and>
    (\<forall>subject c w'. authorize_token D token tenant scopes w = (Inr (subject, c), w') \<longrightarrow>
      \<not> token_refused token \<and> ctx_tenant_id c = tenant \<and>
      (\<exists>i. introspect (dep_authority D) token (au_audience (dep_auth D)) scopes = Inr i \<and>
         session_live (dep_authority D) i scopes (unix_now (dep_clock D)) \<and>
         in_sub i = Some (vs_shared_user_id subject) \<and> in_sid i = Some (vs_session_id subject) \<and>
         in_iss i = Some (au_issuer (dep_auth D)) \<and> in_aud i = Some (au_audience (dep_auth D))))"
  using token_decides [OF assms] authorized_token_live [OF assms] by (auto simp: authorize_token_def)

theorem token_introspected_verbatim_witness:
  "(\<exists>i. introspect (dep_authority ref_deps) ''t0ken'' (au_audience (dep_auth ref_deps)) [CASES_READ_SCOPE] = Inr i \<and>
      in_sub i = Some ''alice'') \<and>
   (\<forall>A. authorize_token (ref_deps\<lparr>dep_authority := A\<rparr>) ''t0 ken'' 1 [CASES_READ_SCOPE] case_world =
     (Inl (Authentication Unauthorized), case_world))"
proof -
  have f: "header_values_faithful (dep_http ref_deps)" by (simp add: ref_deps_def ref_http_faithful)
  have "authorize_token ref_deps ''t0ken'' 1 [CASES_READ_SCOPE] case_world =
      (Inr (\<lparr>vs_shared_user_id = ''alice'', vs_session_id = ''session-a''\<rparr>, alice_context), case_world)"
    by (simp add: authorize_token_def token_refused_def http_eval service_eval sample_defs ref_defs)
  with token_introspected_verbatim [OF f, of "''t0ken''" 1 "[CASES_READ_SCOPE]" case_world]
  have "\<exists>i. introspect (dep_authority ref_deps) ''t0ken'' (au_audience (dep_auth ref_deps)) [CASES_READ_SCOPE] = Inr i \<and>
      in_sub i = Some ''alice''" by auto
  moreover have "token_refused ''t0 ken''" by (simp add: token_refused_def string_eval)
  with token_introspected_verbatim [OF f, of "''t0 ken''" 1 "[CASES_READ_SCOPE]" case_world]
  have "\<forall>A. authorize_token (ref_deps\<lparr>dep_authority := A\<rparr>) ''t0 ken'' 1 [CASES_READ_SCOPE] case_world =
      (Inl (Authentication Unauthorized), case_world)" by blast
  ultimately show ?thesis ..
qed

lemma authorize_token_only_reads: "keeps only_reads (authorize_token D token tenant scopes)"
  unfolding authorize_token_def
  by (auto intro!: reads_intros tenant_context_only_reads split: option.split)

lemma execute_quiet:
  assumes "quiet w" and "execute W D frame w = (out, w')"
  shows "store w' = store w \<and> quiet w'"
  using assms
  by (auto simp: execute_def only_reads_def dest!: keepsD [OF authorize_token_only_reads] keepsD [OF list_cases_only_reads]
      split: option.splits prod.splits sum.splits operation.splits)

section \<open>The accept loop\<close>

text \<open>Permits and running tasks add up to the configured limit; tasks have distinct numbers already handed out.\<close>

definition permits_accounted :: "nat \<Rightarrow> tcp_server \<Rightarrow> bool" where
  "permits_accounted limit s \<longleftrightarrow>
     permits s + length (tasks s) = limit \<and> distinct (map fst (tasks s)) \<and>
     (\<forall>t \<in> set (tasks s). fst t < accepted s)"

lemma filter_key_length:
  "distinct (map fst xs) \<Longrightarrow> (c, p) \<in> set xs \<Longrightarrow> Suc (length (filter (\<lambda>t. fst t \<noteq> c) xs)) = length xs"
proof (induction xs)
  case (Cons x xs)
  show ?case
  proof (cases "fst x = c")
    case True
    with Cons.prems(1) have "c \<notin> fst ` set xs" by simp
    then have "filter (\<lambda>t. fst t \<noteq> c) xs = xs" by (metis (mono_tags, lifting) filter_True image_eqI)
    with True show ?thesis by simp
  next
    case False
    with Cons show ?thesis by auto
  qed
qed simp

lemma end_task_accounted:
  "permits_accounted limit s \<Longrightarrow> (c, p) \<in> set (tasks s) \<Longrightarrow> permits_accounted limit (end_task c s)"
  using filter_key_length [of "tasks s" c p]
  by (auto simp: permits_accounted_def end_task_def distinct_map_filter)

lemma map_fst_relabel: "map fst (map (\<lambda>t. if t = (c, p) then (c, q) else t) xs) = map fst xs"
  by (induction xs) auto

lemma serve_event_accounted: "permits_accounted limit s \<Longrightarrow> permits_accounted limit (serve_event s e)"
proof (cases e)
  case (Handshake_ended c completed)
  assume inv: "permits_accounted limit s"
  with Handshake_ended end_task_accounted [OF inv, of c Handshaking] show ?thesis
    by (cases completed) (auto simp: permits_accounted_def map_fst_relabel simp del: map_map)
next
  case (Serving_ended c)
  assume "permits_accounted limit s"
  with Serving_ended end_task_accounted show ?thesis by auto
next
  case Accepted
  assume "permits_accounted limit s"
  with Accepted show ?thesis by (auto simp: permits_accounted_def less_Suc_eq)
qed (simp_all add: permits_accounted_def)

interpretation tcp_permits: machine serve_event "permits_accounted limit" for limit
  by unfold_locales (rule serve_event_accounted)

text \<open>
  Connections are bounded: in every state the accept loop can reach, the permits left and the running
  connection tasks add up to the configured maximum, so never more connections than that are open, and
  a permit is never lost.
\<close>

lemma connections_bounded:
  "permits (serve_events (server_start limit) es) + length (tasks (serve_events (server_start limit) es)) = limit \<and>
   distinct (map fst (tasks (serve_events (server_start limit) es)))"
proof -
  have "permits_accounted limit (server_start limit)" by (simp add: permits_accounted_def server_start_def)
  from tcp_permits.run_keeps [OF this, of es] show ?thesis
    by (simp add: serve_events_def permits_accounted_def)
qed

interpretation tcp_stopped: machine serve_event "\<lambda>s. \<not> listening s \<and> fst ` set (tasks s) \<subseteq> ids" for ids
proof (unfold_locales, goal_cases)
  case (1 s e)
  then show ?case by (cases e) (auto simp: end_task_def split: if_splits)
qed

text \<open>
  One failed accept ends the listener: after an error of the listener's accept call (as after
  a shutdown) no later event starts a connection; the tasks of every later state are among those that were running.
\<close>

lemma accept_failure_is_final:
  "set (map fst (tasks (serve_events (serve_event s Accept_failed) es))) \<subseteq> set (map fst (tasks s)) \<and>
   set (map fst (tasks (serve_events (serve_event s Shutdown_changed) es))) \<subseteq> set (map fst (tasks s)) \<and>
   \<not> listening (serve_events (serve_event s Accept_failed) es)"
  using tcp_stopped.run_keeps [of "serve_event s Accept_failed" "fst ` set (tasks s)" es]
    tcp_stopped.run_keeps [of "serve_event s Shutdown_changed" "fst ` set (tasks s)" es]
  by (simp add: serve_events_def)

text \<open>
  The events of the accept loop that come from tasks: a handshake ends, one way or the other, only when the task gets past it, and
  serving ends only for a task that served.
\<close>

definition events_of_tasks :: "(nat \<Rightarrow> (nat \<times> 'r option) option) \<Rightarrow> tcp_event list \<Rightarrow> bool" where
  "events_of_tasks task es \<longleftrightarrow>
     (\<forall>e \<in> set es. case e of
        Handshake_ended c completed \<Rightarrow> \<exists>d served. task c = Some (d, served) \<and> completed = (served \<noteq> None)
      | Serving_ended c \<Rightarrow> \<exists>d served. task c = Some (d, Some served)
      | _ \<Rightarrow> True)"

lemma accept_n:
  "k \<le> limit \<Longrightarrow>
     let s = serve_events (server_start limit) (replicate k Accepted) in
       listening s \<and> permits s = limit - k \<and> length (tasks s) = k \<and> accepted s = k \<and>
       (\<forall>t \<in> set (tasks s). fst t < k \<and> snd t = Handshaking)"
proof (induction k)
  case (Suc k)
  have "replicate (Suc k) Accepted = replicate k Accepted @ [Accepted]" by (simp add: replicate_append_same)
  with Suc show ?case by (auto simp: serve_events_def Let_def simp del: replicate_Suc)
qed (simp add: serve_events_def server_start_def)

lemma stalled_run:
  "permits s = 0 \<Longrightarrow> \<forall>t \<in> set (tasks s). snd t = Handshaking \<and> task (fst t) = None \<Longrightarrow> events_of_tasks task es \<Longrightarrow>
     tasks (serve_events s es) = tasks s \<and> permits (serve_events s es) = 0"
proof (induction es arbitrary: s)
  case (Cons e es)
  have "tasks (serve_event s e) = tasks s" "permits (serve_event s e) = 0"
    using Cons.prems by (cases e; force simp: events_of_tasks_def)+
  with Cons.IH [of "serve_event s e"] Cons.prems show ?case by (simp add: serve_events_def events_of_tasks_def)
qed (simp add: serve_events_def)

text \<open>
  C40. The handshake has no deadline: let as many peers as there are permits connect and then never complete their TLS handshake
  (the future of \<^verbatim>\<open>acceptor.accept\<close> stays pending). Whatever happens after, with any behaviour of further peers, all permits stay
  taken by the tasks of these peers for good.
\<close>

theorem silent_handshakes_hold_all_permits:
  assumes "\<forall>c < tcp_max_connections config. accept c = Never"
    and "events_of_tasks (\<lambda>c. connection_task W D config (accept c) (turns c) (w c)) es"
  shows "permits (serve_events (server_start (tcp_max_connections config)) (replicate (tcp_max_connections config) Accepted @ es)) = 0 \<and>
    length (tasks (serve_events (server_start (tcp_max_connections config)) (replicate (tcp_max_connections config) Accepted @ es))) =
      tcp_max_connections config \<and>
    tasks (serve_events (server_start (tcp_max_connections config)) (replicate (tcp_max_connections config) Accepted @ es)) =
      tasks (serve_events (server_start (tcp_max_connections config)) (replicate (tcp_max_connections config) Accepted))"
proof -
  let ?limit = "tcp_max_connections config"
  let ?s = "serve_events (server_start ?limit) (replicate ?limit Accepted)"
  have s: "permits ?s = 0" "length (tasks ?s) = ?limit" "\<forall>t \<in> set (tasks ?s). fst t < ?limit \<and> snd t = Handshaking"
    using accept_n [of ?limit ?limit] by (simp_all add: Let_def)
  with assms(1) have "\<forall>t \<in> set (tasks ?s). snd t = Handshaking \<and>
      connection_task W D config (accept (fst t)) (turns (fst t)) (w (fst t)) = None"
    by (simp add: connection_task_def)
  from stalled_run [OF s(1) this assms(2)] s(2) show ?thesis by (simp add: serve_events_def)
qed

text \<open>Two permits held by silent peers; a third peer comes, and shutdown.\<close>

theorem silent_handshakes_hold_all_permits_witness:
  "permits (serve_events (server_start 2) ([Accepted, Accepted] @ [Accepted, Handshake_ended 2 False, Shutdown_changed])) = 0"
proof -
  let ?W = "\<lparr>parse_request = \<lambda>_. None, print_response = \<lambda>_. None, decode_frame = \<lambda>_ b. Some b, encode_frame = \<lambda>_ b. Some b\<rparr>"
  let ?config = "\<lparr>tcp_bind = ''127.0.0.1:9443'', certificate_path = ''cert.pem'', private_key_path = ''key.pem'',
    client_ca_path = ''ca.pem'', tcp_max_connections = 2, max_requests_per_connection = 100, idle_timeout_secs = 30\<rparr>"
  let ?accept = "\<lambda>c :: nat. if c < 2 then Never else After 3 False"
  have silent: "\<forall>c < tcp_max_connections ?config. ?accept c = Never" by simp
  have "events_of_tasks (\<lambda>c. connection_task ?W ref_deps ?config (?accept c) [] case_world)
      [Accepted, Handshake_ended 2 False, Shutdown_changed]"
    by (simp add: events_of_tasks_def connection_task_def)
  from silent_handshakes_hold_all_permits [OF silent, of ?W ref_deps "\<lambda>_. []" "\<lambda>_. case_world", OF this]
  show ?thesis by (simp add: numeral_2_eq_2)
qed

end
