(* ===== verification/Tcp_Connection.thy ===== *)
theory Tcp_Connection
  imports Tcp_Properties
begin

text \<open>
  One connection of the framed transport over time: it sends a bounded number of bounded responses, writes nothing,
  waits a bounded time for its peer, and ends. Also the frame limit of the codec, which cuts responses short.
\<close>

section \<open>One turn\<close>

lemma timeout_bounds: "timeout limit f = (r, t) \<Longrightarrow> t \<le> limit \<and> (r = None \<longrightarrow> t = limit)"
  by (cases f) (auto split: if_splits)

lemma timeout_Some_iff: "timeout limit f = (Some x, t) \<longleftrightarrow> f = After t x \<and> t \<le> limit"
  by (cases f) auto

lemma timeout_mono: "timeout limit f = (Some x, t) \<Longrightarrow> limit \<le> limit' \<Longrightarrow> timeout limit' f = (Some x, t)"
  by (simp add: timeout_Some_iff)

lemma silent_turn_times_out [simp]:
  "serve_turn W D idle silent_turn w = (Inl (Failed ''mTLS connection idle timeout''), idle, w)"
  by (simp add: serve_turn_def silent_turn_def)

text \<open>A turn that answers: the peer was fast enough both ways, and the response passed every size check.\<close>

lemma serve_turn_Inr:
  "serve_turn W D idle turn w = (Inr response, t, w') \<longleftrightarrow>
     (\<exists>raw frame t1 t2. turn_read turn = After t1 (Incoming raw) \<and> t1 \<le> idle \<and>
        decode_frame W MAX_REQUEST_BYTES raw = Some frame \<and> execute W D frame w = (response, w') \<and>
        response \<noteq> [] \<and> length response \<le> MAX_RESPONSE_BYTES \<and> encode_frame W MAX_REQUEST_BYTES response \<noteq> None \<and>
        turn_write turn = After t2 Write_done \<and> t2 \<le> idle \<and> t = t1 + turn_busy turn + t2)"
  unfolding serve_turn_def
  by (auto split: prod.splits option.splits frame_read.splits frame_write.splits if_splits simp: timeout_Some_iff)

lemma serve_turn_time:
  assumes "serve_turn W D idle turn w = (r, t, w')"
  shows "t \<le> 2 * idle + turn_busy turn"
proof -
  obtain x t1 where r: "timeout idle (turn_read turn) = (x, t1)" by (cases "timeout idle (turn_read turn)")
  obtain y t2 where s: "timeout idle (turn_write turn) = (y, t2)" by (cases "timeout idle (turn_write turn)")
  have "t \<in> {t1, t1 + turn_busy turn, t1 + turn_busy turn + t2}"
    using assms unfolding serve_turn_def r s
    by (auto split: prod.splits option.splits frame_read.splits frame_write.splits if_splits)
  with timeout_bounds [OF r] timeout_bounds [OF s] show ?thesis by auto
qed

lemma serve_turn_quiet:
  assumes "serve_turn W D idle turn w = (r, t, w')" and "quiet w"
  shows "store w' = store w \<and> quiet w'"
  using assms(1) execute_quiet [OF assms(2)] assms(2) unfolding serve_turn_def
  by (auto split: prod.splits option.splits frame_read.splits frame_write.splits if_splits)

section \<open>The loop\<close>

lemma serve_requests_numeral:
  "serve_requests W D idle (numeral k) turns w =
     (case serve_turn W D idle (case turns of [] \<Rightarrow> silent_turn | turn # _ \<Rightarrow> turn) w of
        (Inl ended, t, w1) \<Rightarrow> (ended, [], t, w1)
      | (Inr response, t, w1) \<Rightarrow>
          (case serve_requests W D idle (pred_numeral k) (tl turns) w1 of
             (ended, sent, u, w2) \<Rightarrow> (ended, response # sent, t + u, w2)))"
  by (simp add: numeral_eq_Suc)

lemma serve_requests_store:
  "quiet w \<Longrightarrow> serve_requests W D idle n turns w = (ended, sent, t, w') \<Longrightarrow> store w' = store w"
proof (induction n arbitrary: turns w ended sent t w')
  case (Suc n)
  then show ?case
    by (auto split: prod.splits sum.splits dest!: Suc.IH [rotated] serve_turn_quiet [OF _ Suc.prems(1)])
qed simp

text \<open>What holds of every response the loop sends, by induction on the requests that are left.\<close>

lemma serve_requests_sent:
  "serve_requests W D idle n turns w = (ended, sent, t, w') \<Longrightarrow>
     length sent \<le> n \<and> length sent \<le> length turns \<and>
     (\<forall>f \<in> set sent. f \<noteq> [] \<and> length f \<le> MAX_RESPONSE_BYTES \<and> encode_frame W MAX_REQUEST_BYTES f \<noteq> None)"
proof (induction n arbitrary: turns w ended sent t w')
  case (Suc n)
  then show ?case
    by (cases turns) (auto split: prod.splits sum.splits dest!: Suc.IH simp: serve_turn_Inr)
qed simp

lemma serve_requests_limit:
  "serve_requests W D idle n turns w = (Request_limit, sent, t, w') \<Longrightarrow> length sent = n"
proof (induction n arbitrary: turns w sent t)
  case (Suc n)
  have "serve_turn W D idle turn w \<noteq> (Inl Request_limit, u, v)" for turn u v
    unfolding serve_turn_def
    by (auto split: prod.splits option.splits frame_read.splits frame_write.splits if_splits)
  with Suc show ?case by (auto split: prod.splits sum.splits)
qed simp

lemma serve_requests_time:
  "serve_requests W D idle n turns w = (ended, sent, t, w') \<Longrightarrow>
     t \<le> 2 * idle * n + sum_list (map turn_busy (take n turns))"
proof (induction n arbitrary: turns w ended sent t w')
  case (Suc n)
  let ?turn = "case turns of [] \<Rightarrow> silent_turn | turn # _ \<Rightarrow> turn"
  obtain r t1 w1 where one: "serve_turn W D idle ?turn w = (r, t1, w1)" by (cases "serve_turn W D idle ?turn w")
  have busy: "turn_busy ?turn + sum_list (map turn_busy (take n (tl turns))) = sum_list (map turn_busy (take (Suc n) turns))"
    by (cases turns) (simp_all add: silent_turn_def)
  note t1 = serve_turn_time [OF one]
  show ?case
  proof (cases r)
    case (Inl e)
    with Suc.prems one have "t = t1" by simp
    with t1 busy show ?thesis by simp
  next
    case (Inr response)
    obtain e s u v where rest: "serve_requests W D idle n (tl turns) w1 = (e, s, u, v)"
      by (cases "serve_requests W D idle n (tl turns) w1")
    with Inr Suc.prems one have "t = t1 + u" by simp
    with t1 busy Suc.IH [OF rest] show ?thesis by simp
  qed
qed simp

lemma serve_requests_silence:
  "length turns < n \<Longrightarrow> serve_requests W D idle n turns w = (ended, sent, t, w') \<Longrightarrow>
     ended \<noteq> Request_limit \<and> t \<le> 2 * idle * length turns + idle + sum_list (map turn_busy turns)"
proof (induction turns arbitrary: n w ended sent t w')
  case Nil
  then show ?case by (cases n) auto
next
  case (Cons turn turns)
  then obtain m where n: "n = Suc m" "length turns < m" by (cases n) auto
  obtain r t1 w1 where one: "serve_turn W D idle turn w = (r, t1, w1)" by (cases "serve_turn W D idle turn w")
  show ?case
  proof (cases r)
    case (Inl e)
    with n one Cons.prems(2) have end_now: "ended = e" "t = t1" "sent = []" by simp_all
    with n serve_requests_limit [of W D idle n "turn # turns" w sent t w'] Cons.prems(2) have "ended \<noteq> Request_limit"
      by (cases ended) auto
    with end_now serve_turn_time [OF one] show ?thesis by simp
  next
    case (Inr response)
    obtain e s u v where rest: "serve_requests W D idle m turns w1 = (e, s, u, v)"
      by (cases "serve_requests W D idle m turns w1")
    with Inr n one Cons.prems(2) have "ended = e" "t = t1 + u" by simp_all
    with Cons.IH [OF n(2) rest] serve_turn_time [OF one] show ?thesis by simp
  qed
qed

section \<open>Bounds of a connection\<close>

definition ref_wire :: wire where
  "ref_wire =
     \<lparr>parse_request = (\<lambda>b. if b = ''list'' then Some \<lparr>fr_request_id = 7, fr_tenant_id = 1,
          fr_bearer_token = ''t0ken'', fr_operation = ListCases\<rparr> else None),
      print_response = (\<lambda>r. case fp_payload r of
          None \<Rightarrow> Some (''error '' @ (case fp_error r of None \<Rightarrow> [] | Some e \<Rightarrow> e))
        | Some (Cases_payload cs _) \<Rightarrow> Some (replicate (length cs * 30000) CHR ''c'')),
      decode_frame = (\<lambda>m b. if length b \<le> m then Some b else None),
      encode_frame = (\<lambda>m b. if length b \<le> m then Some b else None)\<rparr>"

text \<open>A peer that sends a frame after some time and takes the response at once.\<close>

definition sends :: "nat \<Rightarrow> bytes \<Rightarrow> turn" where
  "sends d frame = \<lparr>turn_read = After d (Incoming frame), turn_busy = 0, turn_write = After 0 Write_done\<rparr>"

lemmas connection_eval = serve_connection_def serve_turn_def sends_def silent_turn_def idle_timeout_def ref_tcp_config_def
  ref_wire_def execute_def encode_failure_def MAX_REQUEST_BYTES_def MAX_RESPONSE_BYTES_def

text \<open>
  C23. A connection is bounded and only reads: whatever the peer sends and whenever, at most the configured number of
  responses go out, each nonempty and at most \<^verbatim>\<open>MAX_RESPONSE_BYTES\<close> long; it ends for the limit only
  when exactly that many were sent; and it writes nothing to the database.
\<close>

theorem connection_bounded:
  assumes "serve_connection W D config turns w = (ended, sent, t, w')"
  shows "length sent \<le> max_requests_per_connection config \<and>
    (\<forall>f \<in> set sent. f \<noteq> [] \<and> length f \<le> MAX_RESPONSE_BYTES) \<and>
    (ended = Request_limit \<longrightarrow> length sent = max_requests_per_connection config) \<and>
    (quiet w \<longrightarrow> store w' = store w)"
  using assms serve_requests_sent [of W D "idle_timeout config" "max_requests_per_connection config" turns w ended sent t w']
    serve_requests_limit [of W D "idle_timeout config" "max_requests_per_connection config" turns w sent t w']
    serve_requests_store [of w W D "idle_timeout config" "max_requests_per_connection config" turns ended sent t w']
  by (auto simp: serve_connection_def)

theorem connection_bounded_witness:
  "\<exists>sent w'. serve_connection ref_wire ref_deps ref_tcp_config [sends 20 ''nonsense''] case_world =
     (Failed ''mTLS connection idle timeout'', sent, 15020, w') \<and> length sent \<le> 64 \<and> store w' = store case_world"
proof -
  have run: "serve_connection ref_wire ref_deps ref_tcp_config [sends 20 ''nonsense''] case_world =
      (Failed ''mTLS connection idle timeout'', [''error invalid_request''], 15020, case_world)"
    by (simp add: connection_eval serve_requests_numeral)
  have "quiet case_world" by (simp add: quiet_def case_world_def)
  with connection_bounded [OF run] run show ?thesis by (simp add: ref_tcp_config_def)
qed

text \<open>
  C24. Every connection ends in bounded time: apart from the time its requests take to execute, a connection lasts at
  most two idle timeouts for each request it may make, and under any configuration the transport accepts at
  most 4096 * 600 seconds; a peer that falls silent early is dropped one idle timeout after its last turn, and
  not because of the request limit.
\<close>

theorem connection_ends_in_time:
  assumes "tcp_config_from_env env = Inr (Some config)"
    and "serve_connection W D config turns w = (ended, sent, t, w')"
  shows "t \<le> 2 * idle_timeout config * max_requests_per_connection config +
      sum_list (map turn_busy (take (max_requests_per_connection config) turns)) \<and>
    2 * idle_timeout config * max_requests_per_connection config \<le> 4096 * 600 * 1000 \<and>
    (length turns < max_requests_per_connection config \<longrightarrow>
       ended \<noteq> Request_limit \<and>
       t \<le> 2 * idle_timeout config * length turns + idle_timeout config + sum_list (map turn_busy turns))"
proof -
  have "max_requests_per_connection config \<le> 4096" "idle_timeout_secs config \<le> 300"
    using tcp_config_limits [OF assms(1)] by simp_all
  then have "2 * idle_timeout config * max_requests_per_connection config \<le> 4096 * 600 * 1000"
    using mult_le_mono [of "2 * idle_timeout config" "600 * 1000" "max_requests_per_connection config" 4096]
    by (simp add: idle_timeout_def)
  moreover note run = assms(2) [unfolded serve_connection_def]
  ultimately show ?thesis
    using serve_requests_time [OF run] serve_requests_silence [OF _ run] by blast
qed


theorem connection_ends_in_time_witness:
  "\<exists>ended sent t w'. serve_connection ref_wire ref_deps ref_tcp_config [sends 20 ''nonsense''] case_world = (ended, sent, t, w') \<and>
     ended \<noteq> Request_limit \<and> t \<le> 45000"
proof -
  have env: "tcp_config_from_env [''APME_API_TCP_BIND'' \<mapsto> ''127.0.0.1:9443'', ''APME_API_TCP_TLS_CERT_FILE'' \<mapsto> ''c'',
      ''APME_API_TCP_TLS_KEY_FILE'' \<mapsto> ''k'', ''APME_API_TCP_CLIENT_CA_FILE'' \<mapsto> ''a''] = Inr (Some ref_tcp_config)"
    by (simp add: tcp_config_from_env_def optional_env_def required_path_def bounded_env_def ref_tcp_config_def
        DEFAULT_MAX_CONNECTIONS_def DEFAULT_MAX_REQUESTS_def DEFAULT_IDLE_SECONDS_def string_eval)
  obtain ended sent t w' where run:
    "serve_connection ref_wire ref_deps ref_tcp_config [sends 20 ''nonsense''] case_world = (ended, sent, t, w')"
    by (cases "serve_connection ref_wire ref_deps ref_tcp_config [sends 20 ''nonsense''] case_world")
  from connection_ends_in_time [OF env run] run show ?thesis
    by (simp add: ref_tcp_config_def idle_timeout_def sends_def)
qed

section \<open>The frame limit of the codec\<close>

text \<open>
  The documented behaviour of the length-delimited codec: its maximal frame length applies to decoding and to
  encoding alike.
\<close>

definition codec_limits :: "wire \<Rightarrow> bool" where
  "codec_limits W \<longleftrightarrow>
     (\<forall>m b. decode_frame W m b = (if length b \<le> m then Some b else None)) \<and>
     (\<forall>m b. encode_frame W m b \<noteq> None \<longleftrightarrow> length b \<le> m)"

lemma serve_turn_too_large:
  assumes "codec_limits W" and "turn_read turn = After d (Incoming frame)" and "d \<le> idle"
    and "length frame \<le> MAX_REQUEST_BYTES" and "MAX_REQUEST_BYTES < length (fst (execute W D frame w))"
    and "length (fst (execute W D frame w)) \<le> MAX_RESPONSE_BYTES"
  shows "serve_turn W D idle turn w = (Inl Send_error, d + turn_busy turn, snd (execute W D frame w))"
proof -
  obtain response w1 where ex: "execute W D frame w = (response, w1)" by (cases "execute W D frame w")
  with assms(5,6) have len: "MAX_REQUEST_BYTES < length response" "length response \<le> MAX_RESPONSE_BYTES" by simp_all
  moreover have "decode_frame W MAX_REQUEST_BYTES frame = Some frame"
    using assms(1,4) by (simp add: codec_limits_def)
  moreover have "encode_frame W MAX_REQUEST_BYTES response = None"
    using assms(1) len(1) unfolding codec_limits_def by (metis not_le)
  moreover have "response \<noteq> []" using len(1) by auto
  ultimately show ?thesis using assms(2,3) ex by (simp add: serve_turn_def)
qed

text \<open>
  C38. The codec's limit cuts responses short: because the codec of the connection is built with the request limit, no
  response longer than \<^verbatim>\<open>MAX_REQUEST_BYTES\<close> (20 KiB) is ever sent; a response between that and
  \<^verbatim>\<open>MAX_RESPONSE_BYTES\<close> (64 KiB), which the size checks let through, ends the connection
  without an answer, however fast the peer is.
\<close>

theorem large_responses_end_the_connection:
  assumes "codec_limits W"
  shows "(\<forall>f \<in> set (fst (snd (serve_connection W D config turns w))). length f \<le> MAX_REQUEST_BYTES) \<and>
    (0 < max_requests_per_connection config \<and> turn_read turn = After d (Incoming frame) \<and> d \<le> idle_timeout config \<and>
     length frame \<le> MAX_REQUEST_BYTES \<and> MAX_REQUEST_BYTES < length (fst (execute W D frame w)) \<and>
     length (fst (execute W D frame w)) \<le> MAX_RESPONSE_BYTES \<longrightarrow>
     serve_connection W D config (turn # rest) w = (Send_error, [], d + turn_busy turn, snd (execute W D frame w)))"
proof
  obtain ended sent t w' where run: "serve_connection W D config turns w = (ended, sent, t, w')"
    by (cases "serve_connection W D config turns w")
  with serve_requests_sent [OF run [unfolded serve_connection_def]] assms
  show "\<forall>f \<in> set (fst (snd (serve_connection W D config turns w))). length f \<le> MAX_REQUEST_BYTES"
    by (auto simp: codec_limits_def)
  show "0 < max_requests_per_connection config \<and> turn_read turn = After d (Incoming frame) \<and> d \<le> idle_timeout config \<and>
      length frame \<le> MAX_REQUEST_BYTES \<and> MAX_REQUEST_BYTES < length (fst (execute W D frame w)) \<and>
      length (fst (execute W D frame w)) \<le> MAX_RESPONSE_BYTES \<longrightarrow>
    serve_connection W D config (turn # rest) w = (Send_error, [], d + turn_busy turn, snd (execute W D frame w))"
    using serve_turn_too_large [OF assms, of turn d frame "idle_timeout config" D w]
    by (cases "max_requests_per_connection config") (auto simp: serve_connection_def)
qed

theorem large_responses_end_the_connection_witness:
  "length (fst (execute ref_wire ref_deps ''list'' case_world)) = 30000 \<and>
   fst (serve_connection ref_wire ref_deps ref_tcp_config [sends 20 ''list''] case_world) = Send_error"
proof -
  have lim: "codec_limits ref_wire" by (simp add: codec_limits_def ref_wire_def)
  have len: "length (fst (execute ref_wire ref_deps ''list'' case_world)) = 30000"
    by (simp add: execute_def ref_wire_def authorize_token_def token_refused_def http_eval service_eval sample_defs ref_defs
        ok_response_def MAX_RESPONSE_BYTES_def)
  from large_responses_end_the_connection [OF lim, of ref_deps ref_tcp_config "[]" case_world "sends 20 ''list''" 20 "''list''" "[]"] len
  have "serve_connection ref_wire ref_deps ref_tcp_config [sends 20 ''list''] case_world =
      (Send_error, [], 20, snd (execute ref_wire ref_deps ''list'' case_world))"
    by (simp add: MAX_REQUEST_BYTES_def MAX_RESPONSE_BYTES_def sends_def ref_tcp_config_def idle_timeout_def)
  with len show ?thesis by simp
qed

end
