(* ===== verification/Nats_Transport.thy ===== *)
theory Nats_Transport
  imports Tcp_Transport
begin

text \<open>
  The JetStream worker of \<^verbatim>\<open>src/transport.rs\<close> (module \<^verbatim>\<open>nats\<close>): its configuration, the checks of the
  pre-provisioned streams and consumer, the handling of one message and the consumer loop. The
  broker, JSON and the text form of a UUID are parameters. What the worker does to the broker is recorded as a list of effects
  in the order in which it happens.
\<close>

section \<open>Configuration\<close>

definition REQUEST_SUBJECT :: string where
  "REQUEST_SUBJECT = ''apme.web_api.outbox.status''"

definition RESPONSE_SUBJECT_PREFIX :: string where
  "RESPONSE_SUBJECT_PREFIX = ''apme.web_api.inbox.status''"

definition REQUEST_SCHEMA :: string where
  "REQUEST_SCHEMA = ''apme.async-status-request.v1''"

definition RESPONSE_SCHEMA :: string where
  "RESPONSE_SCHEMA = ''apme.async-status-response.v1''"

definition MAX_SIGNAL_BYTES :: nat where
  "MAX_SIGNAL_BYTES = 4 * 1024"

definition MAX_STATUS_RESPONSE_BYTES :: nat where
  "MAX_STATUS_RESPONSE_BYTES = 64 * 1024"

definition DEFAULT_REQUEST_STREAM :: string where
  "DEFAULT_REQUEST_STREAM = ''APME_STATUS_OUTBOX''"

definition DEFAULT_RESPONSE_STREAM :: string where
  "DEFAULT_RESPONSE_STREAM = ''APME_STATUS_INBOX''"

definition DEFAULT_CONSUMER :: string where
  "DEFAULT_CONSUMER = ''apme-api-status''"

record nats_config =
  nats_url :: string
  credentials_path :: string
  request_stream :: string
  response_stream :: string
  nats_consumer :: string

definition nats_optional_env :: "env_vars \<Rightarrow> string \<Rightarrow> string option" where
  "nats_optional_env env name = filter_opt (\<lambda>value. value \<noteq> []) (map_option trim (env name))"

definition nats_required_env :: "env_vars \<Rightarrow> string \<Rightarrow> string + string" where
  "nats_required_env env name =
     ok_or (name @ '' is required when JetStream is enabled'') (nats_optional_env env name)"

definition safe_topology_name :: "string \<Rightarrow> bool" where
  "safe_topology_name value \<longleftrightarrow>
     value \<noteq> [] \<and> length value \<le> 128 \<and>
     list_all (\<lambda>b. is_ascii_alphanumeric b \<or> b = CHR ''_'' \<or> b = CHR ''-'') value"

definition validate_nats_config :: "nats_config \<Rightarrow> string + unit" where
  "validate_nats_config config =
     and_then (ok_or ''APME_NATS_URL must use tls://'' (strip_prefix ''tls://'' (nats_url config))) (\<lambda>rest.
     let authority = hd (split_on (CHR ''/'') rest) in
     and_then
       (ensure (authority \<noteq> [] \<and> \<not> str_contains ''@'' authority)
         ''NATS credentials must come from the credentials file'') (\<lambda>_.
     and_then
       (try_map (\<lambda>value. ensure (safe_topology_name value) ''invalid JetStream topology name'')
         [request_stream config, response_stream config, nats_consumer config]) (\<lambda>_.
     Inr ())))"

definition with_default :: "string \<Rightarrow> string option \<Rightarrow> string" where
  "with_default d v = (case v of None \<Rightarrow> d | Some s \<Rightarrow> s)"

definition nats_config_from_env :: "env_vars \<Rightarrow> string + nats_config option" where
  "nats_config_from_env env =
     (case nats_optional_env env ''APME_NATS_URL'' of
        None \<Rightarrow> Inr None
      | Some url \<Rightarrow>
          and_then (nats_required_env env ''APME_NATS_CREDENTIALS_FILE'') (\<lambda>credentials.
          let config =
            \<lparr>nats_url = url, credentials_path = credentials,
             request_stream = with_default DEFAULT_REQUEST_STREAM (nats_optional_env env ''APME_NATS_REQUEST_STREAM''),
             response_stream = with_default DEFAULT_RESPONSE_STREAM (nats_optional_env env ''APME_NATS_RESPONSE_STREAM''),
             nats_consumer = with_default DEFAULT_CONSUMER (nats_optional_env env ''APME_NATS_CONSUMER'')\<rparr> in
          and_then (validate_nats_config config) (\<lambda>_. Inr (Some config))))"

section \<open>Topology\<close>

datatype storage_type = File_storage | Memory_storage

datatype retention_policy = Limits | Interest | WorkQueue

datatype ack_policy = Ack_explicit | Ack_none | Ack_all

record stream_config =
  st_storage :: storage_type
  st_retention :: retention_policy
  st_subjects :: "string list"
  st_allow_direct :: bool
  st_duplicate_window :: nat

record consumer_config =
  co_deliver_subject :: "string option"
  co_durable_name :: "string option"
  co_ack_policy :: ack_policy
  co_filter_subject :: string
  co_max_deliver :: int
  co_max_ack_pending :: int

definition validate_request_stream :: "stream_config \<Rightarrow> string + unit" where
  "validate_request_stream config =
     and_then (ensure (st_storage config = File_storage) ''request stream must use file storage'') (\<lambda>_.
     and_then (ensure (st_retention config = WorkQueue) ''request stream must use work-queue retention'') (\<lambda>_.
     and_then
       (ensure (list_ex (\<lambda>value. value = REQUEST_SUBJECT) (st_subjects config))
         ''request stream does not own canonical subject'') (\<lambda>_.
     ensure (st_duplicate_window config \<noteq> 0) ''request stream requires dedupe'')))"

definition validate_response_stream :: "stream_config \<Rightarrow> string + unit" where
  "validate_response_stream config =
     and_then (ensure (st_storage config = File_storage) ''response stream must use file storage'') (\<lambda>_.
     and_then (ensure (st_retention config = Limits) ''response stream must use limits retention'') (\<lambda>_.
     and_then (ensure (st_allow_direct config) ''response stream must allow direct reads'') (\<lambda>_.
     and_then
       (ensure (list_ex (\<lambda>value. value = RESPONSE_SUBJECT_PREFIX @ ''.*'') (st_subjects config))
         ''response stream does not own canonical subjects'') (\<lambda>_.
     ensure (st_duplicate_window config \<noteq> 0) ''response stream requires dedupe''))))"

definition validate_consumer :: "consumer_config \<Rightarrow> string \<Rightarrow> string + unit" where
  "validate_consumer config expected =
     and_then (ensure (co_deliver_subject config = None) ''consumer must be pull based'') (\<lambda>_.
     and_then (ensure (co_durable_name config = Some expected) ''consumer durable name mismatch'') (\<lambda>_.
     and_then (ensure (co_ack_policy config = Ack_explicit) ''consumer requires explicit acks'') (\<lambda>_.
     and_then (ensure (co_filter_subject config = REQUEST_SUBJECT) ''consumer filter mismatch'') (\<lambda>_.
     and_then
       (ensure (2 \<le> co_max_deliver config \<and> co_max_deliver config \<le> 100)
         ''consumer max_deliver out of bounds'') (\<lambda>_.
     ensure (1 \<le> co_max_ack_pending config \<and> co_max_ack_pending config \<le> 4096)
       ''consumer max_ack_pending out of bounds'')))))"

text \<open>What connecting asks of the NATS client: credentials, a connection, streams and the consumer.\<close>

record connect_options =
  require_tls :: bool
  client_name :: string
  connection_timeout_secs :: nat
  subscription_capacity :: nat

definition worker_options :: connect_options where
  "worker_options =
     \<lparr>require_tls = True, client_name = ''apme-api'', connection_timeout_secs = 5, subscription_capacity = 256\<rparr>"

record ('cred, 'conn) nats_client =
  load_credentials :: "string \<Rightarrow> 'cred option"
  nats_connect :: "'cred \<Rightarrow> connect_options \<Rightarrow> string \<Rightarrow> 'conn option"
  get_stream :: "'conn \<Rightarrow> string \<Rightarrow> stream_config option"
  get_consumer :: "'conn \<Rightarrow> string \<Rightarrow> string \<Rightarrow> string + consumer_config"

definition worker_connect ::
  "('cred, 'conn) nats_client \<Rightarrow> nats_config \<Rightarrow> string + ('conn \<times> consumer_config)" where
  "worker_connect N config =
     and_then (validate_nats_config config) (\<lambda>_.
     and_then (ok_or ''load NATS credentials'' (load_credentials N (credentials_path config))) (\<lambda>credentials.
     and_then
       (ok_or ''connect to NATS over TLS''
         (nats_connect N credentials worker_options (nats_url config))) (\<lambda>conn.
     and_then (ok_or ''get pre-provisioned request stream'' (get_stream N conn (request_stream config))) (\<lambda>requests.
     and_then (validate_request_stream requests) (\<lambda>_.
     and_then (ok_or ''get pre-provisioned response stream'' (get_stream N conn (response_stream config))) (\<lambda>responses.
     and_then (validate_response_stream responses) (\<lambda>_.
     and_then
       (map_err (\<lambda>e. ''get pre-provisioned durable consumer: '' @ e)
         (get_consumer N conn (request_stream config) (nats_consumer config))) (\<lambda>consumer.
     and_then (validate_consumer consumer (nats_consumer config)) (\<lambda>_.
     Inr (conn, consumer))))))))))"

section \<open>Messages\<close>

record status_request =
  sr_schema :: string
  sr_operation_id :: uuid

record status_response =
  ss_schema :: string
  ss_operation_id :: uuid
  ss_status :: string
  ss_service :: string
  ss_database_ready :: bool

record status_wire =
  parse_status_request :: "bytes \<Rightarrow> status_request option"
  print_status_response :: "status_response \<Rightarrow> bytes option"
  show_uuid :: "uuid \<Rightarrow> string"

definition decode_signal :: "status_wire \<Rightarrow> bytes \<Rightarrow> unit + uuid" where
  "decode_signal W payload =
     (if length payload > MAX_SIGNAL_BYTES then Inl ()
      else
        and_then (ok_or () (parse_status_request W payload)) (\<lambda>signal.
          if sr_schema signal \<noteq> REQUEST_SCHEMA then Inl () else Inr (sr_operation_id signal)))"

text \<open>
  Effects: what is sent for a message and, for a publication, the broker's confirmation. For each
  delivery the broker decides which of the worker's calls succeed.
\<close>

datatype nats_effect =
    Term_sent
  | Publish_sent string string bytes
  | Publish_confirmed string
  | Ack_sent

record broker =
  term_succeeds :: bool
  publish_accepted :: bool
  publish_durable :: bool
  ack_succeeds :: bool

definition status_response_for :: "uuid \<Rightarrow> status_response" where
  "status_response_for operation_id =
     \<lparr>ss_schema = RESPONSE_SCHEMA, ss_operation_id = operation_id, ss_status = ''ok'',
      ss_service = ''apme-api'', ss_database_ready = True\<rparr>"

definition response_subject :: "status_wire \<Rightarrow> uuid \<Rightarrow> string" where
  "response_subject W operation_id = RESPONSE_SUBJECT_PREFIX @ ''.'' @ show_uuid W operation_id"

definition response_message_id :: "status_wire \<Rightarrow> uuid \<Rightarrow> string" where
  "response_message_id W operation_id = ''apme-status-response-'' @ show_uuid W operation_id"

definition nats_handle :: "status_wire \<Rightarrow> broker \<Rightarrow> bytes \<Rightarrow> (string + unit) \<times> nats_effect list" where
  "nats_handle W B message =
     (case decode_signal W message of
        Inl _ \<Rightarrow> (ensure (term_succeeds B) ''terminate invalid signal'', [Term_sent])
      | Inr operation_id \<Rightarrow>
          (case print_status_response W (status_response_for operation_id) of
             None \<Rightarrow> (Inl ''encode async status response'', [])
           | Some payload \<Rightarrow>
               if \<not> length payload \<le> MAX_STATUS_RESPONSE_BYTES then (Inl ''status response too large'', [])
               else
                 (let published = Publish_sent (response_subject W operation_id)
                        (response_message_id W operation_id) payload;
                      confirmed = Publish_confirmed (response_message_id W operation_id) in
                  if \<not> publish_accepted B then (Inl ''publish durable status response'', [published])
                  else if \<not> publish_durable B
                  then (Inl ''await durable status response acknowledgement'', [published])
                  else
                    (ensure (ack_succeeds B) ''ack request after durable response'',
                     [published, confirmed, Ack_sent]))))"

section \<open>The consumer loop\<close>

datatype worker_input =
    Shutdown_signalled
  | Shutdown_dropped
  | Consumer_ended
  | Receive_failed
  | Delivered bytes broker

text \<open>How the loop ended, if it did, and the effects so far.\<close>

fun nats_serve :: "status_wire \<Rightarrow> worker_input list \<Rightarrow> (string + unit) option \<times> nats_effect list" where
  "nats_serve W [] = (None, [])"
| "nats_serve W (Shutdown_signalled # rest) = (Some (Inr ()), [])"
| "nats_serve W (Shutdown_dropped # rest) = (Some (Inl ''JetStream shutdown channel closed''), [])"
| "nats_serve W (Consumer_ended # rest) = (Some (Inl ''durable JetStream consumer ended''), [])"
| "nats_serve W (Receive_failed # rest) = (Some (Inl ''receive JetStream message''), [])"
| "nats_serve W (Delivered message B # rest) =
     (case nats_handle W B message of
        (Inl e, effects) \<Rightarrow> (Some (Inl e), effects)
      | (Inr _, effects) \<Rightarrow>
          (case nats_serve W rest of (ended, later) \<Rightarrow> (ended, effects @ later)))"

text \<open>The whole \<^verbatim>\<open>serve\<close>: opening the pull consumer may fail before the loop is entered.\<close>

definition worker_serve ::
  "status_wire \<Rightarrow> bool \<Rightarrow> worker_input list \<Rightarrow> (string + unit) option \<times> nats_effect list" where
  "worker_serve W consumer_starts inputs =
     (if consumer_starts then nats_serve W inputs
      else (Some (Inl ''start durable JetStream pull consumer''), []))"

end
