(* ===== verification/Nats_Properties.thy ===== *)
theory Nats_Properties
  imports Nats_Transport
begin

text \<open>
  What the JetStream worker guarantees: TLS and external credentials, a durable topology, a request is
  acknowledged only after its response is durable, responses are correlated so that broker
  deduplication makes redelivery harmless, and credential-carrying or malformed signals are terminated.
\<close>

section \<open>Configuration and topology\<close>

lemma hd_split_on: "hd (split_on d s) = takeWhile (\<lambda>c. c \<noteq> d) s"
  by (induction s) (auto split: list.splits)

lemma contains_at: "str_contains [c] s \<longleftrightarrow> c \<in> set s"
  by (induction s) auto

definition tls_without_credentials :: "string \<Rightarrow> bool" where
  "tls_without_credentials url \<longleftrightarrow>
     (\<exists>rest. url = ''tls://'' @ rest \<and> takeWhile (\<lambda>c. c \<noteq> CHR ''/'') rest \<noteq> [] \<and>
        CHR ''@'' \<notin> set (takeWhile (\<lambda>c. c \<noteq> CHR ''/'') rest))"

lemma validate_nats_config_iff:
  "validate_nats_config c = Inr () \<longleftrightarrow>
     tls_without_credentials (nats_url c) \<and>
     safe_topology_name (request_stream c) \<and> safe_topology_name (response_stream c) \<and>
     safe_topology_name (nats_consumer c)"
proof -
  have three: "(\<exists>us. try_map (\<lambda>value. ensure (safe_topology_name value) m) [a, b, d] = Inr us) \<longleftrightarrow>
      safe_topology_name a \<and> safe_topology_name b \<and> safe_topology_name d" for m a b d
    by (auto simp: ensure_def split: if_splits)
  show ?thesis
    unfolding validate_nats_config_def tls_without_credentials_def and_then_Inr_iff Let_def hd_split_on contains_at
    by (simp add: result_simps three strip_prefix_iff del: try_map.simps append_Cons) blast
qed

text \<open>
  The worker is configured for TLS with external credentials, or startup fails: without a URL it
  is disabled; a configuration results exactly when the URL has the \<^verbatim>\<open>tls\<close> scheme and an authority
  without user information, a credentials file is named, and stream and consumer names (the defaults where unset)
  consist of 1 through 128 letters, digits, underscores and hyphens.
\<close>

lemma nats_config_iff:
  "(nats_config_from_env env = Inr None \<longleftrightarrow> nats_optional_env env ''APME_NATS_URL'' = None) \<and>
   (nats_config_from_env env = Inr (Some c) \<longleftrightarrow>
      nats_optional_env env ''APME_NATS_URL'' = Some (nats_url c) \<and>
      nats_optional_env env ''APME_NATS_CREDENTIALS_FILE'' = Some (credentials_path c) \<and>
      request_stream c = with_default ''APME_STATUS_OUTBOX'' (nats_optional_env env ''APME_NATS_REQUEST_STREAM'') \<and>
      response_stream c = with_default ''APME_STATUS_INBOX'' (nats_optional_env env ''APME_NATS_RESPONSE_STREAM'') \<and>
      nats_consumer c = with_default ''apme-api-status'' (nats_optional_env env ''APME_NATS_CONSUMER'') \<and>
      tls_without_credentials (nats_url c) \<and>
      safe_topology_name (request_stream c) \<and> safe_topology_name (response_stream c) \<and>
      safe_topology_name (nats_consumer c))"
proof (cases "nats_optional_env env ''APME_NATS_URL''")
  case None
  then show ?thesis by (simp add: nats_config_from_env_def)
next
  case (Some url)
  then show ?thesis
    by (cases c)
      (auto simp: nats_config_from_env_def nats_required_env_def result_simps Let_def validate_nats_config_iff
        DEFAULT_REQUEST_STREAM_def DEFAULT_RESPONSE_STREAM_def DEFAULT_CONSUMER_def)
qed

text \<open>
  C35. The worker runs only on a durable topology: connecting succeeds only over TLS and only if the request
  stream is file-backed, work-queue, deduplicating and owns the request subject, the response stream is
  file-backed, limits-retained, directly readable, deduplicating and owns the response subjects, and the
  consumer is the configured durable pull consumer of the request subject with explicit
  acknowledgement and bounded redelivery.
\<close>

theorem worker_needs_durable_topology:
  assumes "worker_connect N config = Inr (conn, consumer)"
  shows "tls_without_credentials (nats_url config) \<and>
    (\<exists>credentials. load_credentials N (credentials_path config) = Some credentials \<and>
       nats_connect N credentials worker_options (nats_url config) = Some conn) \<and> require_tls worker_options \<and>
    (\<exists>requests. get_stream N conn (request_stream config) = Some requests \<and>
       st_storage requests = File_storage \<and> st_retention requests = WorkQueue \<and>
       REQUEST_SUBJECT \<in> set (st_subjects requests) \<and> 0 < st_duplicate_window requests) \<and>
    (\<exists>responses. get_stream N conn (response_stream config) = Some responses \<and>
       st_storage responses = File_storage \<and> st_retention responses = Limits \<and> st_allow_direct responses \<and>
       RESPONSE_SUBJECT_PREFIX @ ''.*'' \<in> set (st_subjects responses) \<and> 0 < st_duplicate_window responses) \<and>
    co_deliver_subject consumer = None \<and> co_durable_name consumer = Some (nats_consumer config) \<and>
    co_ack_policy consumer = Ack_explicit \<and> co_filter_subject consumer = REQUEST_SUBJECT \<and>
    2 \<le> co_max_deliver consumer \<and> co_max_deliver consumer \<le> 100 \<and>
    1 \<le> co_max_ack_pending consumer \<and> co_max_ack_pending consumer \<le> 4096"
  using assms
  unfolding worker_connect_def validate_request_stream_def validate_response_stream_def validate_consumer_def
  by (auto simp: result_simps validate_nats_config_iff list_ex_iff worker_options_def)

definition ref_nats_config :: nats_config where
  "ref_nats_config =
     \<lparr>nats_url = ''tls://broker:4222'', credentials_path = ''api.creds'', request_stream = DEFAULT_REQUEST_STREAM,
      response_stream = DEFAULT_RESPONSE_STREAM, nats_consumer = DEFAULT_CONSUMER\<rparr>"

definition ref_nats_client :: "(unit, unit) nats_client" where
  "ref_nats_client =
     \<lparr>load_credentials = (\<lambda>_. Some ()), nats_connect = (\<lambda>_ _ _. Some ()),
      get_stream = (\<lambda>_ name. Some
        (if name = DEFAULT_REQUEST_STREAM
         then \<lparr>st_storage = File_storage, st_retention = WorkQueue, st_subjects = [REQUEST_SUBJECT],
               st_allow_direct = False, st_duplicate_window = 120\<rparr>
         else \<lparr>st_storage = File_storage, st_retention = Limits, st_subjects = [RESPONSE_SUBJECT_PREFIX @ ''.*''],
               st_allow_direct = True, st_duplicate_window = 120\<rparr>)),
      get_consumer = (\<lambda>_ _ name. Inr
        \<lparr>co_deliver_subject = None, co_durable_name = Some name, co_ack_policy = Ack_explicit,
         co_filter_subject = REQUEST_SUBJECT, co_max_deliver = 5, co_max_ack_pending = 64\<rparr>)\<rparr>"

theorem worker_needs_durable_topology_witness:
  "\<exists>conn consumer. worker_connect ref_nats_client ref_nats_config = Inr (conn, consumer) \<and>
     co_ack_policy consumer = Ack_explicit"
proof -
  have v: "validate_nats_config ref_nats_config = Inr ()"
    unfolding validate_nats_config_def ref_nats_config_def
    by (simp add: Let_def safe_topology_name_def is_ascii_alphanumeric_def byte_def
        DEFAULT_REQUEST_STREAM_def DEFAULT_RESPONSE_STREAM_def DEFAULT_CONSUMER_def)
  have "\<exists>conn consumer. worker_connect ref_nats_client ref_nats_config = Inr (conn, consumer)"
    unfolding worker_connect_def v
    by (simp add: ref_nats_client_def ref_nats_config_def validate_request_stream_def validate_response_stream_def
        validate_consumer_def DEFAULT_REQUEST_STREAM_def DEFAULT_RESPONSE_STREAM_def)
  then obtain conn consumer where "worker_connect ref_nats_client ref_nats_config = Inr (conn, consumer)" by blast
  from worker_needs_durable_topology [OF this] this show ?thesis by blast
qed

section \<open>Messages\<close>

definition response_effects :: "status_wire \<Rightarrow> uuid \<Rightarrow> bytes \<Rightarrow> nats_effect list" where
  "response_effects W i payload =
     [Publish_sent (response_subject W i) (response_message_id W i) payload,
      Publish_confirmed (response_message_id W i), Ack_sent]"

lemma decode_signal_Inr_iff:
  "decode_signal W m = Inr i \<longleftrightarrow>
     length m \<le> MAX_SIGNAL_BYTES \<and>
     parse_status_request W m = Some \<lparr>sr_schema = REQUEST_SCHEMA, sr_operation_id = i\<rparr>"
  by (cases "parse_status_request W m") (auto simp: decode_signal_def)

text \<open>The four things that can happen to a message.\<close>

lemma nats_handle_cases:
  obtains (invalid) u where "decode_signal W m = Inl u" "nats_handle W B m = (ensure (term_succeeds B) ''terminate invalid signal'', [Term_sent])"
  | (silent) i e where "decode_signal W m = Inr i" "nats_handle W B m = (Inl e, [])"
  | (lost) i p e where "decode_signal W m = Inr i" "print_status_response W (status_response_for i) = Some p"
      "length p \<le> MAX_STATUS_RESPONSE_BYTES"
      "nats_handle W B m = (Inl e, [Publish_sent (response_subject W i) (response_message_id W i) p])"
  | (answered) i p where "decode_signal W m = Inr i" "print_status_response W (status_response_for i) = Some p"
      "length p \<le> MAX_STATUS_RESPONSE_BYTES" "publish_accepted B" "publish_durable B"
      "nats_handle W B m = (ensure (ack_succeeds B) ''ack request after durable response'', response_effects W i p)"
proof (cases "decode_signal W m")
  case (Inl u)
  then show thesis by (intro invalid) (simp_all add: nats_handle_def)
next
  case (Inr i)
  show thesis
  proof (cases "print_status_response W (status_response_for i)")
    case None
    with Inr show thesis by (intro silent) (simp_all add: nats_handle_def)
  next
    case (Some p)
    consider "\<not> length p \<le> MAX_STATUS_RESPONSE_BYTES" | "length p \<le> MAX_STATUS_RESPONSE_BYTES" "\<not> publish_accepted B"
      | "length p \<le> MAX_STATUS_RESPONSE_BYTES" "publish_accepted B" "\<not> publish_durable B"
      | "length p \<le> MAX_STATUS_RESPONSE_BYTES" "publish_accepted B" "publish_durable B" by blast
    then show thesis
    proof cases
      case 1
      with Inr Some show thesis by (intro silent) (simp_all add: nats_handle_def)
    next
      case 2
      with Inr Some show thesis by (intro lost) (simp_all add: nats_handle_def)
    next
      case 3
      with Inr Some show thesis by (intro lost) (simp_all add: nats_handle_def Let_def)
    next
      case 4
      with Inr Some show thesis by (intro answered) (simp_all add: nats_handle_def Let_def response_effects_def)
    qed
  qed
qed

text \<open>Every acknowledgement directly follows the confirmed publication of a response.\<close>

definition acks_follow_responses :: "status_wire \<Rightarrow> nats_effect list \<Rightarrow> bool" where
  "acks_follow_responses W effects \<longleftrightarrow>
     (\<forall>us vs. effects = us @ Ack_sent # vs \<longrightarrow> (\<exists>us' i p. us @ [Ack_sent] = us' @ response_effects W i p))"

lemma acks_append:
  assumes "acks_follow_responses W xs" and "acks_follow_responses W ys"
  shows "acks_follow_responses W (xs @ ys)"
  unfolding acks_follow_responses_def
proof (intro allI impI)
  fix us vs
  assume "xs @ ys = us @ Ack_sent # vs"
  then obtain t where "xs = us @ t \<and> t @ ys = Ack_sent # vs \<or> xs @ t = us \<and> ys = t @ Ack_sent # vs"
    by (auto simp: append_eq_append_conv2)
  then consider zs where "xs = us @ Ack_sent # zs" | zs where "us = xs @ zs" "ys = zs @ Ack_sent # vs"
    by (cases t) auto
  then show "\<exists>us' i p. us @ [Ack_sent] = us' @ response_effects W i p"
  proof cases
    case 1
    with assms(1) show ?thesis by (auto simp: acks_follow_responses_def)
  next
    case 2
    with assms(2) obtain us' i p where "zs @ [Ack_sent] = us' @ response_effects W i p"
      by (auto simp: acks_follow_responses_def)
    with 2 have "us @ [Ack_sent] = (xs @ us') @ response_effects W i p" by simp
    then show ?thesis by blast
  qed
qed

lemma no_acks: "Ack_sent \<notin> set xs \<Longrightarrow> acks_follow_responses W xs"
  by (auto simp: acks_follow_responses_def)

lemma response_acks: "acks_follow_responses W (response_effects W i p)"
  unfolding acks_follow_responses_def
proof (intro allI impI)
  fix us vs
  assume "response_effects W i p = us @ Ack_sent # vs"
  then have "us @ [Ack_sent] = [] @ response_effects W i p"
    by (auto simp: response_effects_def Cons_eq_append_conv)
  then show "\<exists>us' j q. us @ [Ack_sent] = us' @ response_effects W j q" by blast
qed

lemma nats_handle_acks: "acks_follow_responses W (snd (nats_handle W B m))"
  by (rule nats_handle_cases [of W m B]) (auto simp: response_acks intro: no_acks)

lemma nats_serve_acks: "acks_follow_responses W (snd (nats_serve W ins))"
proof (induction W ins rule: nats_serve.induct)
  case (6 W m B rest)
  show ?case
  proof (cases "nats_handle W B m")
    case (Pair r effects)
    with nats_handle_acks [of W B m] have "acks_follow_responses W effects" by simp
    with Pair 6 [of r effects] show ?thesis
      by (cases r; cases "nats_serve W rest") (auto intro: acks_append)
  qed
qed (simp_all add: no_acks)

text \<open>
  C14. A request is acknowledged only after its response is durable: in every run of the worker, each
  acknowledgement directly follows the publication of a response and the broker's confirmation of that
  same message, so a crash or failure before the confirmation leaves the request to be redelivered.
\<close>

theorem acknowledged_after_durable_response: "acks_follow_responses W (snd (worker_serve W starts ins))"
  by (simp add: worker_serve_def nats_serve_acks no_acks)

text \<open>What becomes of a message: terminated exactly when it is no valid signal, acknowledged exactly when its response was confirmed.\<close>

lemma signal_fate:
  "(snd (nats_handle W B m) = [Term_sent] \<longleftrightarrow> \<not> (\<exists>i. decode_signal W m = Inr i)) \<and>
   (Ack_sent \<in> set (snd (nats_handle W B m)) \<longleftrightarrow>
      (\<exists>i p. decode_signal W m = Inr i \<and> print_status_response W (status_response_for i) = Some p \<and>
         length p \<le> MAX_STATUS_RESPONSE_BYTES \<and> publish_accepted B \<and> publish_durable B))"
proof
  show "snd (nats_handle W B m) = [Term_sent] \<longleftrightarrow> \<not> (\<exists>i. decode_signal W m = Inr i)"
    by (rule nats_handle_cases [of W m B]) (auto simp: response_effects_def)
  show "Ack_sent \<in> set (snd (nats_handle W B m)) \<longleftrightarrow>
      (\<exists>i p. decode_signal W m = Inr i \<and> print_status_response W (status_response_for i) = Some p \<and>
         length p \<le> MAX_STATUS_RESPONSE_BYTES \<and> publish_accepted B \<and> publish_durable B)"
    by (cases "decode_signal W m"; cases "print_status_response W (status_response_for (projr (decode_signal W m)))")
      (auto simp: nats_handle_def Let_def)
qed

lemma nats_handle_published:
  "Publish_sent s k p \<in> set (snd (nats_handle W B m)) \<Longrightarrow>
     \<exists>i. s = response_subject W i \<and> k = response_message_id W i \<and>
       print_status_response W (status_response_for i) = Some p \<and> length p \<le> MAX_STATUS_RESPONSE_BYTES"
  by (rule nats_handle_cases [of W m B]) (auto simp: response_effects_def)

lemma nats_serve_published:
  "Publish_sent s k p \<in> set (snd (nats_serve W ins)) \<Longrightarrow>
     \<exists>i. s = response_subject W i \<and> k = response_message_id W i \<and>
       print_status_response W (status_response_for i) = Some p \<and> length p \<le> MAX_STATUS_RESPONSE_BYTES"
proof (induction W ins rule: nats_serve.induct)
  case (6 W m B rest)
  obtain r effects where h: "nats_handle W B m = (r, effects)" by (cases "nats_handle W B m")
  obtain ended later where l: "nats_serve W rest = (ended, later)" by (cases "nats_serve W rest")
  have "Publish_sent s k p \<in> set effects \<or> (\<exists>u. r = Inr u) \<and> Publish_sent s k p \<in> set later"
    using 6 h l by (cases r) auto
  then show ?case
  proof
    assume "Publish_sent s k p \<in> set effects"
    with h nats_handle_published [of s k p W B m] show ?thesis by simp
  next
    assume "(\<exists>u. r = Inr u) \<and> Publish_sent s k p \<in> set later"
    with 6 h l show ?thesis by auto
  qed
qed simp_all

text \<open>The text form of UUIDs distinguishes them, as documented for the UUID library.\<close>

definition uuid_text_injective :: "status_wire \<Rightarrow> bool" where
  "uuid_text_injective W \<longleftrightarrow> inj (show_uuid W)"

text \<open>
  Responses are correlated: over any run of the worker, redeliveries and failures included, two
  published responses carry the same message id exactly when they go to the same subject, and then their payloads are
  identical; so deduplication by message id keeps one response per operation and never drops the
  response of another operation.
\<close>

lemma responses_correlated:
  assumes "uuid_text_injective W"
    and "Publish_sent s k p \<in> set (snd (nats_serve W ins))" and "Publish_sent s' k' p' \<in> set (snd (nats_serve W ins'))"
  shows "(k = k' \<longleftrightarrow> s = s') \<and> (k = k' \<longrightarrow> p = p')"
proof -
  from nats_serve_published [OF assms(2)] nats_serve_published [OF assms(3)] obtain i j
    where i: "s = response_subject W i" "k = response_message_id W i" "print_status_response W (status_response_for i) = Some p"
      and j: "s' = response_subject W j" "k' = response_message_id W j" "print_status_response W (status_response_for j) = Some p'"
    by blast
  have "k = k' \<longleftrightarrow> i = j" "s = s' \<longleftrightarrow> i = j"
    using assms(1) i j by (auto simp: response_message_id_def response_subject_def uuid_text_injective_def inj_eq)
  with i j show ?thesis by auto
qed

definition ref_status_wire :: status_wire where
  "ref_status_wire =
     \<lparr>parse_status_request = (\<lambda>b. if b = ''ask'' then Some \<lparr>sr_schema = REQUEST_SCHEMA, sr_operation_id = 9\<rparr> else None),
      print_status_response = (\<lambda>r. Some (if ss_database_ready r then ''ready'' else ''not ready'')),
      show_uuid = (\<lambda>i. replicate (unat i) CHR ''i'')\<rparr>"

definition good_broker :: broker where
  "good_broker = \<lparr>term_succeeds = True, publish_accepted = True, publish_durable = True, ack_succeeds = True\<rparr>"

lemmas ref_nats_eval = ref_status_wire_def good_broker_def nats_handle_def decode_signal_def MAX_SIGNAL_BYTES_def
  status_response_for_def MAX_STATUS_RESPONSE_BYTES_def

text \<open>
  The status is a constant: every response the worker ever publishes claims that the database is
  ready, whatever the state of the database, because the answer is built without consulting it.
\<close>

lemma status_always_claims_ready:
  assumes "Publish_sent s k p \<in> set (snd (nats_serve W ins))"
  shows "\<exists>r. print_status_response W r = Some p \<and> ss_database_ready r \<and> ss_status r = ''ok'' \<and> length p \<le> 65536"
  using nats_serve_published [OF assms] by (auto simp: status_response_for_def MAX_STATUS_RESPONSE_BYTES_def)

lemma nats_serve_append:
  "nats_serve W ins = (None, effects) \<Longrightarrow>
     nats_serve W (ins @ tail) = (case nats_serve W tail of (ended, later) \<Rightarrow> (ended, effects @ later))"
proof (induction W ins arbitrary: effects rule: nats_serve.induct)
  case (6 W m B rest)
  obtain r es where h: "nats_handle W B m = (r, es)" by (cases "nats_handle W B m")
  obtain ended later where l: "nats_serve W rest = (ended, later)" by (cases "nats_serve W rest")
  from 6(2) h l obtain u where r: "r = Inr u" "ended = None" "effects = es @ later" by (cases r) auto
  from 6(1) [of r es u] h r l show ?case by (simp split: prod.splits)
qed (auto split: prod.splits)

text \<open>
  The first failure ends the worker: when handling a message fails (the broker refuses or does not confirm the
  response, or an acknowledgement fails), the loop returns that error and no later delivery, the redelivery of
  the same request included, is handled.
\<close>

lemma first_failure_ends_worker:
  assumes "nats_serve W ins = (None, effects)" and "nats_handle W B m = (Inl e, last_effects)"
  shows "nats_serve W (ins @ Delivered m B # rest) = (Some (Inl e), effects @ last_effects)"
  using nats_serve_append [OF assms(1), of "Delivered m B # rest"] assms(2) by simp

end
