(* ===== verification/Startup.thy ===== *)
theory Startup
  imports Web_Socket Cors Tcp_Connection Nats_Properties
begin

text \<open>
  Process startup (\<^verbatim>\<open>main\<close> and \<^verbatim>\<open>start_optional_transports\<close> of \<^verbatim>\<open>src/main.rs\<close>, \<^verbatim>\<open>Server::bind\<close> of the TCP
  transport): the order in which configuration is read, the database is connected and migrated
  and the listeners are opened, every step with its early return. What the operating system and the libraries answer
  is a parameter (\<open>platform\<close>); what becomes visible to the outside is recorded as a list of
  effects, also when startup fails half way.
\<close>

section \<open>Structured log records\<close>

text \<open>
  The records the process hands to the Ores logger (\<^verbatim>\<open>init_ores_logger\<close> and the end of \<^verbatim>\<open>main\<close>). The
  logger is a library: whether it takes a record is a parameter.
\<close>

datatype log_level = Log_info | Log_error

datatype field_value = Text_value string | Text_values "string list"

record log_record =
  lr_level :: log_level
  lr_messages :: "string list"
  lr_fields :: "(string \<times> field_value) list"
  lr_trace :: "string \<times> bool"
  lr_routine_id :: string

record logger_options =
  lo_app_name :: string
  lo_console :: bool

definition ores_options :: logger_options where
  "ores_options = \<lparr>lo_app_name = ''apme-api'', lo_console = True\<rparr>"

definition starting_record :: log_record where
  "starting_record =
     \<lparr>lr_level = Log_info, lr_messages = [''service.starting''],
      lr_fields =
        [(''auth.mode'', Text_value ''protected_introspection''),
         (''transport.modes'', Text_values
            [''direct_read_only_db'', ''stateless_http'', ''stateful_mtls_tcp'', ''durable_jetstream''])],
      lr_trace = (''ores-trace-MpUNZLngz1pc79VIPOQbX'', False),
      lr_routine_id = ''ores-routine-_8OcwCEq_zTlF_JkXAbYS''\<rparr>"

text \<open>The logger comes into being only when it takes the first record.\<close>

definition init_ores_logger :: "(logger_options \<Rightarrow> log_record \<Rightarrow> bool) \<Rightarrow> logger_options option" where
  "init_ores_logger send = (if send ores_options starting_record then Some ores_options else None)"

definition ROUTINE_ID :: string where
  "ROUTINE_ID = ''ores-routine-LXDz6tbVdoUI5eNeypgUQ''"

definition stopped_record :: log_record where
  "stopped_record =
     \<lparr>lr_level = Log_info, lr_messages = [''service.stopped''], lr_fields = [],
      lr_trace = (''ores-trace-FZpM2CvyWaNPgT1LBeAz7'', False), lr_routine_id = ROUTINE_ID\<rparr>"

definition serve_failed_record :: log_record where
  "serve_failed_record =
     \<lparr>lr_level = Log_error, lr_messages = [''service.serve.failed''], lr_fields = [],
      lr_trace = (''ores-trace-sGdZeKkFgTHxCLy5GtfOC'', False), lr_routine_id = ROUTINE_ID\<rparr>"

section \<open>Startup\<close>

record ('d, 'cert, 'key, 'root, 'verifier, 'tls, 'cred, 'conn) platform =
  log_send :: "logger_options \<Rightarrow> log_record \<Rightarrow> bool"
  auth_client_ok :: "string \<Rightarrow> bool"
  database_connect :: "pool_options \<Rightarrow> string \<Rightarrow> sql_error + 'd world"
  stored_functions :: "'d procs"
  http_conversions :: http_values
  tcp_listen :: "string \<Rightarrow> bool"
  tls_provider :: "('cert, 'key, 'root, 'verifier, 'tls) tls_library"
  nats_provider :: "('cred, 'conn) nats_client"
  parse_socket_addr :: "string \<Rightarrow> string option"
  http_listen :: "string \<Rightarrow> bool"

datatype startup_effect = Migrated | Tcp_serving tcp_config | Nats_serving nats_config | Http_serving string

datatype startup_error =
    Logger_failed
  | Auth_config auth_config_error
  | Case_config case_config_error
  | Migration_failed case_service_error
  | Cors_config cors_error
  | Transport_failed string
  | Invalid_bind_addr
  | Bind_failed
  | Serve_failed string

text \<open>\<^verbatim>\<open>Server::bind\<close>: the socket first, then the TLS configuration; the permits are those of the configuration.\<close>

definition tcp_server_bind ::
  "(string \<Rightarrow> bool) \<Rightarrow> ('cert, 'key, 'root, 'verifier, 'tls) tls_library \<Rightarrow> tcp_config \<Rightarrow>
     string + ('tls \<times> tcp_server)" where
  "tcp_server_bind listen T config =
     and_then (ensure (listen (tcp_bind config)) (''bind Apostille Me mTLS service at '' @ tcp_bind config)) (\<lambda>_.
     and_then (load_tls_config T config) (\<lambda>acceptor.
     Inr (acceptor, server_start (tcp_max_connections config))))"

definition start_tcp ::
  "('d, 'cert, 'key, 'root, 'verifier, 'tls, 'cred, 'conn) platform \<Rightarrow> env_vars \<Rightarrow>
     (string + unit) \<times> startup_effect list" where
  "start_tcp S env =
     (case tcp_config_from_env env of
        Inl e \<Rightarrow> (Inl e, [])
      | Inr None \<Rightarrow> (Inr (), [])
      | Inr (Some config) \<Rightarrow>
          (case tcp_server_bind (tcp_listen S) (tls_provider S) config of
             Inl e \<Rightarrow> (Inl e, [])
           | Inr _ \<Rightarrow> (Inr (), [Tcp_serving config])))"

definition start_nats ::
  "('d, 'cert, 'key, 'root, 'verifier, 'tls, 'cred, 'conn) platform \<Rightarrow> env_vars \<Rightarrow>
     (string + unit) \<times> startup_effect list" where
  "start_nats S env =
     (case nats_config_from_env env of
        Inl e \<Rightarrow> (Inl e, [])
      | Inr None \<Rightarrow> (Inr (), [])
      | Inr (Some config) \<Rightarrow>
          (case worker_connect (nats_provider S) config of
             Inl e \<Rightarrow> (Inl e, [])
           | Inr _ \<Rightarrow> (Inr (), [Nats_serving config])))"

definition start_optional_transports ::
  "('d, 'cert, 'key, 'root, 'verifier, 'tls, 'cred, 'conn) platform \<Rightarrow> env_vars \<Rightarrow>
     (string + unit) \<times> startup_effect list" where
  "start_optional_transports S env =
     (case start_tcp S env of
        (Inl e, effects) \<Rightarrow> (Inl e, effects)
      | (Inr _, effects) \<Rightarrow>
          (case start_nats S env of (r, more_effects) \<Rightarrow> (r, effects @ more_effects)))"

record 'd running =
  run_auth :: auth_service
  run_cors :: cors_layer
  run_state :: "'d app_state"
  run_addr :: string

definition bind_addr :: "env_vars \<Rightarrow> string" where
  "bind_addr env = (case env ''BIND_ADDR'' of None \<Rightarrow> ''127.0.0.1:8080'' | Some a \<Rightarrow> a)"

definition open_http ::
  "('d, 'cert, 'key, 'root, 'verifier, 'tls, 'cred, 'conn) platform \<Rightarrow> env_vars \<Rightarrow> startup_error + string" where
  "open_http S env =
     and_then (ok_or Invalid_bind_addr (parse_socket_addr S (bind_addr env))) (\<lambda>addr.
     and_then (ensure (http_listen S addr) Bind_failed) (\<lambda>_. Inr addr))"

definition startup ::
  "('d, 'cert, 'key, 'root, 'verifier, 'tls, 'cred, 'conn) platform \<Rightarrow> env_vars \<Rightarrow>
     (startup_error + 'd running) \<times> startup_effect list" where
  "startup S env =
     (case init_ores_logger (log_send S) of
        None \<Rightarrow> (Inl Logger_failed, [])
      | Some _ \<Rightarrow>
     (case auth_from_env (auth_client_ok S) env of
        Inl e \<Rightarrow> (Inl (Auth_config e), [])
      | Inr auth \<Rightarrow>
     (case case_service_from_env (database_connect S) env of
        Inl e \<Rightarrow> (Inl (Case_config e), [])
      | Inr w \<Rightarrow>
     (case migrate (stored_functions S) w of
        (Inl e, _) \<Rightarrow> (Inl (Migration_failed e), [])
      | (Inr _, w1) \<Rightarrow>
     (case cors_layer_from_env (http_conversions S) env of
        Inl e \<Rightarrow> (Inl (Cors_config e), [Migrated])
      | Inr cors \<Rightarrow>
     (case start_optional_transports S env of
        (Inl e, effects) \<Rightarrow> (Inl (Transport_failed e), Migrated # effects)
      | (Inr _, effects) \<Rightarrow>
     (case open_http S env of
        Inl e \<Rightarrow> (Inl e, Migrated # effects)
      | Inr addr \<Rightarrow>
          (Inr \<lparr>run_auth = auth, run_cors = cors, run_state = \<lparr>app_cases = w1, app_events = []\<rparr>,
                run_addr = addr\<rparr>,
           Migrated # effects @ [Http_serving addr]))))))))"

text \<open>
  The whole of \<^verbatim>\<open>main\<close>, given how serving HTTP ended: its result, what it opened, and the records it handed to the
  logger; a record refused at the end is ignored.
\<close>

definition final_record :: "string + unit \<Rightarrow> log_record" where
  "final_record served = (case served of Inr _ \<Rightarrow> stopped_record | Inl _ \<Rightarrow> serve_failed_record)"

definition main_process ::
  "('d, 'cert, 'key, 'root, 'verifier, 'tls, 'cred, 'conn) platform \<Rightarrow> env_vars \<Rightarrow> string + unit \<Rightarrow>
     (startup_error + unit) \<times> startup_effect list \<times> log_record list" where
  "main_process S env served =
     (case startup S env of
        (Inl e, effects) \<Rightarrow> (Inl e, effects, [starting_record])
      | (Inr _, effects) \<Rightarrow>
          (map_err Serve_failed served, effects, [starting_record, final_record served]))"

section \<open>Properties\<close>

text \<open>The settings without which nothing may be served.\<close>

definition required_settings :: "env_vars \<Rightarrow> bool" where
  "required_settings env \<longleftrightarrow>
     (\<forall>name \<in> {''DATABASE_URL'', ''SHARED_AUTH_BASE_URL'', ''SHARED_AUTH_ISSUER'', ''SHARED_AUTH_AUDIENCE'',
        ''SHARED_AUTH_INTROSPECTION_CREDENTIAL''}. \<exists>raw. env name = Some raw \<and> trim raw \<noteq> []) \<and>
     (production env \<longrightarrow> env ''CORS_ALLOWED_ORIGINS'' \<noteq> None)"

lemma auth_from_env_required:
  "auth_from_env ok env = Inr auth \<Longrightarrow>
     \<forall>name \<in> {''SHARED_AUTH_BASE_URL'', ''SHARED_AUTH_ISSUER'', ''SHARED_AUTH_AUDIENCE'',
        ''SHARED_AUTH_INTROSPECTION_CREDENTIAL''}. \<exists>raw. env name = Some raw \<and> trim raw \<noteq> []"
  by (auto simp: auth_from_env_def required_env_def result_simps)

lemma case_service_required: "case_service_from_env connect env = Inr w \<Longrightarrow> \<exists>raw. env ''DATABASE_URL'' = Some raw \<and> trim raw \<noteq> []"
  by (auto simp: case_service_from_env_def database_url_def result_simps)

lemma cors_required: "cors_layer_from_env H env = Inr cors \<Longrightarrow> production env \<longrightarrow> env ''CORS_ALLOWED_ORIGINS'' \<noteq> None"
  by (auto simp: cors_layer_from_env_def split: option.splits if_splits)

lemma migrate_Inr:
  "migrate P w = (Inr u, w') \<Longrightarrow> persistence_migration P (presented w) = Inr ((), store w')"
  by (auto simp: migrate_def result_simps dest: db_call_Inr(1))

text \<open>Startup that got past the origin policy, from inside.\<close>

lemma startup_served:
  assumes "startup S env = (r, effects)" and "e \<in> set effects" and "e \<noteq> Migrated"
  obtains auth w w1 cors t more where "auth_from_env (auth_client_ok S) env = Inr auth"
    "case_service_from_env (database_connect S) env = Inr w" "migrate (stored_functions S) w = (Inr (), w1)"
    "cors_layer_from_env (http_conversions S) env = Inr cors" "start_optional_transports S env = (t, more)"
    "effects = Migrated # more \<or> (\<exists>addr. effects = Migrated # more @ [Http_serving addr])"
proof -
  obtain auth options where a: "auth_from_env (auth_client_ok S) env = Inr auth" "init_ores_logger (log_send S) = Some options"
    using assms by (cases "auth_from_env (auth_client_ok S) env"; cases "init_ores_logger (log_send S)")
      (auto simp: startup_def)
  obtain w where w: "case_service_from_env (database_connect S) env = Inr w"
    using assms a by (cases "case_service_from_env (database_connect S) env") (auto simp: startup_def)
  obtain w1 where m: "migrate (stored_functions S) w = (Inr (), w1)"
    using assms a w by (cases "migrate (stored_functions S) w"; cases "fst (migrate (stored_functions S) w)")
      (auto simp: startup_def)
  obtain cors where c: "cors_layer_from_env (http_conversions S) env = Inr cors"
    using assms a w m by (cases "cors_layer_from_env (http_conversions S) env") (auto simp: startup_def)
  obtain t more where tr: "start_optional_transports S env = (t, more)" by (cases "start_optional_transports S env")
  have "effects = Migrated # more \<or> (\<exists>addr. effects = Migrated # more @ [Http_serving addr])"
    using assms(1) a w m c tr by (cases t; cases "open_http S env") (auto simp: startup_def)
  with that a w m c tr show thesis by blast
qed

lemma transports_started:
  assumes "start_optional_transports S env = (t, more_effects)"
  shows "Tcp_serving c \<in> set more_effects \<Longrightarrow>
      tcp_config_from_env env = Inr (Some c) \<and> (\<exists>tls. load_tls_config (tls_provider S) c = Inr tls)"
    and "Nats_serving n \<in> set more_effects \<Longrightarrow>
      nats_config_from_env env = Inr (Some n) \<and> (\<exists>x. worker_connect (nats_provider S) n = Inr x)"
    and "Migrated \<notin> set more_effects"
  using assms
  by (auto simp: start_optional_transports_def start_tcp_def start_nats_def tcp_server_bind_def result_simps
      split: prod.splits sum.splits option.splits)

text \<open>
  C12. Nothing is served before the service is configured and the database migrated: if startup,
  whether it succeeds or fails later, opens any listener or consumer, then all required settings
  are present (in production also the origin list), the migration had run successfully and came first, a TCP listener
  has its complete configuration and a TLS setup that loaded, and a JetStream worker its complete configuration
  and a topology that passed the checks.
\<close>

theorem nothing_served_unconfigured:
  assumes "e \<in> set (snd (startup S env))" and "e \<noteq> Migrated"
  shows "required_settings env \<and> hd (snd (startup S env)) = Migrated \<and>
    (\<exists>d d'. persistence_migration (stored_functions S) d = Inr ((), d')) \<and>
    (\<forall>c. e = Tcp_serving c \<longrightarrow>
       tcp_config_from_env env = Inr (Some c) \<and> (\<exists>tls. load_tls_config (tls_provider S) c = Inr tls)) \<and>
    (\<forall>c. e = Nats_serving c \<longrightarrow>
       nats_config_from_env env = Inr (Some c) \<and> (\<exists>x. worker_connect (nats_provider S) c = Inr x))"
proof -
  obtain r effects where run: "startup S env = (r, effects)" by (cases "startup S env")
  with assms have e: "e \<in> set effects" by simp
  obtain auth w w1 cors t others where a: "auth_from_env (auth_client_ok S) env = Inr auth"
    and w: "case_service_from_env (database_connect S) env = Inr w"
    and m: "migrate (stored_functions S) w = (Inr (), w1)"
    and c: "cors_layer_from_env (http_conversions S) env = Inr cors"
    and t: "start_optional_transports S env = (t, others)"
    and effects: "effects = Migrated # others \<or> (\<exists>addr. effects = Migrated # others @ [Http_serving addr])"
    using startup_served [OF run e assms(2)] .
  have "required_settings env"
    using auth_from_env_required [OF a] case_service_required [OF w] cors_required [OF c]
    by (simp add: required_settings_def)
  moreover have "hd (snd (startup S env)) = Migrated" using run effects by auto
  moreover have "\<exists>d d'. persistence_migration (stored_functions S) d = Inr ((), d')"
    using migrate_Inr [OF m] by blast
  moreover have "e \<in> set others" if "\<forall>addr. e \<noteq> Http_serving addr"
    using that e assms(2) effects by auto
  ultimately show ?thesis using transports_started(1,2) [OF t] by auto
qed

definition ref_platform ::
  "(ledger_database, string, string, string, string list, string list \<times> string list \<times> string, unit, unit) platform" where
  "ref_platform =
     \<lparr>log_send = (\<lambda>_ _. True), auth_client_ok = (\<lambda>_. True), database_connect = (\<lambda>_ _. Inr sample_world),
      stored_functions = ref_procs, http_conversions = ref_http, tcp_listen = (\<lambda>_. True),
      tls_provider = ref_tls, nats_provider = ref_nats_client, parse_socket_addr = Some, http_listen = (\<lambda>_. True)\<rparr>"

definition ref_env :: env_vars where
  "ref_env =
     [''DATABASE_URL'' \<mapsto> ''postgres:///apme'', ''SHARED_AUTH_BASE_URL'' \<mapsto> ''https://auth.example'',
      ''SHARED_AUTH_ISSUER'' \<mapsto> ''https://auth.example'', ''SHARED_AUTH_AUDIENCE'' \<mapsto> ''apostille-me'',
      ''SHARED_AUTH_INTROSPECTION_CREDENTIAL'' \<mapsto> ''svc'',
      ''CORS_ALLOWED_ORIGINS'' \<mapsto> ''https://app'']"

lemmas startup_eval = startup_def init_ores_logger_def ref_platform_def ref_env_def auth_from_env_def required_env_def
  case_service_from_env_def database_url_def migrate_def act_map_err_def db_call_def run_stmt_def
  sample_world_def ref_procs_def cors_layer_from_env_def cors_layer_of_def parse_allowed_origins_def
  candidates_def comma_def parse_origin_def origin_authority_def ref_http_def string_eval
  start_optional_transports_def start_tcp_def start_nats_def tcp_config_from_env_def optional_env_def
  nats_config_from_env_def nats_optional_env_def open_http_def bind_addr_def

lemma ref_startup:
  "\<exists>running. startup ref_platform ref_env = (Inr running, [Migrated, Http_serving ''127.0.0.1:8080''])"
  by (simp add: startup_eval)

theorem nothing_served_unconfigured_witness:
  "Http_serving ''127.0.0.1:8080'' \<in> set (snd (startup ref_platform ref_env)) \<and> required_settings ref_env"
proof -
  have "Http_serving ''127.0.0.1:8080'' \<in> set (snd (startup ref_platform ref_env))" using ref_startup by auto
  from nothing_served_unconfigured [OF this] this show ?thesis by simp
qed

text \<open>
  A successful startup serves exactly the configured avenues: after the migration the TCP
  transport if and only if its bind address is set, then the JetStream worker if and only if its URL is set, then HTTP on the
  configured address; an avenue that is enabled but misconfigured makes startup fail. The application starts with an
  empty event channel and a policy of exact origins.
\<close>

lemma startup_serves_what_is_configured:
  assumes "startup S env = (Inr running, effects)"
  shows "\<exists>tcp nats. tcp_config_from_env env = Inr tcp \<and> nats_config_from_env env = Inr nats \<and>
    effects = Migrated # map Tcp_serving (case tcp of None \<Rightarrow> [] | Some c \<Rightarrow> [c]) @
      map Nats_serving (case nats of None \<Rightarrow> [] | Some c \<Rightarrow> [c]) @ [Http_serving (run_addr running)] \<and>
    parse_socket_addr S (bind_addr env) = Some (run_addr running) \<and>
    initial (run_state running) \<and> cors_layer_from_env (http_conversions S) env = Inr (run_cors running) \<and>
    auth_from_env (auth_client_ok S) env = Inr (run_auth running)"
  using assms
  by (auto simp: startup_def start_optional_transports_def start_tcp_def start_nats_def open_http_def
      result_simps initial_def split: if_splits prod.splits sum.splits option.splits)

text \<open>
  The log reveals nothing but the outcome: the records handed to the structured logger are the same
  constants in every run that ends alike; no setting, credential, address, error or request can show in them. \<^verbatim>\<open>main\<close> returns
  without an error exactly when startup succeeded and serving ended without one.
\<close>

lemma logs_reveal_outcome_only:
  assumes "isl (fst (startup S env)) = isl (fst (startup S' env'))" and "isl served = isl served'"
  shows "snd (snd (main_process S env served)) = snd (snd (main_process S' env' served')) \<and>
    set (snd (snd (main_process S env served))) \<subseteq> {starting_record, stopped_record, serve_failed_record} \<and>
    (fst (main_process S env served) = Inr () \<longleftrightarrow> \<not> isl (fst (startup S env)) \<and> \<not> isl served)"
  using assms
  by (cases "startup S env"; cases "fst (startup S env)"; cases "startup S' env'"; cases "fst (startup S' env')";
      cases served; cases served')
    (auto simp: main_process_def final_record_def)

end
