(* ===== verification/Retries.thy ===== *)
theory Retries
  imports Case_Properties Effects
begin

text \<open>
  Retrying mutations. The three mutations of the service are put under one name (\<open>mutate\<close>), and what a client
  may rely on when it repeats a request with the same key is proved for all of them, from what the
  repository documents of the stored functions.
\<close>

section \<open>The mutations under one name\<close>

datatype mutation =
    Creation create_case_command
  | Transition uuid transition_case_command
  | Rotation uuid rotate_encrypted_object_command

primrec mutate ::
  "interfaces \<Rightarrow> 'x database_scheme procs \<Rightarrow> tenant_context \<Rightarrow> verified_subject \<Rightarrow> string \<Rightarrow> instant \<Rightarrow> mutation \<Rightarrow>
     ('x database_scheme world, case_service_error, case_mutation_result) action" where
  "mutate L P c subject key now (Creation x) = create_case L P c subject key x now"
| "mutate L P c subject key now (Transition i x) = transition_case L P c subject i key x now"
| "mutate L P c subject key now (Rotation i x) = rotate_encrypted_object L P c subject i key x now"

primrec prepare ::
  "interfaces \<Rightarrow> 'x database_scheme procs \<Rightarrow> tenant_context \<Rightarrow> verified_subject \<Rightarrow> string \<Rightarrow> instant \<Rightarrow> mutation \<Rightarrow>
     case_service_error + ('x database_scheme, mutation_row) stmt" where
  "prepare L P c subject key now (Creation x) = prepare_create L P c (subject, key, x, now)"
| "prepare L P c subject key now (Transition i x) = prepare_transition L P c (subject, i, key, x, now)"
| "prepare L P c subject key now (Rotation i x) = prepare_rotate L P c (subject, i, key, x, now)"

primrec mutation_permitted :: "interfaces \<Rightarrow> mutation \<Rightarrow> tenant_role \<Rightarrow> bool" where
  "mutation_permitted L (Creation _) = can_create_or_transition L"
| "mutation_permitted L (Transition _ _) = can_create_or_transition L"
| "mutation_permitted L (Rotation _ _) = can_export_or_delete L"

interpretation mutating: prepared_mutation "mutation_permitted L x"
  "\<lambda>c (subject, key, now). prepare L P c subject key now x"
  "\<lambda>c (subject, key, now). mutate L P c subject key now x" for L P x
proof
  show "(\<lambda>(subject, key, now). mutate L P c subject key now x) q w =
      (case (\<lambda>(subject, key, now). prepare L P c subject key now x) q of
         Inl e \<Rightarrow> (Inl e, w) | Inr st \<Rightarrow> commit_mutation c st w)" for c q w
    using creating.run_prepared [of L P c] transitioning.run_prepared [of L P c] rotating.run_prepared [of L P c]
    by (cases q; cases x) auto
  show "(\<lambda>(subject, key, now). prepare L P c subject key now x) q = Inl NotAuthorized"
    if "\<not> mutation_permitted L x (ctx_role c)" for c q
    using that creating.prepare_refuses [of L c P] transitioning.prepare_refuses [of L c P]
      rotating.prepare_refuses [of L c P]
    by (cases q; cases x) auto
qed

section \<open>What the stored functions promise\<close>

text \<open>
  The documented idempotency of the stored functions: once a call has committed for a key, the
  same call at any later time returns the same row marked as replayed and changes nothing.
\<close>

definition mutations_replay :: "'d procs \<Rightarrow> bool" where
  "mutations_replay P \<longleftrightarrow>
     (\<forall>a n. repeats (apme_create_case P a) (apme_create_case P (a\<lparr>ca_now := n\<rparr>))) \<and>
     (\<forall>a n. repeats (apme_transition_case P a) (apme_transition_case P (a\<lparr>ta_now := n\<rparr>))) \<and>
     (\<forall>a n. repeats (apme_rotate_case_object P a) (apme_rotate_case_object P (a\<lparr>ra_now := n\<rparr>)))"

lemma with_ledger_repeats:
  assumes "\<And>d row d'. fresh d = Inr (row, d') \<Longrightarrow> map_of (ledger d') (t, k) = Some (h, row)"
  shows "repeats (with_ledger t k h fresh) (with_ledger t k h fresh')"
  using assms by (auto simp: repeats_def with_ledger_def split: option.splits if_splits)

lemma ref_mutations_replay: "mutations_replay ref_procs"
  unfolding mutations_replay_def
  by (auto simp: ref_procs_def ref_create_def ref_transition_def ref_rotate_def versioned_def log_mutation_def
      Let_def intro!: with_ledger_repeats split: option.splits if_splits)

text \<open>Only a creation is checked against the clock.\<close>

primrec valid_at :: "interfaces \<Rightarrow> instant \<Rightarrow> mutation \<Rightarrow> bool" where
  "valid_at L t (Creation x) \<longleftrightarrow> validate_create L x t = Inr ()"
| "valid_at L t (Transition _ _) \<longleftrightarrow> True"
| "valid_at L t (Rotation _ _) \<longleftrightarrow> True"

lemma prepare_later:
  assumes "mutations_replay P" and "prepare L P c subject key now x = Inr st" and "valid_at L t x"
  shows "\<exists>st'. prepare L P c subject key t x = Inr st' \<and> repeats st st'"
proof (cases x)
  case (Creation y)
  with assms obtain h where "st = apme_create_case P (create_args_of c subject key h y now)"
    and "prepare L P c subject key t x = Inr (apme_create_case P (create_args_of c subject key h y t))"
    by (auto simp: prepare_create_def result_simps)
  moreover have "create_args_of c subject key h y t = (create_args_of c subject key h y now)\<lparr>ca_now := t\<rparr>"
    by (simp add: create_args_of_def)
  ultimately show ?thesis using assms(1) by (simp add: mutations_replay_def)
next
  case (Transition i y)
  with assms obtain h where "st = apme_transition_case P (transition_args_of c subject i key h y now)"
    and "prepare L P c subject key t x = Inr (apme_transition_case P (transition_args_of c subject i key h y t))"
    by (auto simp: prepare_transition_def result_simps)
  moreover have "transition_args_of c subject i key h y t = (transition_args_of c subject i key h y now)\<lparr>ta_now := t\<rparr>"
    by (simp add: transition_args_of_def)
  ultimately show ?thesis using assms(1) by (simp add: mutations_replay_def)
next
  case (Rotation i y)
  with assms obtain h where "st = apme_rotate_case_object P (rotate_args_of c subject i key h y now)"
    and "prepare L P c subject key t x = Inr (apme_rotate_case_object P (rotate_args_of c subject i key h y t))"
    by (auto simp: prepare_rotate_def result_simps)
  moreover have "rotate_args_of c subject i key h y t = (rotate_args_of c subject i key h y now)\<lparr>ra_now := t\<rparr>"
    by (simp add: rotate_args_of_def Let_def)
  ultimately show ?thesis using assms(1) by (simp add: mutations_replay_def)
qed

section \<open>Repetition and loss\<close>

lemma mutate_replay:
  assumes "mutations_replay P" and "agenda w = []" and "mutate L P c subject key now x w = (Inr m, v)" and "valid_at L t x"
  shows "mutate L P c subject key t x v = (Inr (m\<lparr>mr_replayed := True\<rparr>), v)"
  using mutating.run_again [of w L P c x "(subject, key, now)" m v "(subject, key, t)"] assms
    prepare_later [OF assms(1) _ assms(4)]
  by simp

lemma mutate_lost:
  assumes "agenda w = [(id, Some (Lost_after msg))]" and "mutate L P c subject key now x (w\<lparr>agenda := []\<rparr>) = (Inr m, v)"
  shows "mutate L P c subject key now x w = (Inl (Storage (Client_error msg)), v)"
  using mutating.run_lost [of w msg L P c x "(subject, key, now)" m v] assms by simp

text \<open>
  Retrying a mutation whose answer was lost: for each of the three mutations, if the connection
  breaks after the stored function committed, the caller sees a storage error; repeating the
  request with the same key and command at any later time at which the command still validates returns the very
  case and event of the lost attempt, marked as replayed, and writes nothing further.
\<close>

lemma mutation_retry_after_loss:
  assumes "mutations_replay P" and "agenda w = [(id, Some (Lost_after msg))]"
    and "mutate L P c subject key now x (w\<lparr>agenda := []\<rparr>) = (Inr m, v)" and "valid_at L t x"
  shows "mutate L P c subject key now x w = (Inl (Storage (Client_error msg)), v) \<and>
    mutate L P c subject key t x v = (Inr (m\<lparr>mr_replayed := True\<rparr>), v)"
  using mutate_lost [OF assms(2,3)] mutate_replay [OF assms(1) _ assms(3,4)] by simp

lemma sample_transition:
  "\<exists>m v. mutate ref_interfaces ref_procs alice_context alice ''k2'' 6 (Transition 1 transition_command) case_world = (Inr m, v) \<and>
     pc_version (mr_case m) = 2 \<and> er_case_version (mr_event m) = 2 \<and> \<not> mr_replayed m"
  by (simp add: service_eval sample_defs ref_defs)

section \<open>What a mutation sends\<close>

text \<open>
  The call of the stored function of a mutation, column by column: the parameters it was given, on which database, and what it
  returned.
\<close>

primrec call_sent ::
  "interfaces \<Rightarrow> 'd procs \<Rightarrow> tenant_context \<Rightarrow> verified_subject \<Rightarrow> string \<Rightarrow> instant \<Rightarrow> mutation \<Rightarrow>
     'd \<Rightarrow> mutation_row \<times> 'd \<Rightarrow> bool" where
  "call_sent L P c subject key now (Creation x) d returned \<longleftrightarrow>
     (\<exists>payload args. json_to_vec L (Create_input 1 x) = Inr payload \<and> apme_create_case P args d = Inr returned \<and>
        ca_tenant_id args = ctx_tenant_id c \<and> ca_actor args = vs_shared_user_id subject \<and> ca_idempotency_key args = key \<and>
        ca_request_hash args = sha256_digest L payload \<and> ca_title args = cc_title x \<and> ca_summary args = cc_summary x \<and>
        ca_client_reference args = cc_client_reference x \<and> ca_destination_country args = cc_destination_country x \<and>
        ca_document_type args = cc_document_type x \<and> ca_next_action_due_at args = cc_next_action_due_at x \<and>
        parse_retention (ca_retention_class args) = Inr (cc_retention_class x) \<and> ca_retain_until args = cc_retain_until x \<and>
        ca_object_reference args = map_option object_reference (cc_encrypted_document x) \<and>
        ca_ciphertext_sha256 args = map_option ciphertext_sha256 (cc_encrypted_document x) \<and>
        ca_key_version args = map_option key_version (cc_encrypted_document x) \<and> ca_now args = now)"
| "call_sent L P c subject key now (Transition i x) d returned \<longleftrightarrow>
     (\<exists>payload args. json_to_vec L (Transition_input 1 i x) = Inr payload \<and> apme_transition_case P args d = Inr returned \<and>
        ta_tenant_id args = ctx_tenant_id c \<and> ta_actor args = vs_shared_user_id subject \<and> ta_idempotency_key args = key \<and>
        ta_request_hash args = sha256_digest L payload \<and> ta_case_id args = i \<and>
        ta_expected_version args = tc_expected_version x \<and> 0 < ta_expected_version args \<and>
        parse_status (ta_to_status args) = Inr (tc_to_status x) \<and> ta_now args = now)"
| "call_sent L P c subject key now (Rotation i x) d returned \<longleftrightarrow>
     (\<exists>payload args. json_to_vec L (Rotate_input 1 i x) = Inr payload \<and> apme_rotate_case_object P args d = Inr returned \<and>
        ra_tenant_id args = ctx_tenant_id c \<and> ra_actor args = vs_shared_user_id subject \<and> ra_idempotency_key args = key \<and>
        ra_request_hash args = sha256_digest L payload \<and> ra_case_id args = i \<and>
        ra_expected_version args = rc_expected_version x \<and> 0 < ra_expected_version args \<and>
        \<lparr>object_reference = ra_object_reference args, ciphertext_sha256 = ra_ciphertext_sha256 args,
          key_version = ra_key_version args\<rparr> = rc_encrypted_document x \<and> ra_now args = now)"

lemma hash_sent: "canonical_hash L x = Inr h \<Longrightarrow> \<exists>payload. json_to_vec L x = Inr payload \<and> h = sha256_digest L payload"
  by (auto simp: canonical_hash_def result_simps)

lemma prepare_sent:
  assumes "prepare L P c subject key now x = Inr st" and "st d = Inr returned"
  shows "mutation_permitted L x (ctx_role c)" and "validate_idempotency_key key = Inr ()"
    and "call_sent L P c subject key now x d returned"
proof -
  show "mutation_permitted L x (ctx_role c)" "validate_idempotency_key key = Inr ()"
    using assms(1) by (cases x; auto simp: prepare_defs result_simps require_mutator_def split: if_splits)+
  show "call_sent L P c subject key now x d returned"
  proof (cases x)
    case (Creation y)
    with assms(1) obtain h where "canonical_hash L (Create_input 1 y) = Inr h"
      and st: "st = apme_create_case P (create_args_of c subject key h y now)"
      by (auto simp: prepare_defs result_simps)
    with hash_sent obtain payload where "json_to_vec L (Create_input 1 y) = Inr payload" "h = sha256_digest L payload" by blast
    with st assms(2) Creation show ?thesis
      by (auto simp: create_args_of_def retention_codec.parse_name intro!: exI [of _ "create_args_of c subject key h y now"])
  next
    case (Transition i y)
    with assms(1) obtain h where "canonical_hash L (Transition_input 1 i y) = Inr h" and v: "0 < tc_expected_version y"
      and st: "st = apme_transition_case P (transition_args_of c subject i key h y now)"
      by (auto simp: prepare_defs result_simps positive_version_def split: if_splits)
    with hash_sent obtain payload where "json_to_vec L (Transition_input 1 i y) = Inr payload" "h = sha256_digest L payload" by blast
    with st v assms(2) Transition show ?thesis
      by (auto simp: transition_args_of_def status_codec.parse_name intro!: exI [of _ "transition_args_of c subject i key h y now"])
  next
    case (Rotation i y)
    with assms(1) obtain h where "canonical_hash L (Rotate_input 1 i y) = Inr h" and v: "0 < rc_expected_version y"
      and st: "st = apme_rotate_case_object P (rotate_args_of c subject i key h y now)"
      by (auto simp: prepare_defs result_simps positive_version_def split: if_splits)
    with hash_sent obtain payload where "json_to_vec L (Rotate_input 1 i y) = Inr payload" "h = sha256_digest L payload" by blast
    with st v assms(2) Rotation show ?thesis
      by (auto simp: rotate_args_of_def Let_def intro!: exI [of _ "rotate_args_of c subject i key h y now"])
  qed
qed

text \<open>
  C29. What a mutation sends: a successful create, transition or rotation was permitted to the caller's role and came with a valid
  key; it ran the stored function of its kind once, on the database its call met, with the caller's tenant and user id, the
  request's key, the SHA-256 of the serialized version, case id and command, every field of the command at its own
  parameter and the time of the request; and the answer names the case and event that function returned.
\<close>

theorem mutations_send:
  assumes "mutate L P c subject key now x w = (Inr m, w')"
  shows "mutation_permitted L x (ctx_role c) \<and> validate_idempotency_key key = Inr () \<and>
    (\<exists>row d. call_sent L P c subject key now x (presented w) (row, d) \<and>
       pc_id (mr_case m) = mu_case_id row \<and> er_event_id (mr_event m) = mu_event_id row \<and>
       er_event_hash (mr_event m) = mu_event_hash row \<and> mr_replayed m = mu_replayed row)"
proof -
  from assms obtain st where st: "prepare L P c subject key now x = Inr st" and commit: "commit_mutation c st w = (Inr m, w')"
    using mutating.run_prepared [of L P c x "(subject, key, now)" w] by (auto split: sum.splits)
  from commit obtain row v where returned: "st (presented w) = Inr (row, store v)" and "mutation_result c row v = (Inr m, w')"
    by (rule commit_mutation_Inr)
  with mutation_result_Inr [OF this(2)] prepare_sent [OF st returned] show ?thesis by blast
qed

theorem mutations_send_witness:
  "\<exists>m v row d. mutate ref_interfaces ref_procs alice_context alice ''k2'' 6 (Transition 1 transition_command) case_world = (Inr m, v) \<and>
     call_sent ref_interfaces ref_procs alice_context alice ''k2'' 6 (Transition 1 transition_command) (store case_world) (row, d) \<and>
     mr_replayed m = mu_replayed row"
proof -
  obtain m v where run: "mutate ref_interfaces ref_procs alice_context alice ''k2'' 6 (Transition 1 transition_command) case_world = (Inr m, v)"
    using sample_transition by blast
  have "presented case_world = store case_world" by (simp add: case_world_def presented_def)
  with mutations_send [OF run] run show ?thesis by metis
qed

end
