(* ===== verification/Http_Retries.thy ===== *)
theory Http_Retries
  imports Http_Properties Retries
begin

text \<open>
  Retrying the mutating requests over HTTP: repeating a request is a replay that publishes nothing, and a
  mutation whose answer was lost is never announced. Both are proved once, for the common shape of
  the mutating handlers.
\<close>

section \<open>The mutating requests\<close>

fun mutation_of :: "request \<Rightarrow> mutation option" where
  "mutation_of (Create_request _ x) = Some (Creation x)"
| "mutation_of (Transition_request i _ x) = Some (Transition i x)"
| "mutation_of (Rotate_request i _ x) = Some (Rotation i x)"
| "mutation_of _ = None"

definition run_for ::
  "'x database_scheme deps \<Rightarrow> mutation \<Rightarrow> verified_subject \<Rightarrow> tenant_context \<Rightarrow> string \<Rightarrow>
     ('x database_scheme world, case_service_error, case_mutation_result) action" where
  "run_for D x subject c key = mutate (dep_interfaces D) (dep_procs D) c subject key (dep_clock D) x"

definition success_status :: "mutation \<Rightarrow> case_mutation_result \<Rightarrow> nat" where
  "success_status x m = (case x of Creation _ \<Rightarrow> if mr_replayed m then 200 else 201 | _ \<Rightarrow> 200)"

lemma handle_mutation:
  "mutation_of r = Some x \<Longrightarrow> handle D r = mutation_handler D (headers_of r) (run_for D x) (success_status x)"
  by (cases r) (auto simp: mutation_handlers run_for_def success_status_def [abs_def] fun_eq_iff
      mutation_handler_def)

lemma writes_iff: "writes (endpoint_of r) \<longleftrightarrow> (\<exists>x. mutation_of r = Some x)"
  by (cases r) (auto simp: writes_def)

section \<open>Authorization seen twice\<close>

text \<open>The stored functions leave tenants and memberships alone.\<close>

definition same_members :: "'x database_scheme \<Rightarrow> 'x database_scheme \<Rightarrow> bool" where
  "same_members d d' \<longleftrightarrow> tenants d' = tenants d \<and> memberships d' = memberships d"

definition mutations_keep_members :: "'x database_scheme procs \<Rightarrow> bool" where
  "mutations_keep_members P \<longleftrightarrow>
     (\<forall>a d row d'. apme_create_case P a d = Inr (row, d') \<longrightarrow> same_members d d') \<and>
     (\<forall>a d row d'. apme_transition_case P a d = Inr (row, d') \<longrightarrow> same_members d d') \<and>
     (\<forall>a d row d'. apme_rotate_case_object P a d = Inr (row, d') \<longrightarrow> same_members d d')"

lemma ref_mutations_keep_members: "mutations_keep_members ref_procs"
  by (auto simp: mutations_keep_members_def same_members_def ref_defs Let_def split: option.splits if_splits)

lemma prepare_keeps_members:
  assumes "mutations_keep_members P" and "prepare L P c subject key now x = Inr st" and "st d = Inr (row, d')"
  shows "same_members d d'"
  using assms by (cases x) (auto simp: prepare_defs result_simps mutations_keep_members_def)

lemma mutate_keeps_members:
  assumes "mutations_keep_members P" and "agenda w = []" and "mutate L P c subject key now x w = (Inr m, v)"
  shows "same_members (store w) (store v) \<and> agenda v = []"
  using mutating.run_relates [of w L P c x "(subject, key, now)" m v same_members]
    prepare_keeps_members [OF assms(1)] assms by auto

lemma tenant_context_calm:
  assumes "agenda w = []" and "agenda w' = []" and "same_members (store w) (store w')"
  shows "tenant_context subject t w' = (fst (tenant_context subject t w), w')"
  using assms by (simp add: tenant_context_def bind_try_def act_map_err_def db_call_def run_stmt_def
      query_def membership_rows_def same_members_def)

lemma tenant_context_first_slot:
  assumes "agenda w = (id, None) # rest"
  shows "tenant_context subject t w = (fst (tenant_context subject t (w\<lparr>agenda := []\<rparr>)), w\<lparr>agenda := rest\<rparr>)"
  using assms by (simp add: tenant_context_def bind_try_def act_map_err_def db_call_def run_stmt_def
      query_def membership_rows_def)

lemma grants_unique:
  "grants_here D h scopes a \<Longrightarrow> grants_here (D\<lparr>dep_clock := t\<rparr>) h scopes b \<Longrightarrow> a = b"
  by (cases a; cases b) (auto simp: grants_here_def grants_def)

section \<open>One request, from inside\<close>

text \<open>Everything a mutating request determined before its mutation ran.\<close>

definition admits_mutation ::
  "'x database_scheme deps \<Rightarrow> header_map \<Rightarrow> 'x database_scheme world \<Rightarrow> verified_subject \<Rightarrow> tenant_context \<Rightarrow> string \<Rightarrow>
     'x database_scheme world \<Rightarrow> bool" where
  "admits_mutation D h w subject c key w' \<longleftrightarrow>
     grants_here D h [CASES_WRITE_SCOPE] subject \<and> idempotency_key D h = Inr key \<and>
     (\<exists>t. tenant_id D h = Inr t \<and> tenant_context subject t w = (Inr c, w'))"

lemma mutation_handler_run:
  assumes "admits_mutation D h (app_cases s) subject c key w"
  shows "mutation_handler D h run status s =
    (case run subject c key w of
       (Inl e, w') \<Rightarrow> (Inl (Cases_error e), s\<lparr>app_cases := w'\<rparr>)
     | (Inr m, w') \<Rightarrow> (Inr (status m, Mutation_body m),
         s\<lparr>app_cases := w', app_events := app_events s @ (if mr_replayed m then [] else [event_of m])\<rparr>))"
  using assms unfolding admits_mutation_def authenticate_grants [symmetric]
  by (auto simp: mutation_handler_def authorized_tenant_with_scopes_def bind_try_def on_cases_def
      act_map_err_def run_and_publish_def publish_mutation_def split: prod.splits sum.splits)

lemma mutation_handler_admits:
  assumes "agenda (app_cases s) = []" and "mutation_handler D h run status s = (Inr (code, body), s')"
  obtains subject c key m where "admits_mutation D h (app_cases s) subject c key (app_cases s)"
    "run subject c key (app_cases s) = (Inr m, app_cases s')" "body = Mutation_body m" "code = status m"
    "app_events s' = app_events s @ (if mr_replayed m then [] else [event_of m])"
proof -
  from assms(2) obtain subject t c key w w' m where g: "grants_here D h [CASES_WRITE_SCOPE] subject"
    and t: "tenant_id D h = Inr t" and c: "tenant_context subject t (app_cases s) = (Inr c, w)"
    and key: "idempotency_key D h = Inr key" and run: "run subject c key w = (Inr m, w')"
    and body: "body = Mutation_body m" "code = status m"
    and s': "s' = s\<lparr>app_cases := w', app_events := app_events s @ (if mr_replayed m then [] else [event_of m])\<rparr>"
    unfolding authenticate_grants [symmetric]
    by (auto simp: mutation_handler_def authorized_tenant_with_scopes_def result_simps run_and_publish_Inr)
  have "same_members (store (app_cases s)) (store (app_cases s))" by (simp add: same_members_def)
  from tenant_context_calm [OF assms(1) assms(1) this, of subject t] c have "w = app_cases s" by simp
  with that [of subject c key m] g t c key run body s' show thesis by (auto simp: admits_mutation_def)
qed

lemma admits_later:
  assumes "admits_mutation D h w subject c key w" and "grants_here (D\<lparr>dep_clock := t\<rparr>) h [CASES_WRITE_SCOPE] again"
    and "agenda w = []" and "agenda v = []" and "same_members (store w) (store v)"
  shows "admits_mutation (D\<lparr>dep_clock := t\<rparr>) h v subject c key v"
proof -
  from assms(1) obtain tenant where g: "grants_here D h [CASES_WRITE_SCOPE] subject"
    and key: "idempotency_key D h = Inr key" and tenant: "tenant_id D h = Inr tenant"
    and c: "tenant_context subject tenant w = (Inr c, w)"
    by (auto simp: admits_mutation_def)
  from tenant_context_calm [OF assms(3,4,5), of subject tenant] c
  have "tenant_context subject tenant v = (Inr c, v)" by simp
  moreover have "grants_here (D\<lparr>dep_clock := t\<rparr>) h [CASES_WRITE_SCOPE] subject"
    using grants_unique [OF g assms(2)] assms(2) by simp
  ultimately show ?thesis using key tenant by (simp add: admits_mutation_def tenant_id_def idempotency_key_def)
qed

text \<open>The state after a mutation, whoever saw its answer, turns a repetition into a replay.\<close>

lemma repeated_mutation:
  assumes P: "mutations_replay (dep_procs D)" "mutations_keep_members (dep_procs D)"
    and calm: "agenda (app_cases s) = []"
    and adm: "admits_mutation D h (app_cases s) subject c key (app_cases s)"
    and run: "run_for D x subject c key (app_cases s) = (Inr m, v)"
    and later: "grants_here (D\<lparr>dep_clock := t\<rparr>) h [CASES_WRITE_SCOPE] again" "valid_at (dep_interfaces D) t x"
    and u: "app_cases u = v"
  shows "mutation_handler (D\<lparr>dep_clock := t\<rparr>) h (run_for (D\<lparr>dep_clock := t\<rparr>) x) (success_status x) u =
    (Inr (200, Mutation_body (m\<lparr>mr_replayed := True\<rparr>)), u)"
proof -
  from run have mut: "mutate (dep_interfaces D) (dep_procs D) c subject key (dep_clock D) x (app_cases s) = (Inr m, v)"
    by (simp add: run_for_def)
  from mutate_keeps_members [OF P(2) calm this]
  have "admits_mutation (D\<lparr>dep_clock := t\<rparr>) h (app_cases u) subject c key (app_cases u)"
    using admits_later [OF adm later(1) calm] u by simp
  moreover have "run_for (D\<lparr>dep_clock := t\<rparr>) x subject c key (app_cases u) = (Inr (m\<lparr>mr_replayed := True\<rparr>), app_cases u)"
    using mutate_replay [OF P(1) calm mut later(2)] u by (simp add: run_for_def)
  ultimately show ?thesis
    by (simp add: mutation_handler_run success_status_def split: mutation.split)
qed

section \<open>Properties\<close>

text \<open>
  C15. The mutating requests are idempotent: repeating a create, transition or rotation with the same
  headers and body, at any later time at which the token is still granted for writing and the command still
  validates, answers 200 with the case and event of the first answer, marked as replayed, writes nothing and
  publishes nothing.
\<close>

theorem mutation_requests_idempotent:
  assumes "mutations_replay (dep_procs D)" and "mutations_keep_members (dep_procs D)"
    and "agenda (app_cases s) = []" and "mutation_of r = Some x"
    and "handle D r s = (Inr (status, Mutation_body m), s')"
    and "grants_here (D\<lparr>dep_clock := t\<rparr>) (headers_of r) [CASES_WRITE_SCOPE] again"
    and "valid_at (dep_interfaces D) t x"
  shows "handle (D\<lparr>dep_clock := t\<rparr>) r s' = (Inr (200, Mutation_body (m\<lparr>mr_replayed := True\<rparr>)), s')"
proof -
  have "mutation_handler D (headers_of r) (run_for D x) (success_status x) s = (Inr (status, Mutation_body m), s')"
    using assms(4,5) by (simp add: handle_mutation)
  with assms(3) obtain subject c key where "admits_mutation D (headers_of r) (app_cases s) subject c key (app_cases s)"
    and "run_for D x subject c key (app_cases s) = (Inr m, app_cases s')"
    by (rule mutation_handler_admits) auto
  from repeated_mutation [OF assms(1-3) this assms(6,7) refl] assms(4) show ?thesis by (simp add: handle_mutation)
qed

text \<open>The transition request of the sample case, by a token that stays valid.\<close>

definition transition_request :: request where
  "transition_request = Transition_request 1 (ref_headers(''idempotency-key'' \<mapsto> ''k2'')) transition_command"

lemma sample_transition_request:
  "\<exists>m s'. handle ref_deps transition_request case_app = (Inr (200, Mutation_body m), s') \<and>
     pc_version (mr_case m) = 2 \<and> \<not> mr_replayed m"
  by (simp add: transition_request_def http_eval service_eval sample_defs ref_defs)

lemma ref_granted:
  "grants_here (ref_deps\<lparr>dep_clock := ref_clock + 1000000000\<rparr>) (headers_of transition_request) [CASES_WRITE_SCOPE]
     \<lparr>vs_shared_user_id = ''alice'', vs_session_id = ''session-a''\<rparr>"
  by (simp add: transition_request_def authenticate_grants [symmetric] http_eval service_eval)

lemma ref_contracts:
  "mutations_replay (dep_procs ref_deps)" "mutations_keep_members (dep_procs ref_deps)"
  "agenda (app_cases case_app) = []" "mutation_of transition_request = Some (Transition 1 transition_command)"
  "valid_at (dep_interfaces ref_deps) t (Transition 1 transition_command)"
  by (simp_all add: ref_deps_def ref_mutations_replay ref_mutations_keep_members case_app_def case_world_def
      transition_request_def)

theorem mutation_requests_idempotent_witness:
  "\<exists>m s'. handle ref_deps transition_request case_app = (Inr (200, Mutation_body m), s') \<and>
     handle (ref_deps\<lparr>dep_clock := ref_clock + 1000000000\<rparr>) transition_request s' =
       (Inr (200, Mutation_body (m\<lparr>mr_replayed := True\<rparr>)), s')"
  using sample_transition_request
    mutation_requests_idempotent [OF ref_contracts(1-4) _ ref_granted ref_contracts(5)] by blast

text \<open>
  C39. A mutation whose answer was lost is never announced: when the connection breaks after the stored
  function committed, the request fails, its effect is stored, and the retry that returns the
  result is a replay, so no event for it ever reaches the channel, although the same request on a
  connection that holds would have published one.
\<close>

theorem lost_mutation_never_published:
  assumes "mutations_replay (dep_procs D)" and "mutations_keep_members (dep_procs D)"
    and "agenda (app_cases s) = []" and "mutation_of r = Some x"
    and "handle D r s = (Inr (status, Mutation_body m), s')" and "\<not> mr_replayed m"
    and "grants_here (D\<lparr>dep_clock := t\<rparr>) (headers_of r) [CASES_WRITE_SCOPE] again"
    and "valid_at (dep_interfaces D) t x"
  shows "app_events s' = app_events s @ [event_of m] \<and>
    (\<exists>u. handle D r (s\<lparr>app_cases := (app_cases s)\<lparr>agenda := [(id, None), (id, Some (Lost_after msg))]\<rparr>\<rparr>) =
         (Inl (Cases_error (Storage (Client_error msg))), u) \<and>
       app_cases u = app_cases s' \<and> app_events u = app_events s \<and>
       handle (D\<lparr>dep_clock := t\<rparr>) r u = (Inr (200, Mutation_body (m\<lparr>mr_replayed := True\<rparr>)), u))"
proof -
  let ?w = "(app_cases s)\<lparr>agenda := [(id, Some (Lost_after msg))]\<rparr>"
  let ?s = "s\<lparr>app_cases := (app_cases s)\<lparr>agenda := [(id, None), (id, Some (Lost_after msg))]\<rparr>\<rparr>"
  let ?u = "s\<lparr>app_cases := app_cases s'\<rparr>"
  have "mutation_handler D (headers_of r) (run_for D x) (success_status x) s = (Inr (status, Mutation_body m), s')"
    using assms(4,5) by (simp add: handle_mutation)
  with assms(3) obtain subject c key where adm: "admits_mutation D (headers_of r) (app_cases s) subject c key (app_cases s)"
    and run: "run_for D x subject c key (app_cases s) = (Inr m, app_cases s')"
    and ev: "app_events s' = app_events s @ (if mr_replayed m then [] else [event_of m])"
    by (rule mutation_handler_admits) auto
  have same: "(app_cases s)\<lparr>agenda := []\<rparr> = app_cases s" using assms(3) by simp
  have "admits_mutation D (headers_of r) (app_cases ?s) subject c key ?w"
    using adm tenant_context_first_slot [of "app_cases ?s" "[(id, Some (Lost_after msg))]" subject]
    by (auto simp: admits_mutation_def same)
  moreover have "run_for D x subject c key ?w = (Inl (Storage (Client_error msg)), app_cases s')"
    unfolding run_for_def by (rule mutate_lost) (simp_all add: same run [unfolded run_for_def])
  ultimately have "handle D r ?s = (Inl (Cases_error (Storage (Client_error msg))), ?u)"
    using assms(4) by (simp add: handle_mutation mutation_handler_run)
  moreover have "handle (D\<lparr>dep_clock := t\<rparr>) r ?u = (Inr (200, Mutation_body (m\<lparr>mr_replayed := True\<rparr>)), ?u)"
    using repeated_mutation [OF assms(1-3) adm run assms(7,8), of ?u] assms(4) by (simp add: handle_mutation)
  ultimately show ?thesis using ev assms(6) by auto
qed

theorem lost_mutation_never_published_witness:
  "\<exists>m u. handle ref_deps transition_request
       (case_app\<lparr>app_cases := (app_cases case_app)\<lparr>agenda := [(id, None), (id, Some (Lost_after ''reset''))]\<rparr>\<rparr>) =
       (Inl (Cases_error (Storage (Client_error ''reset''))), u) \<and> app_events u = app_events case_app \<and>
     handle (ref_deps\<lparr>dep_clock := ref_clock + 1000000000\<rparr>) transition_request u = (Inr (200, Mutation_body m), u)"
proof -
  obtain m s' where "handle ref_deps transition_request case_app = (Inr (200, Mutation_body m), s')" "\<not> mr_replayed m"
    using sample_transition_request by blast
  from lost_mutation_never_published [OF ref_contracts(1-4) this ref_granted ref_contracts(5), of "''reset''"]
  show ?thesis by blast
qed

end
