(* ===== verification/Writes.thy ===== *)
theory Writes
  imports Http_Retries Effects
begin

text \<open>
  What the REST surface does to the database: every change it ever makes, whatever it answers, is one stored-function
  call issued in the name of an admitted caller for the tenant of the request.
\<close>

lemma gate_only_reads: "keeps only_reads (authorized_tenant_with_scopes D h scopes)"
  unfolding authorized_tenant_with_scopes_def by (intro reads_intros tenant_context_only_reads)

section \<open>What a request may issue\<close>

text \<open>
  The one statement a request may run for a caller: its tenant and actor are the caller's, its role permits
  the operation, and its case is that of the path.
\<close>

definition issues ::
  "'x database_scheme deps \<Rightarrow> request \<Rightarrow> verified_subject \<Rightarrow> tenant_context \<Rightarrow>
     'x database_scheme \<Rightarrow> 'x database_scheme \<Rightarrow> bool" where
  "issues D r subject c d d' \<longleftrightarrow>
     (case r of
        Create_request _ _ \<Rightarrow>
          can_create_or_transition (dep_interfaces D) (ctx_role c) \<and>
          (\<exists>a row. ca_tenant_id a = ctx_tenant_id c \<and> ca_actor a = vs_shared_user_id subject \<and>
             apme_create_case (dep_procs D) a d = Inr (row, d'))
      | Transition_request i _ _ \<Rightarrow>
          can_create_or_transition (dep_interfaces D) (ctx_role c) \<and>
          (\<exists>a row. ta_tenant_id a = ctx_tenant_id c \<and> ta_actor a = vs_shared_user_id subject \<and> ta_case_id a = i \<and>
             apme_transition_case (dep_procs D) a d = Inr (row, d'))
      | Rotate_request i _ _ \<Rightarrow>
          can_export_or_delete (dep_interfaces D) (ctx_role c) \<and>
          (\<exists>a row. ra_tenant_id a = ctx_tenant_id c \<and> ra_actor a = vs_shared_user_id subject \<and> ra_case_id a = i \<and>
             apme_rotate_case_object (dep_procs D) a d = Inr (row, d'))
      | Get_request i _ \<Rightarrow>
          apme_append_audit (dep_procs D)
            (access_audit (ctx_tenant_id c) (vs_shared_user_id subject) i (dep_clock D)) d = Inr ((), d')
      | _ \<Rightarrow> False)"

definition accounted_write ::
  "'x database_scheme deps \<Rightarrow> request \<Rightarrow> 'x database_scheme \<Rightarrow> 'x database_scheme \<Rightarrow> bool" where
  "accounted_write D r d d' \<longleftrightarrow>
     (\<exists>subject c. admitted D (headers_of r) (needed_scopes r) d subject c \<and> issues D r subject c d d')"

lemma args_of_caller [simp]:
  "ca_tenant_id (create_args_of c subject key h x now) = ctx_tenant_id c"
  "ca_actor (create_args_of c subject key h x now) = vs_shared_user_id subject"
  "ta_tenant_id (transition_args_of c subject i key h y now) = ctx_tenant_id c"
  "ta_actor (transition_args_of c subject i key h y now) = vs_shared_user_id subject"
  "ta_case_id (transition_args_of c subject i key h y now) = i"
  "ra_tenant_id (rotate_args_of c subject i key h z now) = ctx_tenant_id c"
  "ra_actor (rotate_args_of c subject i key h z now) = vs_shared_user_id subject"
  "ra_case_id (rotate_args_of c subject i key h z now) = i"
  by (simp_all add: create_args_of_def transition_args_of_def rotate_args_of_def Let_def)

lemma mutation_issues:
  assumes "mutation_of r = Some x"
    and "prepare (dep_interfaces D) (dep_procs D) c subject key (dep_clock D) x = Inr st" and "st d = Inr (row, d')"
  shows "issues D r subject c d d'"
proof -
  have "mutation_permitted (dep_interfaces D) x (ctx_role c)"
    using assms(2) mutating.prepare_refuses [of "dep_interfaces D" x c "dep_procs D" "(subject, key, dep_clock D)"]
    by fastforce
  with assms show ?thesis
    by (cases r) (auto simp: issues_def prepare_defs result_simps, (metis args_of_caller)+)
qed

lemma run_for_writes:
  assumes "mutation_of r = Some x"
  shows "keeps (at_most (issues D r subject c)) (run_for D x subject c key)"
  using mutating.run_writes [of "dep_interfaces D" "dep_procs D" c x "(subject, key, dep_clock D)"]
    mutation_issues [OF assms]
  by (auto simp: run_for_def [abs_def] elim!: at_most_mono)

section \<open>What a request writes\<close>

text \<open>The effect of a handler on the database behind the application state.\<close>

abbreviation on_store :: "('d world \<Rightarrow> 'd world \<Rightarrow> bool) \<Rightarrow> 'd app_state \<Rightarrow> 'd app_state \<Rightarrow> bool" where
  "on_store R s s' \<equiv> R (app_cases s) (app_cases s')"

lemma on_cases_keeps: "keeps R m \<Longrightarrow> keeps (on_store R) (on_cases m)"
  by (rule keepsI) (auto simp: on_cases_def dest: keepsD split: prod.splits)

lemma app_reads_refl: "reflp (on_store only_reads)"
  using only_reads_refl by (auto simp: reflp_def)

lemma app_reads_trans: "transp (on_store only_reads)"
  using only_reads_trans unfolding transp_def by blast

lemma app_write_then_read:
  "keeps (on_store (at_most R)) m \<Longrightarrow> (\<And>x. keeps (on_store only_reads) (f x)) \<Longrightarrow>
     keeps (on_store (at_most R)) (bind_try m f)"
  by (rule keeps_bind_rel [where R = "on_store (at_most R)" and S = "on_store only_reads"]) (auto simp: at_most_def only_reads_def)

lemma run_and_publish_keeps: "keeps (at_most R) m \<Longrightarrow> keeps (on_store (at_most R)) (run_and_publish m)"
  unfolding run_and_publish_def
  by (intro app_write_then_read on_cases_keeps keeps_map_err)
    (auto simp: keeps_def only_reads_def publish_mutation_def)

lemma gated_writes:
  assumes body: "\<And>subject c. keeps (on_store (at_most (issues D r subject c))) (body (subject, c))"
  shows "keeps (on_store (at_most (accounted_write D r)))
    (bind_try (on_cases (authorized_tenant_with_scopes D (headers_of r) (needed_scopes r))) body)"
proof (rule keepsI)
  fix s result s'
  assume run: "bind_try (on_cases (authorized_tenant_with_scopes D (headers_of r) (needed_scopes r))) body s = (result, s')"
  obtain q w where gate: "authorized_tenant_with_scopes D (headers_of r) (needed_scopes r) (app_cases s) = (q, w)"
    by (cases "authorized_tenant_with_scopes D (headers_of r) (needed_scopes r) (app_cases s)")
  note reads = keepsD [OF gate_only_reads gate]
  show "on_store (at_most (accounted_write D r)) s s'"
  proof (cases q)
    case (Inl e)
    with run gate reads show ?thesis by (auto simp: bind_try_def on_cases_def at_most_def only_reads_def)
  next
    case (Inr p)
    obtain subject c where p: "p = (subject, c)" by (cases p)
    have adm: "admitted D (headers_of r) (needed_scopes r) (presented (app_cases s)) subject c"
      using header_gate.admits [of D "(headers_of r, needed_scopes r)" "app_cases s" subject c w] gate Inr p
      by (auto simp: admitted_def wanted_tenant_def split: sum.splits)
    from run gate Inr p have "body (subject, c) (s\<lparr>app_cases := w\<rparr>) = (result, s')"
      by (simp add: bind_try_def on_cases_def)
    from keepsD [OF body this] reads adm show ?thesis
      by (auto simp: at_most_def only_reads_def accounted_write_def quiet_presented)
  qed
qed

lemma mutation_request_writes:
  assumes "mutation_of r = Some x"
  shows "keeps (on_store (at_most (accounted_write D r))) (handle D r)"
proof -
  have scopes: "needed_scopes r = [CASES_WRITE_SCOPE]"
    using writes_iff [of r] assms by (simp add: needed_scopes_def)
  have "keeps (on_store (at_most (issues D r subject c)))
      (bind_try (lift_result (idempotency_key D (headers_of r))) (\<lambda>key.
       bind_try (run_and_publish (run_for D x subject c key)) (\<lambda>m.
       pure_ok (success_status x m, Mutation_body m))))" for subject c
  proof (cases "idempotency_key D (headers_of r)")
    case (Inl e)
    then show ?thesis by (simp add: keeps_def at_most_def)
  next
    case (Inr key)
    then show ?thesis
      by (simp only: bind_try_lift)
        (intro app_write_then_read run_and_publish_keeps run_for_writes assms keeps_pure app_reads_refl)
  qed
  from gated_writes [of D r "\<lambda>(subject, c). _ subject c", simplified, OF this] show ?thesis
    unfolding handle_mutation [OF assms] mutation_handler_def scopes .
qed

lemma get_request_writes: "keeps (on_store (at_most (accounted_write D (Get_request i h)))) (handle D (Get_request i h))"
proof -
  let ?R = "\<lambda>subject c. issues D (Get_request i h) subject c"
  let ?audit = "\<lambda>subject c x. bind_try
    (on_cases (act_map_err Cases_error (record_access (dep_procs D) c subject (pc_id x) (dep_clock D))))
    (\<lambda>_. pure_ok (200, Case_body x))"
  have audit: "keeps (on_store (at_most (?R subject c))) (?audit subject c x)" if "pc_id x = i" for subject c x
    using that unfolding record_access_def
    by (intro app_write_then_read on_cases_keeps keeps_map_err keeps_pure app_reads_refl at_most_mono [OF statement_writes])
      (auto simp: issues_def)
  have "keeps (on_store (at_most (?R subject c)))
      (bind_try (on_cases (act_map_err Cases_error (get_case c i))) (?audit subject c))" for subject c
  proof (rule keepsI)
    fix s result s'
    assume run: "bind_try (on_cases (act_map_err Cases_error (get_case c i))) (?audit subject c) s = (result, s')"
    obtain q w where get: "get_case c i (app_cases s) = (q, w)" by (cases "get_case c i (app_cases s)")
    note reads = keepsD [OF get_case_only_reads get]
    show "on_store (at_most (?R subject c)) s s'"
    proof (cases q)
      case (Inl e)
      with run get reads show ?thesis
        by (auto simp: bind_try_def on_cases_def act_map_err_def at_most_def only_reads_def)
    next
      case (Inr x)
      with run get have "?audit subject c x (s\<lparr>app_cases := w\<rparr>) = (result, s')"
        by (simp add: bind_try_def on_cases_def act_map_err_def)
      with keepsD [OF audit [of x subject c], of "s\<lparr>app_cases := w\<rparr>" result s'] get_case_Inr [of c i "app_cases s" x w] get Inr reads
      show ?thesis by (auto simp: at_most_def only_reads_def)
    qed
  qed
  from gated_writes [of D "Get_request i h" "\<lambda>(subject, c). _ subject c", simplified, OF this]
  show ?thesis by (simp add: get_case_handler_def authorized_tenant_def needed_scopes_def writes_def)
qed

lemma plain_requests_read:
  assumes "mutation_of r = None" and "\<forall>i h. r \<noteq> Get_request i h"
  shows "keeps (on_store only_reads) (handle D r)"
proof -
  note intros = keeps_bind [OF app_reads_trans] keeps_pure [OF app_reads_refl] keeps_lift [OF app_reads_refl]
    on_cases_keeps keeps_map_err query_reads gate_only_reads list_cases_only_reads tenant_context_only_reads
  have "keeps (on_store only_reads) (list_cases_handler D h)" for h
    unfolding list_cases_handler_def authorized_tenant_def by (rule intros, rule intros, rule intros) (auto intro!: intros)
  moreover have "keeps (on_store only_reads) (websocket_handler D q h)" for q h
    unfolding websocket_handler_def by (intro intros)
  moreover have "keeps (on_store only_reads) metrics_handler"
    unfolding metrics_handler_def by (intro intros)
  moreover have "keeps (on_store only_reads) index_handler" "keeps (on_store only_reads) health_handler"
    unfolding index_handler_def health_handler_def by (intro intros)+
  ultimately show ?thesis using assms by (cases r) simp_all
qed

lemma handle_writes: "keeps (on_store (at_most (accounted_write D r))) (handle D r)"
proof (cases "mutation_of r = None \<and> (\<forall>i h. r \<noteq> Get_request i h)")
  case True
  with plain_requests_read [of r D] show ?thesis by (auto simp: keeps_def at_most_def only_reads_def)
next
  case False
  then show ?thesis using mutation_request_writes get_request_writes by fastforce
qed

end
