(* ===== verification/Process.thy ===== *)
theory Process
  imports Startup Writes
begin

text \<open>
  The running process: all avenues side by side on one database and one event channel, from the end of startup to
  the end of \<^verbatim>\<open>main\<close>. A step is what one of them does next; steps interleave in any order. HTTP requests are
  taken in while the server accepts, answered also while it drains, and \<^verbatim>\<open>main\<close> ends when none is left; the
  transports learn of a shutdown through the watch channel, whose receivers see a change once it was sent. When
  \<^verbatim>\<open>main\<close> has ended nothing runs any more. These are runs in which serving HTTP itself does not fail; what
  \<^verbatim>\<open>main\<close> does if it fails is in \<open>main_process\<close>.
\<close>

section \<open>Model\<close>

datatype http_phase = Accepting | Draining | Stopped

record 'd process =
  pr_app :: "'d app_state"
  pr_http :: http_phase
  pr_inflight :: nat
  pr_signalled :: bool
  pr_tcp :: "tcp_server option"
  pr_nats :: "worker_input list option"

text \<open>What startup leaves running: HTTP, and a task for each transport that was started.\<close>

definition launch :: "'d running \<Rightarrow> startup_effect list \<Rightarrow> 'd process" where
  "launch running effects =
     \<lparr>pr_app = run_state running, pr_http = Accepting, pr_inflight = 0, pr_signalled = False,
      pr_tcp = fetch_optional [server_start (tcp_max_connections c). Tcp_serving c \<leftarrow> effects],
      pr_nats = fetch_optional [[]. Nats_serving c \<leftarrow> effects]\<rparr>"

text \<open>
  The future given to \<^verbatim>\<open>with_graceful_shutdown\<close>: when the interrupt comes, or listening for it
  fails, it sends \<^verbatim>\<open>true\<close> to the transports, and its completion makes the server stop accepting.
\<close>

definition shutdown_signal :: "'d process \<Rightarrow> 'd process" where
  "shutdown_signal s = s\<lparr>pr_http := Draining, pr_signalled := True\<rparr>"

datatype process_label =
    Http_accepted
  | Http_answered int request "api_error + reply"
  | Elsewhere
  | Tcp_input tcp_event
  | Frame_answered int bytes bytes
  | Nats_input worker_input
  | Interrupted
  | Tcp_told
  | Nats_told
  | Exited

inductive process_step ::
  "wire \<Rightarrow> status_wire \<Rightarrow> bool \<Rightarrow> 'x database_scheme deps \<Rightarrow> 'x database_scheme process \<Rightarrow> process_label \<Rightarrow>
     'x database_scheme process \<Rightarrow> bool" for W V starts D where
  accept: "pr_http s = Accepting \<Longrightarrow>
     process_step W V starts D s Http_accepted (s\<lparr>pr_inflight := Suc (pr_inflight s)\<rparr>)"
| answer: "pr_http s \<noteq> Stopped \<Longrightarrow> pr_inflight s = Suc n \<Longrightarrow>
     handle (D\<lparr>dep_clock := t\<rparr>) r (pr_app s) = (result, a) \<Longrightarrow>
     process_step W V starts D s (Http_answered t r result) (s\<lparr>pr_app := a, pr_inflight := n\<rparr>)"
| elsewhere: "pr_http s \<noteq> Stopped \<Longrightarrow>
     process_step W V starts D s Elsewhere (s\<lparr>pr_app := (pr_app s)\<lparr>app_cases := w\<rparr>\<rparr>)"
| tcp: "pr_http s \<noteq> Stopped \<Longrightarrow> pr_tcp s = Some server \<Longrightarrow> e \<notin> {Shutdown_changed, Shutdown_channel_closed} \<Longrightarrow>
     process_step W V starts D s (Tcp_input e) (s\<lparr>pr_tcp := Some (serve_event server e)\<rparr>)"
| frame: "pr_http s \<noteq> Stopped \<Longrightarrow> pr_tcp s = Some server \<Longrightarrow> (c, Serving) \<in> set (tasks server) \<Longrightarrow>
     execute W (D\<lparr>dep_clock := t\<rparr>) raw (app_cases (pr_app s)) = (out, w) \<Longrightarrow>
     process_step W V starts D s (Frame_answered t raw out) (s\<lparr>pr_app := (pr_app s)\<lparr>app_cases := w\<rparr>\<rparr>)"
| nats: "pr_http s \<noteq> Stopped \<Longrightarrow> pr_nats s = Some ins \<Longrightarrow> fst (worker_serve V starts ins) = None \<Longrightarrow>
     i \<notin> {Shutdown_signalled, Shutdown_dropped} \<Longrightarrow>
     process_step W V starts D s (Nats_input i) (s\<lparr>pr_nats := Some (ins @ [i])\<rparr>)"
| signal: "pr_http s = Accepting \<Longrightarrow> process_step W V starts D s Interrupted (shutdown_signal s)"
| tcp_told: "pr_http s \<noteq> Stopped \<Longrightarrow> pr_signalled s \<Longrightarrow> pr_tcp s = Some server \<Longrightarrow>
     process_step W V starts D s Tcp_told (s\<lparr>pr_tcp := Some (serve_event server Shutdown_changed)\<rparr>)"
| nats_told: "pr_http s \<noteq> Stopped \<Longrightarrow> pr_signalled s \<Longrightarrow> pr_nats s = Some ins \<Longrightarrow>
     fst (worker_serve V starts ins) = None \<Longrightarrow>
     process_step W V starts D s Nats_told (s\<lparr>pr_nats := Some (ins @ [Shutdown_signalled])\<rparr>)"
| drained: "pr_http s = Draining \<Longrightarrow> pr_inflight s = 0 \<Longrightarrow>
     process_step W V starts D s Exited (s\<lparr>pr_http := Stopped\<rparr>)"

inductive_cases process_stepE: "process_step W V starts D s l s'"

inductive process_run ::
  "wire \<Rightarrow> status_wire \<Rightarrow> bool \<Rightarrow> 'x database_scheme deps \<Rightarrow> 'x database_scheme process \<Rightarrow>
     'x database_scheme process \<Rightarrow> bool" for W V starts D where
  stay: "process_run W V starts D s s"
| later: "process_run W V starts D s s' \<Longrightarrow> process_step W V starts D s' l s'' \<Longrightarrow> process_run W V starts D s s''"

text \<open>Runs with what was done in them.\<close>

inductive process_trace ::
  "wire \<Rightarrow> status_wire \<Rightarrow> bool \<Rightarrow> 'x database_scheme deps \<Rightarrow> 'x database_scheme process \<Rightarrow> process_label list \<Rightarrow>
     'x database_scheme process \<Rightarrow> bool" for W V starts D where
  trace_stay: "process_trace W V starts D s [] s"
| trace_later: "process_trace W V starts D s ls s' \<Longrightarrow> process_step W V starts D s' l s'' \<Longrightarrow>
     process_trace W V starts D s (ls @ [l]) s''"

lemma process_trace_run: "process_trace W V starts D s ls s' \<Longrightarrow> process_run W V starts D s s'"
  by (induction rule: process_trace.induct) (auto intro: process_run.intros)

lemma process_trace_append:
  assumes "process_trace W V starts D s' ms s''" and "process_trace W V starts D s ls s'"
  shows "process_trace W V starts D s (ls @ ms) s''"
  using assms by (induction rule: process_trace.induct) (auto simp flip: append_assoc intro: process_trace.intros)

lemma process_trace_one: "process_step W V starts D s l s' \<Longrightarrow> process_trace W V starts D s [l] s'"
  using process_trace.trace_later [OF process_trace.trace_stay] by force

section \<open>A started process\<close>

definition ref_tcp_env :: env_vars where
  "ref_tcp_env = ref_env(''APME_API_TCP_BIND'' \<mapsto> ''127.0.0.1:9443'', ''APME_API_TCP_TLS_CERT_FILE'' \<mapsto> ''c'',
     ''APME_API_TCP_TLS_KEY_FILE'' \<mapsto> ''k'', ''APME_API_TCP_CLIENT_CA_FILE'' \<mapsto> ''a'')"

lemma ref_tcp_config_read: "tcp_config_from_env ref_tcp_env = Inr (Some ref_tcp_config)"
  by (simp add: tcp_config_from_env_def ref_tcp_env_def ref_env_def optional_env_def required_path_def bounded_env_def
      ref_tcp_config_def DEFAULT_MAX_CONNECTIONS_def DEFAULT_MAX_REQUESTS_def DEFAULT_IDLE_SECONDS_def string_eval)

lemma ref_process:
  "\<exists>running. startup ref_platform ref_tcp_env =
       (Inr running, [Migrated, Tcp_serving ref_tcp_config, Http_serving ''127.0.0.1:8080'']) \<and>
     run_auth running = ref_auth \<and> run_state running = sample_app"
proof -
  have tcp: "start_tcp ref_platform ref_tcp_env = (Inr (), [Tcp_serving ref_tcp_config])"
    by (simp add: start_tcp_def ref_tcp_config_read ref_platform_def tcp_server_bind_def load_tls_config_def
        ref_tls_def ref_tcp_config_def)
  have nats: "start_nats ref_platform ref_tcp_env = (Inr (), [])"
    by (simp add: start_nats_def nats_config_from_env_def nats_optional_env_def ref_tcp_env_def ref_env_def)
  show ?thesis
    unfolding startup_def start_optional_transports_def tcp nats
    by (simp add: startup_eval ref_tcp_env_def ref_auth_def sample_app_def)
qed

section \<open>The process refines the application\<close>

section \<open>Invariants\<close>

text \<open>
  In every reachable state permits and connections add up to the configured maximum, the
  transports are told exactly when HTTP no longer accepts, and \<^verbatim>\<open>main\<close> has ended only with all requests answered.
\<close>

definition process_sound :: "nat option \<Rightarrow> 'd process \<Rightarrow> bool" where
  "process_sound tcp s \<longleftrightarrow>
     (case tcp of
        None \<Rightarrow> pr_tcp s = None
      | Some limit \<Rightarrow> (\<exists>server. pr_tcp s = Some server \<and> permits_accounted limit server)) \<and>
     (pr_signalled s \<longleftrightarrow> pr_http s \<noteq> Accepting) \<and>
     (pr_http s = Stopped \<longrightarrow> pr_inflight s = 0) \<and>
     (\<forall>ins. pr_nats s = Some ins \<longrightarrow> Shutdown_dropped \<notin> set ins \<and> (Shutdown_signalled \<in> set ins \<longrightarrow> pr_signalled s))"

lemma permits_accounted_listening [simp]: "permits_accounted limit (server\<lparr>listening := b\<rparr>) = permits_accounted limit server"
  by (simp add: permits_accounted_def)

lemma process_step_sound:
  "process_step W V starts D s l s' \<Longrightarrow> process_sound tcp s \<Longrightarrow> process_sound tcp s'"
  by (erule process_stepE)
    (auto simp: process_sound_def shutdown_signal_def simp del: serve_event.simps intro: serve_event_accounted split: option.splits)

lemma process_run_sound:
  "process_run W V starts D s s' \<Longrightarrow> process_sound tcp s \<Longrightarrow> process_sound tcp s'"
  by (induction rule: process_run.induct) (auto intro: process_step_sound)

lemma launch_sound:
  assumes "startup S env = (Inr running, effects)"
  obtains tcp where "tcp_config_from_env env = Inr tcp"
    "process_sound (map_option tcp_max_connections tcp) (launch running effects)"
proof -
  from startup_serves_what_is_configured [OF assms] obtain tcp nats where t: "tcp_config_from_env env = Inr tcp"
    and e: "effects = Migrated # map Tcp_serving (case tcp of None \<Rightarrow> [] | Some c \<Rightarrow> [c]) @
      map Nats_serving (case nats of None \<Rightarrow> [] | Some c \<Rightarrow> [c]) @ [Http_serving (run_addr running)]"
    by blast
  have "process_sound (map_option tcp_max_connections tcp) (launch running effects)"
    unfolding e by (cases tcp; cases nats)
      (simp_all add: process_sound_def launch_def permits_accounted_def server_start_def)
  with t show thesis by (rule that)
qed

text \<open>
  The process keeps its bounds: in every state that a started process can reach, a framed transport
  runs exactly when it was configured, its permits and connections always add up to the configured maximum of at most 4096, so none
  is lost and none is exceeded; the transports have been told to stop exactly when HTTP no
  longer accepts; \<^verbatim>\<open>main\<close> ends only when every accepted request is answered; and no transport ever finds its shutdown
  channel closed.
\<close>

lemma process_invariant:
  assumes "startup S env = (Inr running, effects)" and "process_run W V starts D (launch running effects) s"
  shows "(case tcp_config_from_env env of
       Inr (Some c) \<Rightarrow> \<exists>server. pr_tcp s = Some server \<and>
         permits server + length (tasks server) = tcp_max_connections c \<and> tcp_max_connections c \<le> 4096 \<and>
         distinct (map fst (tasks server))
     | _ \<Rightarrow> pr_tcp s = None) \<and>
    (pr_signalled s \<longleftrightarrow> pr_http s \<noteq> Accepting) \<and> (pr_http s = Stopped \<longrightarrow> pr_inflight s = 0) \<and>
    (\<forall>ins. pr_nats s = Some ins \<longrightarrow> Shutdown_dropped \<notin> set ins \<and> (Shutdown_signalled \<in> set ins \<longrightarrow> pr_signalled s))"
proof -
  obtain tcp where tcp: "tcp_config_from_env env = Inr tcp"
    and "process_sound (map_option tcp_max_connections tcp) (launch running effects)"
    using launch_sound [OF assms(1)] .
  from process_run_sound [OF assms(2) this(2)] have sound: "process_sound (map_option tcp_max_connections tcp) s" .
  show ?thesis
  proof (cases tcp)
    case None
    with sound tcp show ?thesis by (auto simp: process_sound_def)
  next
    case (Some c)
    with tcp tcp_config_limits [of env c] have "tcp_max_connections c \<le> 4096" by simp
    with sound Some tcp show ?thesis by (auto simp: process_sound_def permits_accounted_def)
  qed
qed

section \<open>Shutdown\<close>

text \<open>
  Shutdown is final: once HTTP has stopped accepting it never accepts again and only answers what is in flight; once the
  framed transport has stopped listening, for whatever reason, no new connection starts; once the worker has
  stopped it takes no further message; and after \<^verbatim>\<open>main\<close> has ended nothing changes any more.
\<close>

lemma shutdown_is_final:
  assumes "process_run W V starts D s s'"
  shows "(pr_http s \<noteq> Accepting \<longrightarrow> pr_http s' \<noteq> Accepting \<and> pr_inflight s' \<le> pr_inflight s) \<and>
    (\<forall>server. pr_tcp s = Some server \<and> \<not> listening server \<longrightarrow>
       (\<exists>server'. pr_tcp s' = Some server' \<and> \<not> listening server' \<and>
          fst ` set (tasks server') \<subseteq> fst ` set (tasks server))) \<and>
    (\<forall>ins. pr_nats s = Some ins \<and> fst (worker_serve V starts ins) \<noteq> None \<longrightarrow> pr_nats s' = Some ins) \<and>
    (pr_http s = Stopped \<longrightarrow> s' = s)"
  using assms
proof (induction rule: process_run.induct)
  case (stay s)
  then show ?case by simp
next
  case (later s s' l s'')
  have tcp: "\<exists>server'. pr_tcp s'' = Some server' \<and> \<not> listening server' \<and> fst ` set (tasks server') \<subseteq> ids"
    if "pr_tcp s' = Some server" "\<not> listening server" "fst ` set (tasks server) \<subseteq> ids" for server ids
    using later.hyps(2) that tcp_stopped.preserved [of server ids]
    by (auto elim!: process_stepE simp: shutdown_signal_def simp del: serve_event.simps)
  have http: "pr_http s' \<noteq> Accepting \<Longrightarrow> pr_http s'' \<noteq> Accepting \<and> pr_inflight s'' \<le> pr_inflight s'"
    and nats: "pr_nats s' = Some ins \<Longrightarrow> fst (worker_serve V starts ins) \<noteq> None \<Longrightarrow> pr_nats s'' = Some ins"
    and stopped: "pr_http s' = Stopped \<Longrightarrow> s'' = s'" for ins
    using later.hyps(2) by (auto elim!: process_stepE simp: shutdown_signal_def)
  show ?case
  proof (intro conjI allI impI)
    show "pr_http s'' \<noteq> Accepting" "pr_inflight s'' \<le> pr_inflight s" if "pr_http s \<noteq> Accepting"
      using that later.IH http by auto
    show "\<exists>server''. pr_tcp s'' = Some server'' \<and> \<not> listening server'' \<and> fst ` set (tasks server'') \<subseteq> fst ` set (tasks server)"
      if "pr_tcp s = Some server \<and> \<not> listening server" for server
      using that later.IH tcp by blast
    show "pr_nats s'' = Some ins" if "pr_nats s = Some ins \<and> fst (worker_serve V starts ins) \<noteq> None" for ins
      using that later.IH nats by blast
    show "s'' = s" if "pr_http s = Stopped"
      using that later.IH stopped by auto
  qed
qed

text \<open>A request in flight can always be answered, so the server can always drain.\<close>

lemma health_answered: "handle D Health_request a = (Inr (200, Health_body ''ok'' ''apme-api'' ''0.1.0''), a)"
  by (simp add: health_handler_def)

lemma process_run_first:
  assumes "process_step W V starts D s l s'" and "process_run W V starts D s' s''"
  shows "process_run W V starts D s s''"
  using assms(2,1) by (induction rule: process_run.induct) (auto intro: process_run.intros)

lemma draining_drains:
  assumes "pr_http s = Draining"
  shows "\<exists>s'. process_run W V starts D s s' \<and> pr_http s' = Stopped \<and> pr_tcp s' = pr_tcp s \<and> pr_nats s' = pr_nats s"
  using assms
proof (induction "pr_inflight s" arbitrary: s)
  case 0
  then have "process_step W V starts D s Exited (s\<lparr>pr_http := Stopped\<rparr>)" by (intro process_step.drained) simp_all
  then have "process_run W V starts D s (s\<lparr>pr_http := Stopped\<rparr>)" by (blast intro: process_run.intros)
  then show ?case by (intro exI [of _ "s\<lparr>pr_http := Stopped\<rparr>"]) simp
next
  case (Suc n)
  let ?s = "s\<lparr>pr_app := pr_app s, pr_inflight := n\<rparr>"
  have step: "process_step W V starts D s (Http_answered 0 Health_request (Inr (200, Health_body ''ok'' ''apme-api'' ''0.1.0''))) ?s"
    using Suc by (intro process_step.answer [OF _ _ health_answered]) simp_all
  from Suc.hyps(1) [of ?s] Suc.prems obtain s' where "process_run W V starts D ?s s'" "pr_http s' = Stopped"
    "pr_tcp s' = pr_tcp s" "pr_nats s' = pr_nats s" by auto
  with process_run_first [OF step] show ?case by blast
qed

text \<open>
  Shutdown waits for HTTP only: from every state of a process that still runs, it can come to its end with all accepted HTTP
  requests answered; but it can always do so without a single step of the transports, so the connections the framed
  transport is serving and the message the worker is handling at that moment are abandoned.
\<close>

lemma shutdown_abandons_transports:
  assumes "pr_http s \<noteq> Stopped"
  shows "\<exists>s'. process_run W V starts D s s' \<and> pr_http s' = Stopped \<and> pr_tcp s' = pr_tcp s \<and> pr_nats s' = pr_nats s"
proof (cases "pr_http s")
  case Accepting
  then have step: "process_step W V starts D s Interrupted (shutdown_signal s)" by (rule process_step.signal)
  have "pr_http (shutdown_signal s) = Draining" by (simp add: shutdown_signal_def)
  from draining_drains [OF this, of W V starts D] process_run_first [OF step] show ?thesis
    by (auto simp: shutdown_signal_def)
next
  case Draining
  then show ?thesis by (rule draining_drains)
qed (use assms in simp)

section \<open>Writes and events of the whole process\<close>

text \<open>
  Only REST requests write: as long as no other connection writes during a step, no step of the process
  changes the database except the handling of a REST request, and that only by one call of the stored function
  of its endpoint, for the tenant in its header and in the name of a granted and permitted member of it; frames,
  messages, connections and shutdown leave the database as it is.
\<close>

lemma process_writes_accounted:
  assumes "process_step W V starts D s l s'" and "quiet (app_cases (pr_app s))" and "l \<noteq> Elsewhere"
  shows "store (app_cases (pr_app s')) = store (app_cases (pr_app s)) \<or>
    (\<exists>t r result. l = Http_answered t r result \<and>
       accounted_write (D\<lparr>dep_clock := t\<rparr>) r (store (app_cases (pr_app s))) (store (app_cases (pr_app s'))))"
  using assms(1)
proof (rule process_stepE)
  fix n t r result a
  assume "l = Http_answered t r result" "s' = s\<lparr>pr_app := a, pr_inflight := n\<rparr>"
    "handle (D\<lparr>dep_clock := t\<rparr>) r (pr_app s) = (result, a)"
  with keepsD [OF handle_writes this(3)] assms(2) show ?thesis by (auto simp: at_most_def)
next
  fix server c t raw out w
  assume "s' = s\<lparr>pr_app := (pr_app s)\<lparr>app_cases := w\<rparr>\<rparr>"
    "execute W (D\<lparr>dep_clock := t\<rparr>) raw (app_cases (pr_app s)) = (out, w)"
  with execute_quiet [OF assms(2)] show ?thesis by auto
qed (use assms(3) in \<open>auto simp: shutdown_signal_def\<close>)

lemma startup_auth:
  assumes "startup S env = (Inr running, effects)"
  shows "\<exists>issuer audience. env ''SHARED_AUTH_ISSUER'' = Some issuer \<and> env ''SHARED_AUTH_AUDIENCE'' = Some audience \<and>
    au_issuer (run_auth running) = trim issuer \<and> au_audience (run_auth running) = trim audience"
proof -
  have "auth_from_env (auth_client_ok S) env = Inr (run_auth running)"
    using startup_serves_what_is_configured [OF assms] by blast
  then show ?thesis by (cases "run_auth running") (auto simp: auth_from_env_def required_env_def result_simps)
qed

end
