(* ===== verification/Programs.thy ===== *)
theory Programs
  imports Http_Retries
begin

text \<open>
  Requests as programs. The actions of the other theories run a request in one go and leave what happens between two of
  its database calls to a schedule. Here a request is a resumption: it is done, or it makes one
  call and goes on with what the call returned. Running such a program against a schedule is
  proved to be the action, so both describe the same code; programs can also be interleaved call by call.
\<close>

section \<open>Resumptions\<close>

datatype ('d, 'e, 'a) prog =
    Done "'e + 'a"
  | Call "fault option \<Rightarrow> 'd \<Rightarrow> ('d, 'e, 'a) prog \<times> 'd"

text \<open>One call at the moment it reaches the database, with the fault of the connection, if any.\<close>

definition faulty_call :: "('d, 'a) stmt \<Rightarrow> fault option \<Rightarrow> 'd \<Rightarrow> (sql_error + 'a) \<times> 'd" where
  "faulty_call q f d =
     (case run_stmt q d of (r, d') \<Rightarrow>
        (case f of
           None \<Rightarrow> (r, d')
         | Some (Lost_before m) \<Rightarrow> (Inl (Client_error m), d)
         | Some (Lost_after m) \<Rightarrow> (Inl (Client_error m), d')))"

primrec run_prog :: "('d, 'e, 'a) prog \<Rightarrow> ('d world, 'e, 'a) action" where
  "run_prog (Done r) w = (r, w)"
| "run_prog (Call c) w =
     (case agenda w of
        [] \<Rightarrow> (case map_prod run_prog id (c None (store w)) of (run, d) \<Rightarrow> run (w\<lparr>store := d\<rparr>))
      | (interfere, f) # rest \<Rightarrow>
          (case map_prod run_prog id (c f (interfere (store w))) of (run, d) \<Rightarrow> run \<lparr>store = d, agenda = rest\<rparr>))"

definition call :: "('d, 'a) stmt \<Rightarrow> ('d, sql_error, 'a) prog" where
  "call q = Call (\<lambda>f d. map_prod Done id (faulty_call q f d))"

primrec then_prog :: "('d, 'e, 'a) prog \<Rightarrow> ('a \<Rightarrow> ('d, 'e, 'b) prog) \<Rightarrow> ('d, 'e, 'b) prog" where
  "then_prog (Done r) g = (case r of Inl e \<Rightarrow> Done (Inl e) | Inr x \<Rightarrow> g x)"
| "then_prog (Call c) g = Call (\<lambda>f d. map_prod (\<lambda>p. then_prog p g) id (c f d))"

primrec map_err_prog :: "('e \<Rightarrow> 'h) \<Rightarrow> ('d, 'e, 'a) prog \<Rightarrow> ('d, 'h, 'a) prog" where
  "map_err_prog h (Done r) = Done (map_err h r)"
| "map_err_prog h (Call c) = Call (\<lambda>f d. map_prod (map_err_prog h) id (c f d))"

named_theorems prog_runs

lemmas prog_opaque = run_prog.simps then_prog.simps map_err_prog.simps

lemma run_done [prog_runs]: "run_prog (Done r) = lift_result r"
  by (simp add: fun_eq_iff)

lemma lift_ok [prog_runs]: "lift_result (Inr x) = pure_ok x"
  by (simp add: fun_eq_iff)

lemma run_call [prog_runs]: "run_prog (call q) = db_call q"
  by (rule ext) (auto simp: call_def faulty_call_def db_call_def split: list.splits prod.splits option.splits fault.splits)

lemma then_calls:
  assumes "\<And>f d p e. c f d = (p, e) \<Longrightarrow> run_prog (h p) = k (run_prog p)"
    and "\<And>w. k (run_prog (Call c)) w =
      (case agenda w of
         [] \<Rightarrow> (case c None (store w) of (p, d) \<Rightarrow> k (run_prog p) (w\<lparr>store := d\<rparr>))
       | (interfere, f) # rest \<Rightarrow>
           (case c f (interfere (store w)) of (p, d) \<Rightarrow> k (run_prog p) \<lparr>store = d, agenda = rest\<rparr>))"
  shows "run_prog (Call (\<lambda>f d. map_prod h id (c f d))) = k (run_prog (Call c))"
  by (rule ext, subst assms(2)) (auto split: list.splits prod.splits dest!: assms(1))

lemma run_then [prog_runs]: "run_prog (then_prog p g) = bind_try (run_prog p) (\<lambda>x. run_prog (g x))"
proof (induction p)
  case (Done r)
  show ?case by (cases r) (simp_all add: fun_eq_iff bind_try_def)
next
  case (Call c)
  show ?case unfolding then_prog.simps
  proof (rule then_calls)
    show "run_prog (then_prog p g) = bind_try (run_prog p) (\<lambda>x. run_prog (g x))" if "c f d = (p, e)" for f d p e
      by (rule Call [of "c f" "(p, e)"]) (simp, metis that rangeI, simp)
  qed (auto simp: bind_try_def split: list.splits prod.splits)
qed

lemma run_map_err [prog_runs]: "run_prog (map_err_prog h p) = act_map_err h (run_prog p)"
proof (induction p)
  case (Done r)
  show ?case by (simp add: fun_eq_iff act_map_err_def)
next
  case (Call c)
  show ?case unfolding map_err_prog.simps
  proof (rule then_calls)
    show "run_prog (map_err_prog h p) = act_map_err h (run_prog p)" if "c f d = (p, e)" for f d p e
      by (rule Call [of "c f" "(p, e)"]) (simp, metis that rangeI, simp)
  qed (auto simp: act_map_err_def split: list.splits prod.splits)
qed


section \<open>The operations of the service as programs\<close>

definition tenant_context_prog ::
  "verified_subject \<Rightarrow> uuid \<Rightarrow> ('x database_scheme, case_service_error, tenant_context) prog" where
  "tenant_context_prog subject tenant =
     then_prog
       (map_err_prog Storage
         (call (query (\<lambda>d. Inr (fetch_optional (membership_rows tenant (vs_shared_user_id subject) d))))))
       (\<lambda>found. Done
         (and_then (ok_or NotAuthorized found) (\<lambda>(organization, role_name).
          and_then (parse_role role_name) (\<lambda>role.
          Inr \<lparr>ctx_tenant_id = tenant, ctx_organization_id = organization, ctx_role = role\<rparr>))))"

definition list_cases_prog ::
  "tenant_context \<Rightarrow> ('x database_scheme, case_service_error, persisted_case list) prog" where
  "list_cases_prog c =
     then_prog (map_err_prog Storage (call (query (\<lambda>d. Inr (case_select_list (ctx_tenant_id c) d)))))
       (\<lambda>rows. Done (try_map case_from_row rows))"

definition get_case_prog ::
  "tenant_context \<Rightarrow> uuid \<Rightarrow> ('x database_scheme, case_service_error, persisted_case) prog" where
  "get_case_prog c i =
     then_prog
       (map_err_prog Storage
         (call (query (\<lambda>d. Inr (fetch_optional (case_select_one (ctx_tenant_id c) i d))))))
       (\<lambda>found. Done (and_then (ok_or NotFound found) case_from_row))"

definition record_access_prog ::
  "'d procs \<Rightarrow> tenant_context \<Rightarrow> verified_subject \<Rightarrow> uuid \<Rightarrow> instant \<Rightarrow> ('d, case_service_error, unit) prog" where
  "record_access_prog P c subject i now =
     map_err_prog Storage
       (call (apme_append_audit P (access_audit (ctx_tenant_id c) (vs_shared_user_id subject) i now)))"

definition mutation_result_prog ::
  "tenant_context \<Rightarrow> mutation_row \<Rightarrow> ('x database_scheme, case_service_error, case_mutation_result) prog" where
  "mutation_result_prog c row =
     then_prog (get_case_prog c (mu_case_id row)) (\<lambda>x.
     then_prog
       (map_err_prog Storage
         (call (query (\<lambda>d. fetch_one (event_select (ctx_tenant_id c) (mu_event_id row) d)))))
       (\<lambda>e. Done (Inr
         \<lparr>mr_case = x,
          mr_event =
            \<lparr>er_event_id = mu_event_id row, er_tenant_id = ev_tenant_id e,
             er_case_id = ev_case_id e, er_case_version = ev_case_version e,
             er_event_type = ev_event_type e, er_occurred_at = ev_occurred_at e,
             er_event_hash = mu_event_hash row\<rparr>,
          mr_replayed = mu_replayed row\<rparr>)))"

definition mutate_prog ::
  "interfaces \<Rightarrow> 'x database_scheme procs \<Rightarrow> tenant_context \<Rightarrow> verified_subject \<Rightarrow> string \<Rightarrow> instant \<Rightarrow> mutation \<Rightarrow>
     ('x database_scheme, case_service_error, case_mutation_result) prog" where
  "mutate_prog L P c subject key now x =
     then_prog (Done (prepare L P c subject key now x)) (\<lambda>st.
     then_prog (map_err_prog map_sql_error (call st)) (mutation_result_prog c))"

lemma service_runs [prog_runs]:
  "run_prog (tenant_context_prog subject tenant) = tenant_context subject tenant"
  "run_prog (list_cases_prog c) = list_cases c"
  "run_prog (get_case_prog c i) = get_case c i"
  "run_prog (record_access_prog P c subject i now) = record_access P c subject i now"
  by (simp_all add: tenant_context_prog_def tenant_context_def list_cases_prog_def list_cases_def get_case_prog_def
      get_case_def record_access_prog_def record_access_def prog_runs del: prog_opaque)

lemma mutation_result_runs [prog_runs]: "run_prog (mutation_result_prog c row) = mutation_result c row"
  by (simp add: mutation_result_prog_def mutation_result_def prog_runs del: prog_opaque)

lemma mutate_runs [prog_runs]: "run_prog (mutate_prog L P c subject key now x) = mutate L P c subject key now x"
proof
  fix w
  show "run_prog (mutate_prog L P c subject key now x) w = mutate L P c subject key now x w"
    using mutating.run_prepared [of L P c x "(subject, key, now)" w]
    by (simp add: mutate_prog_def prog_runs commit_mutation_def lift_chain split: sum.split del: prog_opaque)
qed

section \<open>Requests as programs\<close>

definition gate_prog ::
  "'x database_scheme deps \<Rightarrow> header_map \<Rightarrow> string list \<Rightarrow>
     ('x database_scheme, api_error, verified_subject \<times> tenant_context) prog" where
  "gate_prog D headers required_scopes =
     then_prog
       (Done (map_err Authentication
         (authenticate_with_scopes (dep_auth D) (dep_authority D) (dep_http D) (dep_clock D) headers required_scopes)))
       (\<lambda>subject.
     then_prog (Done (tenant_id D headers)) (\<lambda>tenant.
     then_prog (map_err_prog Cases_error (tenant_context_prog subject tenant)) (\<lambda>c.
     Done (Inr (subject, c)))))"

definition mutation_prog ::
  "'x database_scheme deps \<Rightarrow> header_map \<Rightarrow> mutation \<Rightarrow> ('x database_scheme, api_error, reply) prog" where
  "mutation_prog D h x =
     then_prog (gate_prog D h [CASES_WRITE_SCOPE]) (\<lambda>(subject, c).
     then_prog (Done (idempotency_key D h)) (\<lambda>key.
     then_prog
       (map_err_prog Cases_error
         (mutate_prog (dep_interfaces D) (dep_procs D) c subject key (dep_clock D) x)) (\<lambda>m.
     Done (Inr (success_status x m, Mutation_body m)))))"

primrec handle_prog ::
  "'x database_scheme deps \<Rightarrow> request \<Rightarrow> ('x database_scheme, api_error, reply) prog" where
  "handle_prog D Index_request = Done (Inr (200, Index_body ''apme-api'' ''Apostille Me'' ''/api/v1/cases'' ''/ws''))"
| "handle_prog D Health_request = Done (Inr (200, Health_body ''ok'' ''apme-api'' ''0.1.0''))"
| "handle_prog D Metrics_request =
     then_prog (map_err_prog (\<lambda>e. Cases_error (Storage e)) (call (query (\<lambda>d. Inr (case_count d)))))
       (\<lambda>n. Done (Inr (200, Metrics_body (metrics_text n))))"
| "handle_prog D (List_request h) =
     then_prog (gate_prog D h [CASES_READ_SCOPE]) (\<lambda>(_, c).
     then_prog (map_err_prog Cases_error (list_cases_prog c)) (\<lambda>cs.
     Done (Inr (200, Cases_body cs))))"
| "handle_prog D (Create_request h command) = mutation_prog D h (Creation command)"
| "handle_prog D (Get_request i h) =
     then_prog (gate_prog D h [CASES_READ_SCOPE]) (\<lambda>(subject, c).
     then_prog (map_err_prog Cases_error (get_case_prog c i)) (\<lambda>x.
     then_prog (map_err_prog Cases_error (record_access_prog (dep_procs D) c subject (pc_id x) (dep_clock D))) (\<lambda>_.
     Done (Inr (200, Case_body x)))))"
| "handle_prog D (Transition_request i h command) = mutation_prog D h (Transition i command)"
| "handle_prog D (Rotate_request i h command) = mutation_prog D h (Rotation i command)"
| "handle_prog D (Socket_request q h) =
     then_prog
       (Done (map_err Authentication
         (authenticate (dep_auth D) (dep_authority D) (dep_http D) (dep_clock D) h))) (\<lambda>subject.
     then_prog (map_err_prog Cases_error (tenant_context_prog subject (wq_tenant_id q))) (\<lambda>_.
     Done (Inr (101, Upgraded \<lparr>cs_tenant_id = wq_tenant_id q, cs_case_id = wq_case_id q\<rparr>))))"

lemma gate_runs [prog_runs]: "run_prog (gate_prog D h scopes) = authorized_tenant_with_scopes D h scopes"
  by (simp add: gate_prog_def authorized_tenant_with_scopes_def prog_runs del: prog_opaque)

text \<open>On the application state, apart from the channel, a handler is its program.\<close>

lemma on_cases_bind: "bind_try (on_cases m) (\<lambda>x. on_cases (f x)) = on_cases (bind_try m f)"
  by (rule ext) (auto simp: bind_try_def on_cases_def split: prod.splits sum.splits)

lemma on_cases_pure: "pure_ok x = on_cases (pure_ok x)"
  by (simp add: fun_eq_iff on_cases_def)

lemma on_cases_lift: "lift_result r = on_cases (lift_result r)"
  by (simp add: fun_eq_iff on_cases_def)

lemma on_cases_split: "on_cases (case p of (a, b) \<Rightarrow> m a b) = (case p of (a, b) \<Rightarrow> on_cases (m a b))"
  by (cases p) simp

lemma reading_handlers_run:
  "mutation_of r = None \<Longrightarrow> handle D r = on_cases (run_prog (handle_prog D r))"
proof (cases r)
  case (List_request h)
  then show ?thesis
    by (simp add: list_cases_handler_def authorized_tenant_def prog_runs on_cases_pure on_cases_bind
        case_prod_unfold del: prog_opaque)
next
  case (Get_request i h)
  then show ?thesis
    by (simp add: get_case_handler_def authorized_tenant_def prog_runs on_cases_pure on_cases_bind
        case_prod_unfold del: prog_opaque)
next
  case (Socket_request q h)
  then show ?thesis
    by (simp add: websocket_handler_def prog_runs on_cases_pure on_cases_lift on_cases_bind del: prog_opaque)
next
  case Metrics_request
  then show ?thesis
    by (simp add: metrics_handler_def prog_runs on_cases_pure on_cases_bind del: prog_opaque)
qed (simp_all add: index_handler_def health_handler_def on_cases_pure prog_runs del: prog_opaque)


lemma mutation_handler_runs:
  "mutation_handler D h (run_for D x) (success_status x) s =
     (case run_prog (mutation_prog D h x) (app_cases s) of
        (r, w) \<Rightarrow> (r, s\<lparr>app_cases := w, app_events := app_events s @ published r\<rparr>))"
proof -
  obtain q w where gate: "authorized_tenant_with_scopes D h [CASES_WRITE_SCOPE] (app_cases s) = (q, w)"
    by (cases "authorized_tenant_with_scopes D h [CASES_WRITE_SCOPE] (app_cases s)")
  show ?thesis
  proof (cases q)
    case (Inl e)
    with gate show ?thesis
      by (simp add: mutation_handler_def mutation_prog_def prog_runs bind_try_def on_cases_def del: prog_opaque)
  next
    case (Inr p)
    obtain subject c where p: "p = (subject, c)" by (cases p)
    show ?thesis
    proof (cases "idempotency_key D h")
      case (Inl e)
      with gate Inr p show ?thesis
        by (simp add: mutation_handler_def mutation_prog_def prog_runs bind_try_def on_cases_def del: prog_opaque)
    next
      case (Inr key)
      obtain m w' where run: "run_for D x subject c key w = (m, w')" by (cases "run_for D x subject c key w")
      with gate \<open>q = Inr p\<close> p Inr show ?thesis
        by (cases m) (simp_all add: mutation_handler_def mutation_prog_def prog_runs bind_try_def on_cases_def
            act_map_err_def run_for_def run_and_publish_def publish_mutation_def map_err_def del: prog_opaque)
    qed
  qed
qed

text \<open>Every handler is its program, followed by announcing what it answered.\<close>

lemma handle_runs:
  "handle D r s =
     (case run_prog (handle_prog D r) (app_cases s) of
        (result, w) \<Rightarrow> (result, s\<lparr>app_cases := w, app_events := app_events s @ published result\<rparr>))"
proof (cases "mutation_of r")
  case None
  from None have "handle D r s = on_cases (run_prog (handle_prog D r)) s" by (simp add: reading_handlers_run)
  moreover have "app_events (snd (handle D r s)) = app_events s @ published (fst (handle D r s))"
    using handle_publishes [of D r s] by (simp add: prod.case_eq_if)
  ultimately show ?thesis by (auto simp: on_cases_def split: prod.splits)
next
  case (Some x)
  then have "handle_prog D r = mutation_prog D (headers_of r) x" by (cases r) auto
  with Some show ?thesis by (simp add: handle_mutation mutation_handler_runs)
qed


text \<open>A mutating request from its statement on: the outcome of the statement, the result read back, the answer.\<close>

definition outcome :: "mutation \<Rightarrow> case_mutation_result \<Rightarrow> api_error + reply" where
  "outcome x m = Inr (success_status x m, Mutation_body m)"

definition after_statement ::
  "mutation \<Rightarrow> tenant_context \<Rightarrow> sql_error + mutation_row \<Rightarrow> ('x database_scheme, api_error, reply) prog" where
  "after_statement x c r =
     then_prog
       (map_err_prog Cases_error (then_prog (map_err_prog map_sql_error (Done r)) (mutation_result_prog c)))
       (\<lambda>m. Done (outcome x m))"

lemma mutate_call:
  "then_prog (map_err_prog Cases_error (then_prog (map_err_prog map_sql_error (call st)) (mutation_result_prog c)))
     (\<lambda>m. Done (Inr (success_status x m, Mutation_body m))) =
   Call (\<lambda>f d. map_prod (after_statement x c) id (faulty_call st f d))"
  by (simp add: call_def fun_eq_iff after_statement_def [abs_def] outcome_def prod.map_comp o_def id_def)

end
