(* ===== verification/Concurrency.thy ===== *)
theory Concurrency
  imports Programs Web_Socket
begin

text \<open>
  Requests in flight together: any number of them, each making its database calls one at a time between those of
  the others, with any call failing and the database also changing from elsewhere. Each
  answer is the one of the handler under a schedule made of the states the database really went through, so what is
  proved of handlers under every schedule holds for concurrent requests.
\<close>

section \<open>Model\<close>

type_synonym 'd flight = "int \<times> request \<times> ('d, api_error, reply) prog"

record 'd service =
  sv_store :: 'd
  sv_events :: "tenant_event list"
  sv_flight :: "nat \<rightharpoonup> 'd flight"

datatype service_label =
    Arrives nat int request
  | Calls nat "fault option"
  | Answers nat int request "api_error + reply"
  | Other_writes

inductive service_step ::
  "'x database_scheme deps \<Rightarrow> 'x database_scheme service \<Rightarrow> service_label \<Rightarrow> 'x database_scheme service \<Rightarrow> bool" for D where
  arrive: "sv_flight s i = None \<Longrightarrow>
     service_step D s (Arrives i t r)
       (s\<lparr>sv_flight := (sv_flight s)(i \<mapsto> (t, r, handle_prog (D\<lparr>dep_clock := t\<rparr>) r))\<rparr>)"
| call: "sv_flight s i = Some (t, r, Call c) \<Longrightarrow> c f (sv_store s) = (p, d) \<Longrightarrow>
     service_step D s (Calls i f) (s\<lparr>sv_store := d, sv_flight := (sv_flight s)(i \<mapsto> (t, r, p))\<rparr>)"
| answer: "sv_flight s i = Some (t, r, Done result) \<Longrightarrow>
     service_step D s (Answers i t r result)
       (s\<lparr>sv_events := sv_events s @ published result, sv_flight := (sv_flight s)(i := None)\<rparr>)"
| elsewhere: "service_step D s Other_writes (s\<lparr>sv_store := d\<rparr>)"

inductive_cases service_stepE: "service_step D s l s'"

text \<open>A run with its history: every step with the database it found.\<close>

inductive service_run ::
  "'x database_scheme deps \<Rightarrow> 'x database_scheme service \<Rightarrow> ('x database_scheme \<times> service_label) list \<Rightarrow>
     'x database_scheme service \<Rightarrow> bool" for D where
  stay: "service_run D s [] s"
| later: "service_run D s history s' \<Longrightarrow> service_step D s' l s'' \<Longrightarrow>
     service_run D s (history @ [(sv_store s', l)]) s''"

lemma service_run_prefix: "service_run D s history s' \<Longrightarrow> history = before @ after \<Longrightarrow> \<exists>u. service_run D s before u"
proof (induction arbitrary: after rule: service_run.induct)
  case (stay s)
  then show ?case by (auto intro: service_run.stay)
next
  case (later s history s' l s'')
  show ?case
  proof (cases after rule: rev_cases)
    case Nil
    with later show ?thesis by (auto intro: service_run.later)
  next
    case (snoc rest x)
    with later.prems later.IH [of rest] show ?thesis by simp
  qed
qed

definition seen :: "('d \<times> 'l) list \<Rightarrow> 'd set" where
  "seen history = fst ` set history"

fun answers :: "('d \<times> service_label) list \<Rightarrow> (int \<times> request \<times> (api_error + reply)) list" where
  "answers [] = []"
| "answers ((_, Answers i t r result) # rest) = (t, r, result) # answers rest"
| "answers (_ # rest) = answers rest"

lemma answers_append [simp]: "answers (xs @ ys) = answers xs @ answers ys"
  by (induction xs rule: answers.induct) simp_all

lemma seen_append [simp]: "seen (xs @ [(d, l)]) = insert d (seen xs)"
  by (auto simp: seen_def)

text \<open>The events the answers of a run announce.\<close>

definition announced :: "('d \<times> service_label) list \<Rightarrow> tenant_event list" where
  "announced history = concat (map (\<lambda>(t, r, result). published result) (answers history))"

lemma events_are_announced: "service_run D s history s' \<Longrightarrow> sv_events s' = sv_events s @ announced history"
proof (induction rule: service_run.induct)
  case (later s history s' l s'')
  from later.hyps(2) have "sv_events s'' = sv_events s' @ announced [(sv_store s', l)]"
    by (rule service_stepE) (simp_all add: announced_def)
  with later.IH show ?case by (simp add: announced_def)
qed (simp add: announced_def)

lemma announced_by:
  "e \<in> set (announced history) \<longleftrightarrow> (\<exists>t r result. (t, r, result) \<in> set (answers history) \<and> e \<in> set (published result))"
  by (force simp: announced_def)

section \<open>Every answer is a handler's\<close>

text \<open>
  How a program in flight came about: the program it started as, run against a schedule of databases out of a set,
  is now this program, on one of these databases.
\<close>

definition reached :: "'d set \<Rightarrow> ('d, 'e, 'a) prog \<Rightarrow> ('d, 'e, 'a) prog \<Rightarrow> bool" where
  "reached ds start p \<longleftrightarrow>
     (\<exists>slots d0 d. fst ` set slots \<subseteq> (\<lambda>e _. e) ` ds \<and> (if slots = [] then p = start else d \<in> ds) \<and>
        (\<forall>rest. run_prog start \<lparr>store = d0, agenda = slots @ rest\<rparr> = run_prog p \<lparr>store = d, agenda = rest\<rparr>))"

lemma reached_start: "reached ds start start"
  unfolding reached_def by (intro exI [of _ "[]"]) auto

lemma reached_mono: "reached ds start p \<Longrightarrow> ds \<subseteq> ds' \<Longrightarrow> reached ds' start p"
proof -
  assume sub: "ds \<subseteq> ds'" and "reached ds start p"
  then obtain slots d0 d where "fst ` set slots \<subseteq> (\<lambda>e _. e) ` ds" "if slots = [] then p = start else d \<in> ds"
    "\<forall>rest. run_prog start \<lparr>store = d0, agenda = slots @ rest\<rparr> = run_prog p \<lparr>store = d, agenda = rest\<rparr>"
    unfolding reached_def by blast
  moreover from sub this(1) have "fst ` set slots \<subseteq> (\<lambda>e _. e) ` ds'" by blast
  ultimately show ?thesis
    unfolding reached_def using sub by (intro exI [of _ slots] exI [of _ d0] exI [of _ d]) (auto split: if_splits)
qed

lemma reached_call:
  assumes "reached ds start (Call c)" and "c f e = (p, d')"
  shows "reached (insert d' (insert e ds)) start p"
proof -
  from assms(1) obtain slots d0 d where slots: "fst ` set slots \<subseteq> (\<lambda>e _. e) ` ds"
    and run: "\<And>rest. run_prog start \<lparr>store = d0, agenda = slots @ rest\<rparr> =
      run_prog (Call c) \<lparr>store = d, agenda = rest\<rparr>"
    unfolding reached_def by blast
  have "run_prog start \<lparr>store = d0, agenda = (slots @ [(\<lambda>_. e, f)]) @ rest\<rparr> =
      run_prog p \<lparr>store = d', agenda = rest\<rparr>" for rest
    using run [of "(\<lambda>_. e, f) # rest"] assms(2) by simp
  moreover have "fst ` set (slots @ [(\<lambda>_. e, f)]) \<subseteq> (\<lambda>e _. e) ` insert d' (insert e ds)" using slots by auto
  ultimately show ?thesis
    unfolding reached_def by (intro exI [of _ "slots @ [(\<lambda>_. e, f)]"] exI [of _ d0] exI [of _ d']) simp
qed

text \<open>The schedules that consist of databases out of a set.\<close>

definition scheduled :: "'d set \<Rightarrow> 'd world \<Rightarrow> bool" where
  "scheduled ds w \<longleftrightarrow> fst ` set (agenda w) \<subseteq> (\<lambda>e _. e) ` ds"

lemma scheduled_presented: "scheduled ds w \<Longrightarrow> agenda w \<noteq> [] \<Longrightarrow> presented w \<in> ds"
  by (cases "agenda w") (auto simp: scheduled_def presented_def)

lemma reached_done:
  assumes "reached ds start (Done result)"
  obtains w d where "scheduled ds w" "run_prog start w = (result, \<lparr>store = d, agenda = []\<rparr>)"
    "if agenda w = [] then start = Done result else d \<in> ds"
proof -
  from assms obtain slots d0 d where slots: "fst ` set slots \<subseteq> (\<lambda>e _. e) ` ds"
    and last: "if slots = [] then Done result = start else d \<in> ds"
    and run: "\<And>rest. run_prog start \<lparr>store = d0, agenda = slots @ rest\<rparr> =
      run_prog (Done result) \<lparr>store = d, agenda = rest\<rparr>"
    unfolding reached_def by blast
  from run [of "[]"] slots last show thesis
    by (intro that [of "\<lparr>store = d0, agenda = slots\<rparr>" d]) (auto simp: scheduled_def split: if_splits)
qed

lemma reached_handled:
  assumes "reached ds (handle_prog D r) (Done result)"
  obtains w where "scheduled ds w" "agenda w \<noteq> [] \<or> handle_prog D r = Done result"
    "\<And>events. fst (handle D r \<lparr>app_cases = w, app_events = events\<rparr>) = result"
proof -
  obtain w d where w: "scheduled ds w" "run_prog (handle_prog D r) w = (result, \<lparr>store = d, agenda = []\<rparr>)"
    and last: "if agenda w = [] then handle_prog D r = Done result else d \<in> ds"
    using reached_done [OF assms] .
  have "agenda w \<noteq> [] \<or> handle_prog D r = Done result" using last by (simp split: if_splits)
  moreover have "fst (handle D r \<lparr>app_cases = w, app_events = events\<rparr>) = result" for events
    by (simp add: handle_runs w(2))
  ultimately show thesis using that w(1) by blast
qed

definition flights_reached :: "'x database_scheme set \<Rightarrow> 'x database_scheme deps \<Rightarrow> 'x database_scheme service \<Rightarrow> bool" where
  "flights_reached ds D s \<longleftrightarrow>
     (\<forall>i t r p. sv_flight s i = Some (t, r, p) \<longrightarrow> reached ds (handle_prog (D\<lparr>dep_clock := t\<rparr>) r) p)"

lemma service_step_reached:
  assumes "service_step D s l s'" and "flights_reached ds D s"
  shows "flights_reached (insert (sv_store s') (insert (sv_store s) ds)) D s'"
proof -
  have wider: "flights_reached (insert (sv_store s') (insert (sv_store s) ds)) D s"
    using assms(2) unfolding flights_reached_def by (meson reached_mono subset_insertI order_trans)
  from assms(1) show ?thesis
  proof (rule service_stepE)
    fix i t r c f p d
    assume "sv_flight s i = Some (t, r, Call c)" "c f (sv_store s) = (p, d)"
      "s' = s\<lparr>sv_store := d, sv_flight := (sv_flight s)(i \<mapsto> (t, r, p))\<rparr>"
    with assms(2) reached_call [of ds "handle_prog (D\<lparr>dep_clock := t\<rparr>) r" c f "sv_store s" p d] wider show ?thesis
      by (auto simp: flights_reached_def)
  qed (use wider in \<open>auto simp: flights_reached_def intro: reached_start split: if_splits\<close>)
qed

lemma service_run_reached:
  assumes "service_run D s history s'" and "sv_flight s = Map.empty"
  shows "flights_reached (insert (sv_store s') (seen history)) D s'"
  using assms
proof (induction rule: service_run.induct)
  case (stay s)
  then show ?case by (simp add: flights_reached_def)
next
  case (later s history s' l s'')
  then show ?case using service_step_reached [of D s' l s'' "insert (sv_store s') (seen history)"] by simp
qed

lemma answers_handled:
  assumes "service_run D s history s'" and "sv_flight s = Map.empty" and "(t, r, result) \<in> set (answers history)"
  shows "\<exists>w. scheduled (seen history) w \<and> (agenda w \<noteq> [] \<or> handle_prog (D\<lparr>dep_clock := t\<rparr>) r = Done result) \<and>
    (\<forall>events. fst (handle (D\<lparr>dep_clock := t\<rparr>) r \<lparr>app_cases = w, app_events = events\<rparr>) = result)"
  using assms
proof (induction rule: service_run.induct)
  case (stay s)
  then show ?case by simp
next
  case (later s history s' l s'')
  have wider: "scheduled (seen history) w \<Longrightarrow> scheduled (seen (history @ [(sv_store s', l)])) w" for w
    by (auto simp: scheduled_def)
  show ?case
  proof (cases "(t, r, result) \<in> set (answers history)")
    case True
    with later wider show ?thesis by blast
  next
    case False
    with later.prems(2) obtain i where l: "l = Answers i t r result"
      by (cases l) auto
    with later.hyps(2) have "sv_flight s' i = Some (t, r, Done result)" by (auto elim: service_stepE)
    with service_run_reached [OF later.hyps(1) later.prems(1)]
    have "reached (seen (history @ [(sv_store s', l)])) (handle_prog (D\<lparr>dep_clock := t\<rparr>) r) (Done result)"
      by (auto simp: flights_reached_def)
    then show ?thesis by (rule reached_handled) blast
  qed
qed

text \<open>A request that is answered without a call neither shows a case nor announces anything nor opens a socket.\<close>

lemma gate_prog_not_done: "gate_prog D h scopes \<noteq> Done (Inr x)"
  by (auto simp: gate_prog_def tenant_context_prog_def call_def split: sum.splits)

lemma then_prog_done: "then_prog p g = Done (Inr y) \<Longrightarrow> \<exists>x. p = Done (Inr x)"
  by (cases p) (auto split: sum.splits)

lemma answered_without_call:
  assumes "handle_prog D r = Done (Inr (status, body))"
  shows "cases_in body = {} \<and> published (Inr (status, body)) = [] \<and> body \<noteq> Upgraded sub"
proof (cases r)
  case Metrics_request
  with assms show ?thesis by (simp add: call_def)
next
  case (Socket_request q h)
  with assms show ?thesis
    by (auto simp: tenant_context_prog_def call_def dest!: then_prog_done split: sum.splits)
qed (use assms in \<open>auto simp: mutation_prog_def gate_prog_not_done dest!: then_prog_done\<close>)

lemma answers_presented:
  assumes "service_run D s history s'" and "sv_flight s = Map.empty"
    and "(t, r, Inr reply) \<in> set (answers history)" and "handle_prog (D\<lparr>dep_clock := t\<rparr>) r \<noteq> Done (Inr reply)"
  obtains w where "presented w \<in> seen history"
    "\<And>events. fst (handle (D\<lparr>dep_clock := t\<rparr>) r \<lparr>app_cases = w, app_events = events\<rparr>) = Inr reply"
proof -
  from answers_handled [OF assms(1-3)] obtain w where w: "scheduled (seen history) w"
    "agenda w \<noteq> [] \<or> handle_prog (D\<lparr>dep_clock := t\<rparr>) r = Done (Inr reply)"
    "\<And>events. fst (handle (D\<lparr>dep_clock := t\<rparr>) r \<lparr>app_cases = w, app_events = events\<rparr>) = Inr reply"
    by blast
  with assms(4) scheduled_presented [OF w(1)] that show thesis by blast
qed

section \<open>Playing a run\<close>

text \<open>
  Runs as the scheduler makes them: a request arrives, the request in a slot goes on by one call or by its answer, or the
  database changes from elsewhere. Playing a list of moves computes a run.
\<close>

datatype 'd move =
    Arrive nat int request
  | Advance nat "fault option"
  | Overwrite 'd

fun play_move :: "'x database_scheme deps \<Rightarrow> 'x database_scheme service \<Rightarrow> 'x database_scheme move \<Rightarrow>
    (service_label \<times> 'x database_scheme service) option" where
  "play_move D s (Arrive i t r) =
     (case sv_flight s i of
        None \<Rightarrow> Some (Arrives i t r,
          s\<lparr>sv_flight := (sv_flight s)(i \<mapsto> (t, r, handle_prog (D\<lparr>dep_clock := t\<rparr>) r))\<rparr>)
      | Some _ \<Rightarrow> None)"
| "play_move D s (Advance i f) =
     (case sv_flight s i of
        None \<Rightarrow> None
      | Some (t, r, Done result) \<Rightarrow> Some (Answers i t r result,
          s\<lparr>sv_events := sv_events s @ published result, sv_flight := (sv_flight s)(i := None)\<rparr>)
      | Some (t, r, Call c) \<Rightarrow>
          (case c f (sv_store s) of (p, d) \<Rightarrow>
             Some (Calls i f, s\<lparr>sv_store := d, sv_flight := (sv_flight s)(i \<mapsto> (t, r, p))\<rparr>)))"
| "play_move D s (Overwrite d) = Some (Other_writes, s\<lparr>sv_store := d\<rparr>)"

primrec play :: "'x database_scheme deps \<Rightarrow> 'x database_scheme service \<Rightarrow> 'x database_scheme move list \<Rightarrow>
    (('x database_scheme \<times> service_label) list \<times> 'x database_scheme service) option" where
  "play D s [] = Some ([], s)"
| "play D s (a # as) =
     (case play_move D s a of
        None \<Rightarrow> None
      | Some (l, s') \<Rightarrow> map_option (map_prod (Cons (sv_store s, l)) id) (play D s' as))"

lemma play_move_steps: "play_move D s a = Some (l, s') \<Longrightarrow> service_step D s l s'"
  by (cases "(D, s, a)" rule: play_move.cases)
    (auto intro: service_step.intros split: option.splits prod.splits prog.splits)

lemma service_run_first:
  "service_run D s' history s'' \<Longrightarrow> service_step D s l s' \<Longrightarrow> service_run D s ((sv_store s, l) # history) s''"
proof (induction rule: service_run.induct)
  case (stay s')
  then show ?case using service_run.later [OF service_run.stay] by force
next
  case (later s' history u l' s'')
  then show ?case using service_run.later [of D s "(sv_store s, l) # history"] by simp
qed

lemma play_runs: "play D s as = Some (history, s') \<Longrightarrow> service_run D s history s'"
proof (induction as arbitrary: s history)
  case Nil
  then show ?case by (simp add: service_run.stay)
next
  case (Cons a as)
  then obtain l u rest where "play_move D s a = Some (l, u)" "play D u as = Some (rest, s')" "history = (sv_store s, l) # rest"
    by (auto split: option.splits)
  with Cons.IH [of u rest] show ?case using service_run_first [of D u rest s' s l] play_move_steps [of D s a l u] by simp
qed

text \<open>A request in a slot can always go on.\<close>

lemma advances: "sv_flight s i \<noteq> None \<Longrightarrow> \<exists>l s'. play_move D s (Advance i f) = Some (l, s')"
  by (auto split: prod.splits prog.splits)

end
