(* ===== verification/Concurrent_Properties.thy ===== *)
theory Concurrent_Properties
  imports Concurrency
begin

text \<open>
  What holds of requests in flight together: tenant isolation of their answers, of the events they announce and of
  what subscribers see, and how many calls a request makes.
\<close>

section \<open>The channel\<close>

text \<open>
  The receiver's side of the broadcast channel, as its documentation has it: what is received was sent, in that order,
  and nothing is skipped as long as the receiver is never more than the capacity behind.
\<close>

definition EVENT_CAPACITY :: nat where
  "EVENT_CAPACITY = 256"

datatype channel_action = Sent tenant_event | Received tenant_event

fun sent :: "channel_action list \<Rightarrow> tenant_event list" where
  "sent [] = []"
| "sent (Sent e # log) = e # sent log"
| "sent (Received _ # log) = sent log"

fun received :: "channel_action list \<Rightarrow> tenant_event list" where
  "received [] = []"
| "received (Received e # log) = e # received log"
| "received (Sent _ # log) = received log"

definition keeps_up :: "nat \<Rightarrow> channel_action list \<Rightarrow> bool" where
  "keeps_up capacity log \<longleftrightarrow> list_all (\<lambda>n. length (sent (take n log)) \<le> length (received (take n log)) + capacity) [0..<Suc (length log)]"

definition broadcasts :: "nat \<Rightarrow> channel_action list \<Rightarrow> bool" where
  "broadcasts capacity log \<longleftrightarrow>
     subseq (received log) (sent log) \<and> (keeps_up capacity log \<longrightarrow> prefix (received log) (sent log))"

section \<open>Sample runs\<close>

definition case_service :: "ledger_database service" where
  "case_service = \<lparr>sv_store = store case_world, sv_events = [], sv_flight = Map.empty\<rparr>"

lemmas prog_eval = gate_prog_def mutation_prog_def tenant_context_prog_def list_cases_prog_def get_case_prog_def
  record_access_prog_def mutation_result_prog_def mutate_prog_def call_def faulty_call_def
  prepare_defs success_status_def case_service_def

text \<open>A listing that reads while a transition of the same tenant is under way.\<close>

definition listing_moves :: "ledger_database move list" where
  "listing_moves =
     [Arrive 0 ref_clock (List_request ref_headers), Arrive 1 ref_clock transition_request, Advance 0 None, Advance 1 None,
      Advance 0 None, Advance 1 None, Advance 0 None, Advance 1 None, Advance 1 None, Advance 1 None]"

lemma sample_interleaved:
  "\<exists>history s' m. play ref_deps case_service listing_moves = Some (history, s') \<and>
     answers history =
       [(ref_clock, List_request ref_headers, Inr (200, Cases_body [sample_case])),
        (ref_clock, transition_request, Inr (200, Mutation_body m))] \<and> pc_tenant_id (mr_case m) = 1 \<and> \<not> mr_replayed m"
  by (simp add: listing_moves_def transition_request_def http_eval service_eval sample_defs ref_defs prog_eval)

section \<open>Isolation and accountability\<close>

text \<open>
  C1. Tenant isolation under concurrency: however the database calls of any number of requests interleave, whatever calls
  fail and whatever else writes to the database, every case in a successful answer belongs to the tenant named in
  the header of its request, the authority grants the caller the scope of the endpoint, and the caller is an active member of that
  tenant in a state the database went through.
\<close>

theorem concurrent_replies_stay_in_tenant:
  assumes "service_run D s history s'" and "sv_flight s = Map.empty"
    and "(t, r, Inr (status, body)) \<in> set (answers history)" and "c \<in> cases_in body"
  shows "tenant_id D (headers_of r) = Inr (pc_tenant_id c) \<and>
    (\<exists>subject role. grants_here (D\<lparr>dep_clock := t\<rparr>) (headers_of r) (needed_scopes r) subject \<and>
       (\<exists>d \<in> seen history. member (pc_tenant_id c) (vs_shared_user_id subject) role d))"
proof -
  have "handle_prog (D\<lparr>dep_clock := t\<rparr>) r \<noteq> Done (Inr (status, body))"
    using answered_without_call [of "D\<lparr>dep_clock := t\<rparr>" r status body] assms(4) by auto
  from answers_presented [OF assms(1-3) this] obtain w where w: "presented w \<in> seen history"
    and run: "fst (handle (D\<lparr>dep_clock := t\<rparr>) r \<lparr>app_cases = w, app_events = []\<rparr>) = Inr (status, body)"
    by blast
  then obtain a where "handle (D\<lparr>dep_clock := t\<rparr>) r \<lparr>app_cases = w, app_events = []\<rparr> = (Inr (status, body), a)"
    by (metis prod.collapse)
  from replies_stay_in_tenant [OF this assms(4)] w show ?thesis by (auto simp: tenant_id_def)
qed

theorem concurrent_replies_stay_in_tenant_witness:
  "\<exists>history s'. service_run ref_deps case_service history s' \<and> length (answers history) = 2 \<and>
     tenant_id ref_deps ref_headers = Inr (pc_tenant_id sample_case) \<and>
     (\<exists>subject role. grants_here (ref_deps\<lparr>dep_clock := ref_clock\<rparr>) ref_headers [CASES_READ_SCOPE] subject \<and>
        (\<exists>d \<in> seen history. member (pc_tenant_id sample_case) (vs_shared_user_id subject) role d))"
proof -
  obtain history s' m where play: "play ref_deps case_service listing_moves = Some (history, s')" and
    ans: "answers history = [(ref_clock, List_request ref_headers, Inr (200, Cases_body [sample_case])),
      (ref_clock, transition_request, Inr (200, Mutation_body m))]"
    using sample_interleaved by blast
  have empty: "sv_flight case_service = Map.empty" by (simp add: case_service_def)
  have mem: "(ref_clock, List_request ref_headers, Inr (200, Cases_body [sample_case])) \<in> set (answers history)"
    "sample_case \<in> cases_in (Cases_body [sample_case])"
    by (simp_all add: ans)
  from concurrent_replies_stay_in_tenant [OF play_runs [OF play] empty mem] play_runs [OF play] ans show ?thesis
    by (intro exI [of _ history] exI [of _ s']) (simp add: request_defs)
qed

lemma announced_accountable:
  assumes "service_run D s history s'" and "sv_flight s = Map.empty"
    and "(t, r, result) \<in> set (answers history)" and "e \<in> set (published result)"
  shows "\<exists>d \<in> seen history. accountable (D\<lparr>dep_clock := t\<rparr>) r d e"
proof -
  from assms(4) obtain status body where result: "result = Inr (status, body)"
    by (cases result rule: published.cases) auto
  have "handle_prog (D\<lparr>dep_clock := t\<rparr>) r \<noteq> Done (Inr (status, body))"
    using answered_without_call [of "D\<lparr>dep_clock := t\<rparr>" r status body] assms(4) result by auto
  from answers_presented [OF assms(1,2) assms(3) [unfolded result] this] obtain w where "presented w \<in> seen history"
    "fst (handle (D\<lparr>dep_clock := t\<rparr>) r \<lparr>app_cases = w, app_events = []\<rparr>) = result"
    using result by blast
  with handle_accountable [of e "D\<lparr>dep_clock := t\<rparr>" r "\<lparr>app_cases = w, app_events = []\<rparr>"] assms(4) show ?thesis by auto
qed

text \<open>
  C6. Every event on the channel is accountable, under concurrency: the channel carries exactly the events of the fresh mutations
  that were answered, in the order of the answers, and each comes from a mutating request, names
  the tenant of that request's header both in its envelope and in its receipt, and was made with a token granted for writing
  by an active member of that tenant whose role permits the mutation.
\<close>

theorem concurrent_events_accountable:
  assumes "service_run D s history s'" and "sv_flight s = Map.empty"
  shows "sv_events s' = sv_events s @ announced history \<and>
    (\<forall>(t, r, result) \<in> set (answers history). \<forall>e \<in> set (published result).
       \<exists>d \<in> seen history. accountable (D\<lparr>dep_clock := t\<rparr>) r d e)"
  using events_are_announced [OF assms(1)] announced_accountable [OF assms] by blast

theorem concurrent_events_accountable_witness:
  "\<exists>history s' e. service_run ref_deps case_service history s' \<and> sv_events s' = [e] \<and>
     (\<exists>d \<in> seen history. accountable (ref_deps\<lparr>dep_clock := ref_clock\<rparr>) transition_request d e)"
proof -
  obtain history s' m where play: "play ref_deps case_service listing_moves = Some (history, s')" and
    ans: "answers history = [(ref_clock, List_request ref_headers, Inr (200, Cases_body [sample_case])),
      (ref_clock, transition_request, Inr (200, Mutation_body m))]" and m: "\<not> mr_replayed m"
    using sample_interleaved by blast
  have empty: "sv_flight case_service = Map.empty" "sv_events case_service = []" by (simp_all add: case_service_def)
  from concurrent_events_accountable [OF play_runs [OF play] empty(1)] ans m empty(2)
  have "sv_events s' = [event_of m]"
    "\<exists>d \<in> seen history. accountable (ref_deps\<lparr>dep_clock := ref_clock\<rparr>) transition_request d (event_of m)"
    by (simp_all add: announced_def)
  with play_runs [OF play] show ?thesis by blast
qed


section \<open>Subscribers\<close>

text \<open>The handshake of a socket, as one of the answers of a run.\<close>

lemma concurrent_handshake:
  assumes "service_run D s history s'" and "sv_flight s = Map.empty"
    and "(t, Socket_request q h, Inr (status, Upgraded sub)) \<in> set (answers history)"
  shows "cs_tenant_id sub = wq_tenant_id q" and "cs_case_id sub = wq_case_id q"
    and "\<exists>subject role. grants_here (D\<lparr>dep_clock := t\<rparr>) h [CASES_READ_SCOPE] subject \<and>
      (\<exists>d \<in> seen history. member (wq_tenant_id q) (vs_shared_user_id subject) role d)"
proof -
  have "handle_prog (D\<lparr>dep_clock := t\<rparr>) (Socket_request q h) \<noteq> Done (Inr (status, Upgraded sub))"
    using answered_without_call [of "D\<lparr>dep_clock := t\<rparr>" "Socket_request q h" status "Upgraded sub" sub] by auto
  from answers_presented [OF assms this] obtain w where w: "presented w \<in> seen history"
    and "fst (handle (D\<lparr>dep_clock := t\<rparr>) (Socket_request q h) \<lparr>app_cases = w, app_events = []\<rparr>) = Inr (status, Upgraded sub)"
    by blast
  then obtain a where "handle (D\<lparr>dep_clock := t\<rparr>) (Socket_request q h) \<lparr>app_cases = w, app_events = []\<rparr> =
      (Inr (status, Upgraded sub), a)"
    by (metis prod.collapse)
  note hs = handshake [OF this]
  show "cs_tenant_id sub = wq_tenant_id q" "cs_case_id sub = wq_case_id q" by (fact hs(1,2))+
  show "\<exists>subject role. grants_here (D\<lparr>dep_clock := t\<rparr>) h [CASES_READ_SCOPE] subject \<and>
      (\<exists>d \<in> seen history. member (wq_tenant_id q) (vs_shared_user_id subject) role d)"
    using hs(3) w by auto
qed

text \<open>
  C2. What a subscriber can see: let a WebSocket handshake be answered in a run of the service and the run go on, with any
  number of requests in flight. As the channel documents (lagging included), every text frame the socket loop sends is the
  serialization of an event of the tenant and, where one was chosen, the case of the handshake's query; that
  event was announced after the handshake by the answer to a mutation of an authorized writer of the same tenant, and the
  subscriber was granted the read scope and was an active member of that tenant at the handshake.
\<close>

theorem concurrent_subscribers_see_their_tenant:
  assumes "service_run D s (before @ (d, Answers i t (Socket_request q h) (Inr (status, Upgraded sub))) # after) s'"
    and "sv_flight s = Map.empty"
    and "broadcasts EVENT_CAPACITY log" and "sent log = announced after" and "received log = events_received ins"
    and "Text_frame text \<in> set (fst (socket_loop to_json sub ins))"
  shows "(\<exists>e t' r' result d'. to_json e = Some text \<and> te_tenant_id e = wq_tenant_id q \<and>
        er_tenant_id (te_event e) = wq_tenant_id q \<and> (\<forall>i. wq_case_id q = Some i \<longrightarrow> te_case_id e = i) \<and>
        (t', r', result) \<in> set (answers after) \<and> published result = [e] \<and> accountable (D\<lparr>dep_clock := t'\<rparr>) r' d' e) \<and>
    (\<exists>subject role. grants_here (D\<lparr>dep_clock := t\<rparr>) h [CASES_READ_SCOPE] subject \<and>
        (\<exists>d' \<in> insert d (seen before). member (wq_tenant_id q) (vs_shared_user_id subject) role d'))"
proof -
  let ?answer = "(d, Answers i t (Socket_request q h) (Inr (status, Upgraded sub)))"
  have "(t, Socket_request q h, Inr (status, Upgraded sub)) \<in> set (answers (before @ [?answer]))" by simp
  moreover obtain u where "service_run D s (before @ [?answer]) u"
    using service_run_prefix [OF assms(1), of "before @ [?answer]" after] by auto
  ultimately have hs: "cs_tenant_id sub = wq_tenant_id q" "cs_case_id sub = wq_case_id q"
    "\<exists>subject role. grants_here (D\<lparr>dep_clock := t\<rparr>) h [CASES_READ_SCOPE] subject \<and>
      (\<exists>d' \<in> insert d (seen before). member (wq_tenant_id q) (vs_shared_user_id subject) role d')"
    using concurrent_handshake [of D s "before @ [?answer]" u t q h status sub] assms(2) by auto
  from assms(6) obtain e where e: "e \<in> set (events_received ins)" "subscription_allows sub e" "to_json e = Some text"
    by (rule socket_text_event)
  from e(1) assms(3-5) have "e \<in> set (announced after)" by (auto simp: broadcasts_def dest: list_emb_set)
  then obtain t' r' result where ans: "(t', r', result) \<in> set (answers after)" and pub: "e \<in> set (published result)"
    by (auto simp: announced_by)
  from ans announced_accountable [OF assms(1,2), of t' r' result e] pub
  obtain d' where acc: "accountable (D\<lparr>dep_clock := t'\<rparr>) r' d' e" by auto
  have pub1: "published result = [e]" using published_at_most_one [of result] pub by auto
  from acc have rec: "er_tenant_id (te_event e) = te_tenant_id e" by (auto simp: accountable_def)
  have allowed: "te_tenant_id e = wq_tenant_id q \<and> (\<forall>i. wq_case_id q = Some i \<longrightarrow> te_case_id e = i)"
    using e(2) hs(1,2) by (auto simp: subscription_allows_def split: option.splits)
  show ?thesis
  proof
    show "\<exists>e t' r' result d'. to_json e = Some text \<and> te_tenant_id e = wq_tenant_id q \<and>
        er_tenant_id (te_event e) = wq_tenant_id q \<and> (\<forall>i. wq_case_id q = Some i \<longrightarrow> te_case_id e = i) \<and>
        (t', r', result) \<in> set (answers after) \<and> published result = [e] \<and> accountable (D\<lparr>dep_clock := t'\<rparr>) r' d' e"
      using e(3) ans acc pub1 rec allowed
      by (intro exI [of _ e] exI [of _ t'] exI [of _ r'] exI [of _ result] exI [of _ d']) simp
  qed (use hs(3) in blast)
qed


text \<open>A subscriber that arrives while a transition is under way.\<close>

abbreviation sample_query :: web_socket_query where
  "sample_query \<equiv> \<lparr>wq_tenant_id = 1, wq_case_id = None\<rparr>"

abbreviation sample_subscription :: case_subscription where
  "sample_subscription \<equiv> \<lparr>cs_tenant_id = 1, cs_case_id = None\<rparr>"

definition socket_moves :: "ledger_database move list" where
  "socket_moves =
     [Arrive 1 ref_clock transition_request, Advance 1 None, Arrive 0 ref_clock (Socket_request sample_query ref_headers),
      Advance 1 None, Advance 0 None, Advance 0 None, Advance 1 None, Advance 1 None, Advance 1 None]"

lemma sample_socket:
  "\<exists>before d after s' m. service_run ref_deps case_service
       (before @ (d, Answers 0 ref_clock (Socket_request sample_query ref_headers) (Inr (101, Upgraded sample_subscription))) # after) s' \<and>
     answers after = [(ref_clock, transition_request, Inr (200, Mutation_body m))] \<and> \<not> mr_replayed m \<and>
     pc_tenant_id (mr_case m) = 1"
proof -
  obtain history s' m where play: "play ref_deps case_service socket_moves = Some (history, s')" and
    at: "length history = 9" "snd (history ! 5) = Answers 0 ref_clock (Socket_request sample_query ref_headers)
      (Inr (101, Upgraded sample_subscription))"
    and rest: "answers (drop 6 history) = [(ref_clock, transition_request, Inr (200, Mutation_body m))]"
      "\<not> mr_replayed m" "pc_tenant_id (mr_case m) = 1"
    by (simp add: socket_moves_def transition_request_def http_eval service_eval sample_defs ref_defs prog_eval)
  obtain d l where dl: "history ! 5 = (d, l)" by (cases "history ! 5")
  have "history = take 5 history @ (d, l) # drop 6 history"
    using id_take_nth_drop [of 5 history] at(1) dl by simp
  with play_runs [OF play] at(2) dl have "service_run ref_deps case_service (take 5 history @ (d, Answers 0 ref_clock
      (Socket_request sample_query ref_headers) (Inr (101, Upgraded sample_subscription))) # drop 6 history) s'"
    by (metis snd_conv)
  with rest show ?thesis by blast
qed

theorem concurrent_subscribers_see_their_tenant_witness:
  "\<exists>e t' r' result d'. fst (socket_loop (\<lambda>_. Some ''event'') sample_subscription [(Event_received e, True)]) = [Text_frame ''event''] \<and>
     te_tenant_id e = 1 \<and> published result = [e] \<and> accountable (ref_deps\<lparr>dep_clock := t'\<rparr>) r' d' e"
proof -
  obtain before d after s' m where run: "service_run ref_deps case_service
       (before @ (d, Answers 0 ref_clock (Socket_request sample_query ref_headers) (Inr (101, Upgraded sample_subscription))) # after) s'"
    and ans: "answers after = [(ref_clock, transition_request, Inr (200, Mutation_body m))]"
    and m: "\<not> mr_replayed m" "pc_tenant_id (mr_case m) = 1"
    using sample_socket by blast
  let ?log = "[Sent (event_of m), Received (event_of m)]" and ?ins = "[(Event_received (event_of m), True)]"
  have empty: "sv_flight case_service = Map.empty" by (simp add: case_service_def)
  have log: "broadcasts EVENT_CAPACITY ?log" "sent ?log = announced after" "received ?log = events_received ?ins"
    using ans m by (simp_all add: broadcasts_def announced_def)
  have frames: "fst (socket_loop (\<lambda>_. Some ''event'') sample_subscription ?ins) = [Text_frame ''event'']"
    using m by (simp add: subscription_allows_def event_of_def)
  then have "Text_frame ''event'' \<in> set (fst (socket_loop (\<lambda>_. Some ''event'') sample_subscription ?ins))" by simp
  from concurrent_subscribers_see_their_tenant [OF run empty log this] obtain e t' r' result d' where
    e: "te_tenant_id e = 1" "(t', r', result) \<in> set (answers after)" "published result = [e]"
      "accountable (ref_deps\<lparr>dep_clock := t'\<rparr>) r' d' e"
    by auto
  with ans m have "e = event_of m" by auto
  with e frames show ?thesis by blast
qed

section \<open>Termination\<close>

text \<open>Programs that are done after at most so many calls, whatever the calls return.\<close>

inductive within :: "nat \<Rightarrow> ('d, 'e, 'a) prog \<Rightarrow> bool" where
  within_done: "within n (Done r)"
| within_call: "(\<And>f d. within n (fst (c f d))) \<Longrightarrow> within (Suc n) (Call c)"

inductive_cases within_callE: "within n (Call c)"

lemma within_more: "within n p \<Longrightarrow> n \<le> k \<Longrightarrow> within k p"
proof (induction arbitrary: k rule: within.induct)
  case (within_call n c)
  then show ?case by (cases k) (auto intro: within.intros)
qed (rule within.within_done)

lemma within_then:
  assumes "within n p" and "\<And>x. within k (g x)"
  shows "within (n + k) (then_prog p g)"
  using assms(1)
proof (induction rule: within.induct)
  case (within_done n r)
  with within_more [OF assms(2), of "n + k"] show ?case by (cases r) (simp_all add: within.within_done)
next
  case (within_call n c)
  then show ?case by (auto intro!: within.within_call simp: case_prod_unfold)
qed

lemma within_map_err: "within n p \<Longrightarrow> within n (map_err_prog h p)"
  by (induction rule: within.induct) (auto intro!: within.intros)

lemma within_one: "within 1 (call q)"
  unfolding call_def One_nat_def by (intro within.within_call) (auto simp: within.within_done)

lemma within_first: "(\<And>x. within n (g x)) \<Longrightarrow> within n (then_prog (Done r) g)"
  by (cases r) (simp_all add: within.within_done)

lemma within_last: "within n p \<Longrightarrow> within n (then_prog p (\<lambda>x. Done (g x)))"
  using within_then [of n p 0 "\<lambda>x. Done (g x)"] by (simp add: within.within_done)

lemma within_pair: "(\<And>a b. within n (g a b)) \<Longrightarrow> within n (case z of (a, b) \<Rightarrow> g a b)"
  by (cases z) simp

lemmas within_rules = within_first within_last within_map_err within_pair within_one

lemma operations_within:
  "within 1 (tenant_context_prog subject tenant)" "within 1 (list_cases_prog c)" "within 1 (get_case_prog c i)"
  "within 1 (record_access_prog P c subject i now)"
  unfolding tenant_context_prog_def list_cases_prog_def get_case_prog_def record_access_prog_def
  by (intro within_rules)+

lemma gate_within: "within 1 (gate_prog D h scopes)"
  unfolding gate_prog_def by (intro within_rules operations_within)

lemma mutate_within: "within 3 (mutate_prog L P c subject key now x)"
proof -
  have "within (1 + 1) (mutation_result_prog c row)" for row
    unfolding mutation_result_prog_def by (intro within_then within_rules operations_within)
  then have "within (1 + (1 + 1)) (mutate_prog L P c subject key now x)"
    unfolding mutate_prog_def by (intro within_first within_then within_map_err within_one)
  then show ?thesis by (rule within_more) simp
qed

lemma mutation_within: "within 4 (mutation_prog D h x)"
proof -
  have "within (1 + 3) (mutation_prog D h x)"
    unfolding mutation_prog_def by (intro within_then gate_within within_rules mutate_within)
  then show ?thesis by (rule within_more) simp
qed

lemma handle_within: "within 4 (handle_prog D r)"
proof (cases r)
  case (List_request h)
  have "within (1 + 1) (handle_prog D r)"
    unfolding List_request handle_prog.simps by (intro within_then gate_within within_rules operations_within)
  then show ?thesis by (rule within_more) simp
next
  case (Get_request i h)
  have "within (1 + (1 + 1)) (handle_prog D r)"
    unfolding Get_request handle_prog.simps
    by (intro within_then within_pair gate_within within_map_err within_last operations_within)
  then show ?thesis by (rule within_more) simp
next
  case Metrics_request
  have "within 1 (handle_prog D r)" unfolding Metrics_request handle_prog.simps by (intro within_rules)
  then show ?thesis by (rule within_more) simp
next
  case (Socket_request q h)
  have "within 1 (handle_prog D r)"
    unfolding Socket_request handle_prog.simps by (intro within_rules operations_within)
  then show ?thesis by (rule within_more) simp
qed (simp_all add: within.within_done mutation_within)


text \<open>Served on its own from some point on, a request is answered after the calls it has left.\<close>

lemma within_finishes:
  assumes "within n p" and "sv_flight s i = Some (t, r, p)"
  shows "\<exists>k \<le> n. \<exists>history s' result. play D s (replicate (Suc k) (Advance i f)) = Some (history, s') \<and>
    answers history = [(t, r, result)] \<and> sv_flight s' = (sv_flight s)(i := None)"
  using assms
proof (induction arbitrary: s rule: within.induct)
  case (within_done n result)
  then show ?case by (intro exI [of _ 0]) auto
next
  case (within_call n c)
  obtain p d where c: "c f (sv_store s) = (p, d)" by (cases "c f (sv_store s)")
  let ?s = "s\<lparr>sv_store := d, sv_flight := (sv_flight s)(i \<mapsto> (t, r, p))\<rparr>"
  have "sv_flight ?s i = Some (t, r, fst (c f (sv_store s)))" and clear: "(sv_flight ?s)(i := None) = (sv_flight s)(i := None)"
    using c by simp_all
  from within_call.IH [OF this(1)] obtain k history s' result where k: "k \<le> n"
    and play: "play D ?s (replicate (Suc k) (Advance i f)) = Some (history, s')"
    and fin: "answers history = [(t, r, result)]" "sv_flight s' = (sv_flight s)(i := None)"
    unfolding clear by blast
  have "play D s (replicate (Suc (Suc k)) (Advance i f)) = Some ((sv_store s, Calls i f) # history, s')"
    using within_call.prems c play unfolding replicate_Suc [of "Suc k"] by (simp del: replicate_Suc)
  moreover have "answers ((sv_store s, Calls i f) # history) = [(t, r, result)]" using fin(1) by simp
  ultimately show ?case using k fin(2) by (intro exI [of _ "Suc k"]) blast
qed

definition calls_of :: "nat \<Rightarrow> ('d \<times> service_label) list \<Rightarrow> nat" where
  "calls_of i history = length (filter (\<lambda>(_, l). \<exists>f. l = Calls i f) history)"

definition arrivals_of :: "nat \<Rightarrow> ('d \<times> service_label) list \<Rightarrow> nat" where
  "arrivals_of i history = length (filter (\<lambda>(_, l). \<exists>t r. l = Arrives i t r) history)"

lemma service_run_calls:
  assumes "service_run D s history s'" and "sv_flight s = Map.empty"
  shows "(sv_flight s' i = None \<longrightarrow> calls_of i history \<le> 4 * arrivals_of i history) \<and>
    (\<forall>t r p. sv_flight s' i = Some (t, r, p) \<longrightarrow>
       (\<exists>n. within n p \<and> n \<le> 4 \<and> calls_of i history + n \<le> 4 * arrivals_of i history))"
  using assms
proof (induction rule: service_run.induct)
  case (stay s)
  then show ?case by (simp add: calls_of_def)
next
  case (later s history s' l s'')
  from later.hyps(2) show ?case
  proof (rule service_stepE)
    fix j t r
    assume "l = Arrives j t r" "sv_flight s' j = None"
      "s'' = s'\<lparr>sv_flight := (sv_flight s')(j \<mapsto> (t, r, handle_prog (D\<lparr>dep_clock := t\<rparr>) r))\<rparr>"
    with later handle_within [of "D\<lparr>dep_clock := t\<rparr>" r] show ?thesis
      by (cases "j = i") (auto simp: calls_of_def arrivals_of_def)
  next
    fix j t r c f p d
    assume *: "l = Calls j f" "sv_flight s' j = Some (t, r, Call c)" "c f (sv_store s') = (p, d)"
      "s'' = s'\<lparr>sv_store := d, sv_flight := (sv_flight s')(j \<mapsto> (t, r, p))\<rparr>"
    show ?thesis
    proof (cases "j = i")
      case True
      with * later obtain n where "within n (Call c)" "n \<le> 4" "calls_of i history + n \<le> 4 * arrivals_of i history" by auto
      moreover from this obtain k where "n = Suc k" "within k (fst (c f (sv_store s')))" by (auto elim: within_callE)
      ultimately have "within k p" "k \<le> 4" "Suc (calls_of i history) + k \<le> 4 * arrivals_of i history" using * by auto
      with * True show ?thesis by (auto simp: calls_of_def arrivals_of_def)
    next
      case False
      with * later show ?thesis by (auto simp: calls_of_def arrivals_of_def)
    qed
  next
    fix j t r result
    assume "l = Answers j t r result" "sv_flight s' j = Some (t, r, Done result)"
      "s'' = s'\<lparr>sv_events := sv_events s' @ published result, sv_flight := (sv_flight s')(j := None)\<rparr>"
    with later show ?thesis by (cases "j = i") (auto simp: calls_of_def arrivals_of_def)
  qed (use later in \<open>auto simp: calls_of_def arrivals_of_def\<close>)
qed

text \<open>
  Every request ends: in any run, a slot makes at most four database calls per request that arrived in
  it, whatever the calls return; and whenever a request is in flight, serving its slot alone answers it after at
  most four more calls, whatever faults these meet, and leaves all other requests where they are.
\<close>

lemma requests_end:
  assumes "service_run D s history s'" and "sv_flight s = Map.empty"
  shows "calls_of i history \<le> 4 * arrivals_of i history \<and>
    (\<forall>t r p. sv_flight s' i = Some (t, r, p) \<longrightarrow>
       (\<exists>n \<le> 4. \<exists>later s'' result. play D s' (replicate (Suc n) (Advance i f)) = Some (later, s'') \<and>
          answers later = [(t, r, result)] \<and> sv_flight s'' = (sv_flight s')(i := None)))"
proof (intro conjI allI impI)
  show "calls_of i history \<le> 4 * arrivals_of i history"
    using service_run_calls [OF assms, of i] by (cases "sv_flight s' i") fastforce+
  fix t r p
  assume flight: "sv_flight s' i = Some (t, r, p)"
  with service_run_calls [OF assms, of i] obtain n where n: "within n p" "n \<le> 4" by blast
  from within_finishes [OF n(1) flight, of D f] n(2)
  show "\<exists>n \<le> 4. \<exists>later s'' result. play D s' (replicate (Suc n) (Advance i f)) = Some (later, s'') \<and>
      answers later = [(t, r, result)] \<and> sv_flight s'' = (sv_flight s')(i := None)"
    by (meson order_trans)
qed

end
