(* ===== verification/Announcements.thy ===== *)
theory Announcements
  imports Concurrent_Properties
begin

text \<open>
  No event is announced twice, whatever requests are in flight together and whatever other instances do, and every
  announced event is one of the append-only event table.
\<close>

section \<open>Where programs end\<close>

text \<open>Every end of the program satisfies the condition, together with the database its last call left.\<close>

inductive ends :: "('e + 'a \<Rightarrow> 'd \<Rightarrow> bool) \<Rightarrow> ('d, 'e, 'a) prog \<Rightarrow> 'd \<Rightarrow> bool" for Q where
  ends_done: "Q r d \<Longrightarrow> ends Q (Done r) d"
| ends_call: "(\<And>f e. ends Q (fst (c f e)) (snd (c f e))) \<Longrightarrow> ends Q (Call c) d"

inductive_cases ends_doneE: "ends Q (Done r) d"
inductive_cases ends_callE: "ends Q (Call c) d"

lemma ends_mono: "ends Q p d \<Longrightarrow> (\<And>r e. Q r e \<Longrightarrow> Q' r e) \<Longrightarrow> ends Q' p d"
  by (induction rule: ends.induct) (auto intro: ends.intros)

lemma ends_any: "ends (\<lambda>_ _. True) p d"
proof (induction p arbitrary: d)
  case (Call c)
  show ?case
  proof (rule ends.ends_call)
    show "ends (\<lambda>_ _. True) (fst (c f e)) (snd (c f e))" for f e
      by (rule Call [of "c f" "c f e"]) (auto intro: fsts.intros)
  qed
qed (simp add: ends.ends_done)

lemma ends_map_err: "ends (\<lambda>r. Q (map_err h r)) p d \<Longrightarrow> ends Q (map_err_prog h p) d"
  by (induction rule: ends.induct) (auto intro: ends.intros)

lemma ends_then:
  "ends (\<lambda>r e. case r of Inl x \<Rightarrow> Q (Inl x) e | Inr x \<Rightarrow> ends Q (g x) e) p d \<Longrightarrow> ends Q (then_prog p g) d"
  by (induction rule: ends.induct) (auto intro: ends.intros split: sum.splits)

lemma ends_statement: "(\<And>f e r e'. faulty_call q f e = (r, e') \<Longrightarrow> Q r e') \<Longrightarrow> ends Q (call q) d"
  unfolding call_def by (auto intro!: ends.intros simp: prod.case_eq_if)


section \<open>What a mutation announces\<close>

definition event_ids :: "'x database_scheme \<Rightarrow> uuid set" where
  "event_ids d = ev_event_id ` set (case_events d)"

text \<open>The row of the event table that an event is a copy of.\<close>

definition recorded_as :: "tenant_event \<Rightarrow> event_row \<Rightarrow> bool" where
  "recorded_as e row \<longleftrightarrow> ev_event_id row = er_event_id (te_event e) \<and> ev_tenant_id row = er_tenant_id (te_event e) \<and>
     ev_case_id row = er_case_id (te_event e) \<and> ev_case_version row = er_case_version (te_event e)"

definition announces :: "uuid \<Rightarrow> api_error + reply \<Rightarrow> 'x database_scheme \<Rightarrow> bool" where
  "announces x result d \<longleftrightarrow>
     (\<forall>e \<in> set (published result). er_event_id (te_event e) = x \<and> (\<exists>row \<in> set (case_events d). recorded_as e row))"

text \<open>
  A program that has not committed anything to announce: it ends without announcing, or a call of it commits
  an event with an id that was not in the table, which is then all it may announce.
\<close>

inductive uncommitted :: "('x database_scheme, api_error, reply) prog \<Rightarrow> bool" where
  uncommitted_done: "published result = [] \<Longrightarrow> uncommitted (Done result)"
| uncommitted_call:
    "(\<And>f d. uncommitted (fst (c f d)) \<or>
       (\<exists>x. x \<notin> event_ids d \<and> x \<in> event_ids (snd (c f d)) \<and> ends (announces x) (fst (c f d)) (snd (c f d)))) \<Longrightarrow>
     uncommitted (Call c)"

inductive_cases uncommitted_doneE: "uncommitted (Done result)"
inductive_cases uncommitted_callE: "uncommitted (Call c)"

lemma uncommitted_then:
  "ends (\<lambda>r _. \<forall>x. r = Inr x \<longrightarrow> uncommitted (g x)) p d \<Longrightarrow> uncommitted (then_prog p g)"
proof (induction rule: ends.induct)
  case (ends_done r d)
  then show ?case by (cases r) (simp_all add: uncommitted.uncommitted_done)
qed (auto intro!: uncommitted.uncommitted_call)

lemma uncommitted_after: "(\<And>x. uncommitted (g x)) \<Longrightarrow> uncommitted (then_prog p g)"
  by (rule uncommitted_then [of g p undefined]) (auto intro: ends_mono [OF ends_any])

text \<open>
  What the event table promises: a stored function that is not a replay inserts an event under an id the table did not
  have, and the id is in the table from then on.
\<close>

definition commits_fresh :: "('x database_scheme, mutation_row) stmt \<Rightarrow> bool" where
  "commits_fresh st \<longleftrightarrow>
     (\<forall>d row d'. st d = Inr (row, d') \<longrightarrow> \<not> mu_replayed row \<longrightarrow> mu_event_id row \<notin> event_ids d \<and> mu_event_id row \<in> event_ids d')"

definition events_keyed :: "'x database_scheme procs \<Rightarrow> bool" where
  "events_keyed P \<longleftrightarrow>
     (\<forall>a. commits_fresh (apme_create_case P a)) \<and> (\<forall>a. commits_fresh (apme_transition_case P a)) \<and>
     (\<forall>a. commits_fresh (apme_rotate_case_object P a))"

lemma prepare_commits_fresh: "events_keyed P \<Longrightarrow> prepare L P c subject key now x = Inr st \<Longrightarrow> commits_fresh st"
  by (cases x) (auto simp: events_keyed_def prepare_defs result_simps)

lemma mutation_result_ends:
  "ends (\<lambda>r e. \<forall>m. r = Inr m \<longrightarrow> mr_replayed m = mu_replayed row \<and> er_event_id (mr_event m) = mu_event_id row \<and>
     (\<exists>x \<in> set (case_events e). ev_event_id x = mu_event_id row \<and> ev_tenant_id x = er_tenant_id (mr_event m) \<and>
        ev_case_id x = er_case_id (mr_event m) \<and> ev_case_version x = er_case_version (mr_event m)))
     (mutation_result_prog c row) d"
  unfolding mutation_result_prog_def
proof (rule ends_then, rule ends_mono [OF ends_any], goal_cases)
  case (1 r e)
  show ?case
  proof (cases r)
    case (Inr y)
    show ?thesis unfolding Inr sum.case
    proof (rule ends_then, rule ends_map_err, rule ends_statement, goal_cases)
      case (1 f e res e')
      then have "ev \<in> set (case_events e') \<and> ev_event_id ev = mu_event_id row" if "res = Inr ev" for ev
        using that by (auto simp: faulty_call_def run_stmt_def query_def event_select_set split: sum.splits option.splits
            fault.splits dest!: fetch_one_mem)
      then show ?case by (cases res) (auto intro!: ends.ends_done)
    qed
  qed simp
qed


lemma after_statement_announces:
  assumes "\<not> mu_replayed row"
  shows "ends (announces (mu_event_id row)) (after_statement x c (Inr row)) d"
  unfolding after_statement_def outcome_def
  by (rule ends_then, rule ends_map_err)
    (auto intro!: ends_mono [OF mutation_result_ends] ends.ends_done split: sum.split
      simp: announces_def recorded_as_def event_of_def result_simps)

lemma after_statement_silent:
  assumes "\<And>row. r = Inr row \<Longrightarrow> mu_replayed row"
  shows "uncommitted (after_statement x c r)"
proof (cases r)
  case (Inl e)
  then show ?thesis by (simp add: after_statement_def outcome_def uncommitted.uncommitted_done)
next
  case (Inr row)
  then have "mu_replayed row" by (rule assms)
  then show ?thesis unfolding after_statement_def outcome_def Inr
    by (intro uncommitted_then [where d = undefined] ends_map_err)
      (auto intro!: ends_mono [OF mutation_result_ends] uncommitted.uncommitted_done simp: result_simps)
qed

lemma mutation_uncommitted:
  assumes "events_keyed (dep_procs D)"
  shows "uncommitted (mutation_prog D h x)"
  unfolding mutation_prog_def
proof (rule uncommitted_after, clarify, rule uncommitted_after, unfold mutate_prog_def)
  fix subject c key
  show "uncommitted (then_prog (map_err_prog Cases_error
      (then_prog (Done (prepare (dep_interfaces D) (dep_procs D) c subject key (dep_clock D) x))
        (\<lambda>st. then_prog (map_err_prog map_sql_error (call st)) (mutation_result_prog c))))
      (\<lambda>m. Done (Inr (success_status x m, Mutation_body m))))"
  proof (cases "prepare (dep_interfaces D) (dep_procs D) c subject key (dep_clock D) x")
    case (Inl e)
    then show ?thesis by (simp add: uncommitted.uncommitted_done)
  next
    case (Inr st)
    from prepare_commits_fresh [OF assms this] have st: "commits_fresh st" .
    have "uncommitted (Call (\<lambda>f d. map_prod (after_statement x c) id (faulty_call st f d)))"
    proof (rule uncommitted.uncommitted_call)
      fix f d
      obtain r d' where call: "faulty_call st f d = (r, d')" by (cases "faulty_call st f d")
      show "uncommitted (fst (map_prod (after_statement x c) id (faulty_call st f d))) \<or>
        (\<exists>y. y \<notin> event_ids d \<and> y \<in> event_ids (snd (map_prod (after_statement x c) id (faulty_call st f d))) \<and>
           ends (announces y) (fst (map_prod (after_statement x c) id (faulty_call st f d)))
             (snd (map_prod (after_statement x c) id (faulty_call st f d))))"
      proof (cases "\<exists>row. r = Inr row \<and> \<not> mu_replayed row")
        case True
        then obtain row where row: "r = Inr row" "\<not> mu_replayed row" by blast
        with call have "st d = Inr (row, d')"
          by (auto simp: faulty_call_def run_stmt_def split: sum.splits option.splits fault.splits prod.splits)
        with st row(2) after_statement_announces [OF row(2), of x c d'] show ?thesis
          by (auto simp: call row(1) commits_fresh_def)
      next
        case False
        then show ?thesis using after_statement_silent [of r x c] by (auto simp: call)
      qed
    qed
    then show ?thesis using mutate_call [of st c x] by (simp add: Inr)
  qed
qed

lemma silent_end: "published (Inr y) = [] \<Longrightarrow> uncommitted (Done (Inr y))"
  by (rule uncommitted.uncommitted_done)

lemma handle_uncommitted: "events_keyed (dep_procs D) \<Longrightarrow> uncommitted (handle_prog D r)"
proof (cases r)
  case (Get_request i h)
  then show ?thesis by (auto intro!: uncommitted_after silent_end simp del: then_prog.simps)
next
  case (List_request h)
  then show ?thesis by (auto intro!: uncommitted_after silent_end simp del: then_prog.simps)
next
  case (Socket_request q h)
  then show ?thesis by (auto intro!: uncommitted_after silent_end simp del: then_prog.simps)
next
  case Metrics_request
  then show ?thesis by (auto intro!: uncommitted_after silent_end simp del: then_prog.simps)
qed (simp_all add: mutation_uncommitted silent_end)


section \<open>Runs\<close>

definition keeps_events :: "'x database_scheme \<Rightarrow> 'x database_scheme \<Rightarrow> bool" where
  "keeps_events d d' \<longleftrightarrow> set (case_events d) \<subseteq> set (case_events d')"

abbreviation announced_id :: "tenant_event \<Rightarrow> uuid" where
  "announced_id e \<equiv> er_event_id (te_event e)"

text \<open>
  The invariant: what was announced is in the table, each id once; a request in flight has committed nothing, or holds
  one id that is in the table, not yet announced, and held by no other request.
\<close>

definition holds ::
  "'x database_scheme \<Rightarrow> tenant_event list \<Rightarrow> ('x database_scheme, api_error, reply) prog \<Rightarrow> uuid option \<Rightarrow> bool" where
  "holds d es p h \<longleftrightarrow>
     (case h of
        None \<Rightarrow> uncommitted p
      | Some x \<Rightarrow> x \<in> event_ids d \<and> x \<notin> announced_id ` set es \<and> (\<exists>e. ends (announces x) p e \<and> keeps_events e d))"

definition announced_once :: "'x database_scheme service \<Rightarrow> tenant_event list \<Rightarrow> (nat \<Rightarrow> uuid option) \<Rightarrow> bool" where
  "announced_once s es H \<longleftrightarrow>
     distinct (map announced_id es) \<and> (\<forall>e \<in> set es. \<exists>row \<in> set (case_events (sv_store s)). recorded_as e row) \<and>
     (\<forall>i t r p. sv_flight s i = Some (t, r, p) \<longrightarrow> holds (sv_store s) es p (H i)) \<and>
     (\<forall>i. sv_flight s i = None \<longrightarrow> H i = None) \<and> (\<forall>i j x. H i = Some x \<longrightarrow> H j = Some x \<longrightarrow> i = j)"

lemma keeps_event_ids: "keeps_events d d' \<Longrightarrow> event_ids d \<subseteq> event_ids d'"
  by (auto simp: keeps_events_def event_ids_def)

lemma keeps_events_trans: "keeps_events a b \<Longrightarrow> keeps_events b c \<Longrightarrow> keeps_events a c"
  by (auto simp: keeps_events_def)

lemma holds_later: "holds d es p h \<Longrightarrow> keeps_events d d' \<Longrightarrow> holds d' es p h"
  using keeps_event_ids [of d d'] keeps_events_trans by (cases h) (simp_all add: holds_def, blast)

lemma announced_in_table:
  "announced_once s es H \<Longrightarrow> announced_id ` set es \<subseteq> event_ids (sv_store s)"
  by (auto simp: announced_once_def event_ids_def recorded_as_def) (metis imageI)

lemma announced_onceD: "announced_once s es H \<Longrightarrow> sv_flight s i = Some (t, r, p) \<Longrightarrow> holds (sv_store s) es p (H i)"
  unfolding announced_once_def by blast

lemma held_in_table: "announced_once s es H \<Longrightarrow> H i = Some x \<Longrightarrow> x \<in> event_ids (sv_store s)"
proof (cases "sv_flight s i")
  case (Some q)
  assume once: "announced_once s es H" and x: "H i = Some x"
  obtain t r p where q: "q = (t, r, p)" by (cases q)
  from announced_onceD [OF once Some [unfolded q]] show ?thesis by (simp add: holds_def x)
qed (simp add: announced_once_def)

lemma announced_once_announce:
  assumes "announced_once s es H" and "announced_id e \<notin> announced_id ` set es" and "\<And>j. H j \<noteq> Some (announced_id e)"
    and "\<exists>row \<in> set (case_events (sv_store s)). recorded_as e row"
  shows "announced_once s (es @ [e]) H"
proof -
  have "holds (sv_store s) es p (H i) \<Longrightarrow> holds (sv_store s) (es @ [e]) p (H i)" for p i
    using assms(3) [of i] by (auto simp: holds_def split: option.splits)
  with assms show ?thesis unfolding announced_once_def by (auto 0 3)
qed

lemma announced_once_later:
  assumes "announced_once s es H" and "keeps_events (sv_store s) d"
  shows "announced_once (s\<lparr>sv_store := d\<rparr>) es H"
  using assms holds_later by (auto simp: announced_once_def keeps_events_def) blast+

lemma announced_once_flight:
  assumes "announced_once s es H" and "holds (sv_store s) es p (H i)"
  shows "announced_once (s\<lparr>sv_flight := (sv_flight s)(i \<mapsto> (t, r, p))\<rparr>) es H"
  using assms by (auto simp: announced_once_def)

lemma announced_once_commit:
  assumes "announced_once s es H" and "keeps_events (sv_store s) d" and "sv_flight s i \<noteq> None"
    and "x \<notin> event_ids (sv_store s)" and "x \<in> event_ids d" and "ends (announces x) p d"
  shows "announced_once (s\<lparr>sv_store := d, sv_flight := (sv_flight s)(i \<mapsto> (t, r, p))\<rparr>) es (H(i \<mapsto> x))"
proof -
  have "H j \<noteq> Some x" for j using held_in_table [OF assms(1)] assms(4) by blast
  moreover have "x \<notin> announced_id ` set es" using announced_in_table [OF assms(1)] assms(4) by blast
  moreover have "keeps_events d d" by (simp add: keeps_events_def)
  ultimately show ?thesis
    using announced_once_later [OF assms(1,2)] assms(3,5,6) by (auto simp: announced_once_def holds_def)
qed

text \<open>A call of the request \<open>i\<close> keeps the announcements and may commit the event of \<open>i\<close>.\<close>

lemma announced_once_call:
  assumes "announced_once s es H" and "sv_flight s i = Some (t, r, Call c)" and "c f (sv_store s) = (p, d)"
    and "keeps_events (sv_store s) d"
  shows "\<exists>H. announced_once (s\<lparr>sv_store := d, sv_flight := (sv_flight s)(i \<mapsto> (t, r, p))\<rparr>) es H"
proof -
  let ?s' = "s\<lparr>sv_store := d, sv_flight := (sv_flight s)(i \<mapsto> (t, r, p))\<rparr>"
  have stays: "holds d es p (H i) \<Longrightarrow> announced_once ?s' es H"
    using announced_once_flight [OF announced_once_later [OF assms(1,4)], of p i t r] by simp
  have now: "holds (sv_store s) es (Call c) (H i)" using announced_onceD [OF assms(1,2)] .
  show ?thesis
  proof (cases "H i")
    case None
    with now have "uncommitted (Call c)" by (simp add: holds_def)
    then consider "uncommitted p" | x where "x \<notin> event_ids (sv_store s)" "x \<in> event_ids d" "ends (announces x) p d"
      using assms(3) by (metis uncommitted_callE fst_conv snd_conv)
    then show ?thesis
    proof cases
      case 1
      with None stays show ?thesis by (auto simp: holds_def)
    next
      case 2
      with announced_once_commit [OF assms(1,4), of i _ p t r] assms(2) show ?thesis by auto
    qed
  next
    case (Some x)
    with now obtain e where "x \<in> event_ids (sv_store s)" "x \<notin> announced_id ` set es" "ends (announces x) (Call c) e"
      by (auto simp: holds_def)
    moreover from this(3) have "ends (announces x) p d" using assms(3) by (metis ends_callE fst_conv snd_conv)
    ultimately have "holds d es p (H i)"
      using Some keeps_event_ids [OF assms(4)] by (auto simp: holds_def keeps_events_def)
    with stays show ?thesis by blast
  qed
qed

text \<open>The answer of the request \<open>i\<close> announces the event that \<open>i\<close> committed, if any.\<close>

lemma announced_once_answer:
  assumes "announced_once s es H" and "sv_flight s i = Some (t, r, Done result)"
  shows "announced_once (s\<lparr>sv_events := sv_events s @ published result, sv_flight := (sv_flight s)(i := None)\<rparr>)
    (es @ published result) (H(i := None))" (is "announced_once ?s' _ _")
proof -
  have now: "holds (sv_store s) es (Done result) (H i)" using announced_onceD [OF assms] .
  have quiet: "announced_once ?s' es (H(i := None))" using assms(1) by (auto simp: announced_once_def)
  show ?thesis
  proof (cases "published result = []")
    case True
    with quiet show ?thesis by simp
  next
    case False
    with published_at_most_one [of result] obtain e where e: "published result = [e]" by blast
    with now obtain x d where x: "H i = Some x" "x \<notin> announced_id ` set es"
      and fin: "announces x result d" "keeps_events d (sv_store s)"
      by (cases "H i") (auto simp: holds_def elim!: uncommitted_doneE ends_doneE)
    from fin e have id: "announced_id e = x" and row: "\<exists>row \<in> set (case_events (sv_store s)). recorded_as e row"
      by (auto simp: announces_def keeps_events_def)
    have others: "H j \<noteq> Some x" if "j \<noteq> i" for j using assms(1) x(1) that by (auto simp: announced_once_def)
    have "announced_once ?s' (es @ [e]) (H(i := None))"
      using quiet x id others row by (intro announced_once_announce) auto
    with e show ?thesis by simp
  qed
qed

lemma announced_once_step:
  assumes "events_keyed (dep_procs D)" and "announced_once s (announced history) H" and "service_step D s l s'"
    and "keeps_events (sv_store s) (sv_store s')"
  shows "\<exists>H. announced_once s' (announced (history @ [(sv_store s, l)])) H"
  using assms(3)
proof (rule service_stepE)
  fix i t r
  assume *: "l = Arrives i t r" "sv_flight s i = None"
    "s' = s\<lparr>sv_flight := (sv_flight s)(i \<mapsto> (t, r, handle_prog (D\<lparr>dep_clock := t\<rparr>) r))\<rparr>"
  have "uncommitted (handle_prog (D\<lparr>dep_clock := t\<rparr>) r)" using assms(1) by (simp add: handle_uncommitted)
  moreover from * assms(2) have "H i = None" by (simp add: announced_once_def)
  ultimately have "announced_once s' (announced history) H"
    unfolding *(3) by (intro announced_once_flight [OF assms(2)]) (simp add: holds_def)
  with * show ?thesis by (auto simp: announced_def)
next
  fix i t r c f p d
  assume "l = Calls i f" "sv_flight s i = Some (t, r, Call c)" "c f (sv_store s) = (p, d)"
    "s' = s\<lparr>sv_store := d, sv_flight := (sv_flight s)(i \<mapsto> (t, r, p))\<rparr>"
  with announced_once_call [OF assms(2), of i t r c f p d] assms(4) show ?thesis by (simp add: announced_def)
next
  fix i t r result
  assume "l = Answers i t r result" "sv_flight s i = Some (t, r, Done result)"
    "s' = s\<lparr>sv_events := sv_events s @ published result, sv_flight := (sv_flight s)(i := None)\<rparr>"
  with announced_once_answer [OF assms(2), of i t r result] show ?thesis by (auto simp: announced_def)
next
  fix d
  assume "l = Other_writes" "s' = s\<lparr>sv_store := d\<rparr>"
  with announced_once_later [OF assms(2)] assms(4) show ?thesis by (auto simp: announced_def)
qed

lemma announced_once_run:
  assumes "service_run D s history s'" and "events_keyed (dep_procs D)" and "sv_flight s = Map.empty"
    and "sorted_wrt keeps_events (map fst history @ [sv_store s'])"
  shows "\<exists>H. announced_once s' (announced history) H"
  using assms
proof (induction rule: service_run.induct)
  case (stay s)
  then show ?case by (intro exI [of _ "\<lambda>_. None"]) (simp add: announced_once_def announced_def)
next
  case (later s history s' l s'')
  then show ?case using announced_once_step [of D s' history _ l s''] by (auto simp: sorted_wrt_append)
qed

text \<open>
  C8. No event is announced twice: given that the event table is append-only and keyed by event ids, in any run of any number of requests in
  flight together, with faults and with other instances writing, the announced events have pairwise
  different ids and each is a copy of a row of the table; where the table also has at most one event per version of a case,
  no version of a case is announced twice.
\<close>

theorem events_announced_once:
  assumes "events_keyed (dep_procs D)" and "service_run D s history s'" and "sv_flight s = Map.empty"
    and "sorted_wrt keeps_events (map fst history @ [sv_store s'])"
  shows "distinct (map announced_id (announced history)) \<and>
    (\<forall>e \<in> set (announced history). \<exists>row \<in> set (case_events (sv_store s')). recorded_as e row) \<and>
    (inj_on (\<lambda>row. (ev_tenant_id row, ev_case_id row, ev_case_version row)) (set (case_events (sv_store s'))) \<longrightarrow>
       distinct (map (\<lambda>e. (er_tenant_id (te_event e), er_case_id (te_event e), er_case_version (te_event e))) (announced history)))"
proof -
  from announced_once_run [OF assms(2,1,3,4)]
  have ids: "distinct (map announced_id (announced history))"
    and rows: "\<forall>e \<in> set (announced history). \<exists>row \<in> set (case_events (sv_store s')). recorded_as e row"
    by (auto simp: announced_once_def)
  have "distinct (map (\<lambda>e. (er_tenant_id (te_event e), er_case_id (te_event e), er_case_version (te_event e))) (announced history))"
    if inj: "inj_on (\<lambda>row. (ev_tenant_id row, ev_case_id row, ev_case_version row)) (set (case_events (sv_store s')))"
  proof -
    have "inj_on (\<lambda>e. (er_tenant_id (te_event e), er_case_id (te_event e), er_case_version (te_event e))) (set (announced history))"
    proof (rule inj_onI)
      fix e e'
      assume e: "e \<in> set (announced history)" "e' \<in> set (announced history)" and same:
        "(er_tenant_id (te_event e), er_case_id (te_event e), er_case_version (te_event e)) =
         (er_tenant_id (te_event e'), er_case_id (te_event e'), er_case_version (te_event e'))"
      from e rows obtain row row' where rs: "row \<in> set (case_events (sv_store s'))" "row' \<in> set (case_events (sv_store s'))"
        "recorded_as e row" "recorded_as e' row'" by blast
      with same have "row = row'" by (intro inj_onD [OF inj]) (simp_all add: recorded_as_def)
      with rs have "announced_id e = announced_id e'" by (simp add: recorded_as_def)
      with e ids show "e = e'" by (auto simp: distinct_map dest: inj_onD)
    qed
    with ids show ?thesis by (simp add: distinct_map)
  qed
  with ids rows show ?thesis by blast
qed


text \<open>The reference store with a key on event ids, and two transitions of different keys that race for one version.\<close>

definition keyed :: "('x database_scheme, mutation_row) stmt \<Rightarrow> ('x database_scheme, mutation_row) stmt" where
  "keyed st d =
     (case st d of
        Inl e \<Rightarrow> Inl e
      | Inr (row, d') \<Rightarrow>
          if \<not> mu_replayed row \<and> (mu_event_id row \<in> event_ids d \<or> mu_event_id row \<notin> event_ids d')
          then Inl (Database_error ''duplicate key'') else Inr (row, d'))"

definition keyed_procs :: "ledger_database procs" where
  "keyed_procs = ref_procs
     \<lparr>apme_create_case := \<lambda>a. keyed (ref_create a), apme_transition_case := \<lambda>a. keyed (ref_transition a),
      apme_rotate_case_object := \<lambda>a. keyed (ref_rotate a)\<rparr>"

definition keyed_deps :: "ledger_database deps" where
  "keyed_deps = ref_deps\<lparr>dep_procs := keyed_procs\<rparr>"

lemma keyed_commits_fresh: "commits_fresh (keyed st)"
  by (auto simp: commits_fresh_def keyed_def split: sum.splits prod.splits if_splits)

lemma keyed_events_keyed: "events_keyed (dep_procs keyed_deps)"
  by (simp add: events_keyed_def keyed_deps_def keyed_procs_def keyed_commits_fresh)

definition rival_request :: request where
  "rival_request = Transition_request 1 (ref_headers(''idempotency-key'' \<mapsto> ''k3'')) transition_command"

definition rival_moves :: "ledger_database move list" where
  "rival_moves =
     [Arrive 0 ref_clock transition_request, Arrive 1 ref_clock rival_request, Advance 0 None, Advance 1 None,
      Advance 1 None, Advance 0 None, Advance 0 None, Advance 1 None, Advance 1 None, Advance 1 None]"

lemma sample_rivals:
  "\<exists>history s' m. play keyed_deps case_service rival_moves = Some (history, s') \<and>
     answers history =
       [(ref_clock, transition_request, Inl (Cases_error StaleVersion)), (ref_clock, rival_request, Inr (200, Mutation_body m))] \<and>
     \<not> mr_replayed m \<and> sorted_wrt keeps_events (map fst history @ [sv_store s'])"
  by (simp add: rival_moves_def transition_request_def rival_request_def keyed_deps_def keyed_procs_def keyed_def
      keeps_events_def event_ids_def map_sql_error_def database_message_def http_eval service_eval sample_defs ref_defs prog_eval)


theorem events_announced_once_witness:
  "\<exists>history s' e. service_run keyed_deps case_service history s' \<and> announced history = [e] \<and>
     (\<exists>row \<in> set (case_events (sv_store s')). recorded_as e row) \<and>
     (ref_clock, transition_request, Inl (Cases_error StaleVersion)) \<in> set (answers history)"
proof -
  obtain history s' m where play: "play keyed_deps case_service rival_moves = Some (history, s')"
    and ans: "answers history =
       [(ref_clock, transition_request, Inl (Cases_error StaleVersion)), (ref_clock, rival_request, Inr (200, Mutation_body m))]"
    and m: "\<not> mr_replayed m" and kept: "sorted_wrt keeps_events (map fst history @ [sv_store s'])"
    using sample_rivals by blast
  have "sv_flight case_service = Map.empty" by (simp add: case_service_def)
  from events_announced_once [OF keyed_events_keyed play_runs [OF play] this kept] ans m play_runs [OF play] show ?thesis
    by (intro exI [of _ history] exI [of _ s'] exI [of _ "event_of m"]) (simp add: announced_def)
qed

section \<open>Reading back after the statement\<close>

text \<open>
  The case of an answer is read after the stored function has committed, in a call of its own: when another mutation of the case commits
  in between, the fresh answer shows the case in a later version than its event.
\<close>

definition second_request :: request where
  "second_request = Transition_request 1 (ref_headers(''idempotency-key'' \<mapsto> ''k3''))
     \<lparr>tc_expected_version = 2, tc_to_status = CollectingDocuments\<rparr>"

definition overtaking_moves :: "ledger_database move list" where
  "overtaking_moves =
     [Arrive 0 ref_clock transition_request, Advance 0 None, Advance 0 None,
      Arrive 1 ref_clock second_request, Advance 1 None, Advance 1 None,
      Advance 0 None, Advance 0 None, Advance 0 None]"

lemma answer_overtaken:
  "\<exists>history s' m. play keyed_deps case_service overtaking_moves = Some (history, s') \<and>
     answers history = [(ref_clock, transition_request, Inr (200, Mutation_body m))] \<and> \<not> mr_replayed m \<and>
     er_case_version (mr_event m) = 2 \<and> pc_version (mr_case m) = 3"
  by (simp add: overtaking_moves_def transition_request_def second_request_def keyed_deps_def keyed_procs_def keyed_def
      keeps_events_def event_ids_def map_sql_error_def database_message_def http_eval service_eval sample_defs ref_defs prog_eval)

end
