(* ===== verification/Concurrent_Writes.thy ===== *)
theory Concurrent_Writes
  imports Announcements Writes
begin

text \<open>
  Who writes, under concurrency: every call of a request in flight leaves the database alone or is the one stored function of its
  endpoint, in the name of a caller that was admitted by a database the request has seen.
\<close>

section \<open>Programs whose calls are lawful\<close>

text \<open>Every call of the program leaves the database alone or changes it within a relation, whatever the calls return.\<close>

inductive lawful :: "('d \<Rightarrow> 'd \<Rightarrow> bool) \<Rightarrow> ('d, 'e, 'a) prog \<Rightarrow> bool" for R where
  lawful_done: "lawful R (Done r)"
| lawful_call: "(\<And>f d. lawful R (fst (c f d))) \<Longrightarrow> (\<And>f d. snd (c f d) = d \<or> R d (snd (c f d))) \<Longrightarrow> lawful R (Call c)"

inductive_cases lawful_callE: "lawful R (Call c)"

lemma lawful_then:
  "lawful R p \<Longrightarrow> ends (\<lambda>r _. \<forall>x. r = Inr x \<longrightarrow> lawful R (g x)) p d \<Longrightarrow> lawful R (then_prog p g)"
proof (induction arbitrary: d rule: lawful.induct)
  case (lawful_done r)
  then show ?case by (cases r) (auto elim: ends_doneE intro: lawful.lawful_done)
next
  case (lawful_call c)
  from lawful_call.prems have "ends (\<lambda>r _. \<forall>x. r = Inr x \<longrightarrow> lawful R (g x)) (fst (c f e)) (snd (c f e))" for f e
    by (auto elim: ends_callE)
  with lawful_call.IH lawful_call.hyps show ?case unfolding then_prog.simps by (intro lawful.lawful_call) (auto, blast+)
qed

lemma lawful_after: "lawful R p \<Longrightarrow> (\<And>x. lawful R (g x)) \<Longrightarrow> lawful R (then_prog p g)"
  by (rule lawful_then [of R p g undefined]) (auto intro: ends_mono [OF ends_any])

lemma lawful_map_err: "lawful R p \<Longrightarrow> lawful R (map_err_prog h p)"
proof (induction rule: lawful.induct)
  case (lawful_call c)
  then show ?case unfolding map_err_prog.simps by (intro lawful.lawful_call) simp_all
qed (simp add: lawful.lawful_done)

lemma lawful_statement: "(\<And>d x d'. st d = Inr (x, d') \<Longrightarrow> R d d') \<Longrightarrow> lawful R (call st)"
  unfolding call_def
  by (rule lawful.lawful_call)
    (auto simp: faulty_call_def run_stmt_def intro: lawful.lawful_done split: sum.splits option.splits fault.splits)

lemma lawful_query: "lawful R (call (query q))"
  unfolding call_def
  by (rule lawful.lawful_call)
    (auto simp: faulty_call_def run_stmt_def query_def intro: lawful.lawful_done split: sum.splits option.splits fault.splits)

lemmas lawful_rules = lawful_after lawful_map_err lawful_query lawful.lawful_done

lemma mutation_result_lawful: "lawful R (mutation_result_prog c row)"
  unfolding mutation_result_prog_def get_case_prog_def by (intro lawful_rules)

section \<open>Programs of one query\<close>

text \<open>A program that is one query returns what its action returns on the database the query meets.\<close>

definition only_query :: "('d, 'e, 'a) prog \<Rightarrow> bool" where
  "only_query p \<longleftrightarrow> p = Call (\<lambda>f d. (Done (fst (run_prog p \<lparr>store = d, agenda = [(id, f)]\<rparr>)), d))"

lemma only_queryI: "p = Call (\<lambda>f d. (Done (res f d), d)) \<Longrightarrow> only_query p"
  unfolding only_query_def by simp

lemma query_call: "call (query q) = Call (\<lambda>f d. (Done (fst (faulty_call (query q) f d)), d))"
  by (auto simp: call_def fun_eq_iff faulty_call_def run_stmt_def query_def split: sum.splits option.splits fault.splits)

lemma only_query_then:
  "only_query (then_prog (map_err_prog h (call (query q))) (\<lambda>x. Done (g x)))"
  unfolding query_call
  by (rule only_queryI [where res = "\<lambda>f d. and_then (map_err h (fst (faulty_call (query q) f d))) g"])
    (auto simp: fun_eq_iff split: sum.split)

lemma only_query_more:
  assumes "only_query p"
  shows "only_query (then_prog (map_err_prog h p) (\<lambda>x. Done (g x)))"
  by (subst assms [unfolded only_query_def], rule only_queryI [where res = "\<lambda>f d. and_then (map_err h
      (fst (run_prog p \<lparr>store = d, agenda = [(id, f)]\<rparr>))) g"]) (auto simp: fun_eq_iff split: sum.split)

lemma only_query_ends:
  assumes "only_query p" and "\<And>w r w'. run_prog p w = (r, w') \<Longrightarrow> Q r (presented w)"
  shows "ends Q p d"
proof -
  have "Q (fst (run_prog p \<lparr>store = e, agenda = [(id, f)]\<rparr>)) e" for f e
    using assms(2) [OF prod.collapse [symmetric], of "\<lparr>store = e, agenda = [(id, f)]\<rparr>"] by (simp add: presented_def)
  then show ?thesis
    by (subst assms(1) [unfolded only_query_def]) (auto intro!: ends.intros)
qed


section \<open>Requests are governed by their gate\<close>

text \<open>
  A program that has not passed its gate only reads, until a call reads a database that admits a caller; from then on every
  call is lawful for that caller.
\<close>

inductive governed ::
  "'x database_scheme deps \<Rightarrow> request \<Rightarrow> ('x database_scheme, api_error, reply) prog \<Rightarrow> bool" for D r where
  governed_done: "governed D r (Done result)"
| governed_call:
    "(\<And>f d. snd (c f d) = d) \<Longrightarrow>
     (\<And>f d. governed D r (fst (c f d)) \<or>
        (\<exists>subject k. admitted D (headers_of r) (needed_scopes r) d subject k \<and> lawful (issues D r subject k) (fst (c f d)))) \<Longrightarrow>
     governed D r (Call c)"

inductive_cases governed_callE: "governed D r (Call c)"

lemma reading_governed: "lawful (\<lambda>_ _. False) p \<Longrightarrow> governed D r p"
  by (induction rule: lawful.induct) (auto intro!: governed.intros)

lemma gate_shape:
  "(\<exists>e. gate_prog D h scopes = Done (Inl e)) \<or> only_query (gate_prog D h scopes)"
proof (cases "authenticate_with_scopes (dep_auth D) (dep_authority D) (dep_http D) (dep_clock D) h scopes")
  case (Inl e)
  then show ?thesis by (simp add: gate_prog_def)
next
  case (Inr subject)
  show ?thesis
  proof (cases "tenant_id D h")
    case (Inl e)
    with Inr show ?thesis by (simp add: gate_prog_def)
  next
    case tenant: (Inr t)
    with Inr show ?thesis
      by (auto simp: gate_prog_def tenant_context_prog_def intro!: only_query_more only_query_then)
  qed
qed

lemma gated_governed:
  fixes D :: "'x database_scheme deps"
  assumes "\<And>subject k. lawful (issues D r subject k) (g (subject, k))"
  shows "governed D r (then_prog (gate_prog D (headers_of r) (needed_scopes r)) g)"
proof -
  let ?p = "gate_prog D (headers_of r) (needed_scopes r)"
  consider e where "?p = Done (Inl e)" | "only_query ?p" using gate_shape by blast
  then show ?thesis
  proof cases
    case 1
    then show ?thesis by (simp add: governed.governed_done)
  next
    case 2
    show ?thesis
    proof (subst 2 [unfolded only_query_def], unfold then_prog.simps, rule governed.governed_call)
      fix f and d :: "'x database_scheme"
      let ?w = "\<lparr>store = d, agenda = [(id, f)]\<rparr>"
      obtain q w where run: "authorized_tenant_with_scopes D (headers_of r) (needed_scopes r) ?w = (q, w)"
        by (cases "authorized_tenant_with_scopes D (headers_of r) (needed_scopes r) ?w")
      let ?next = "fst (map_prod (\<lambda>p. then_prog p g) id (Done (fst (run_prog ?p ?w)), d))"
      show "governed D r ?next \<or>
        (\<exists>subject k. admitted D (headers_of r) (needed_scopes r) d subject k \<and> lawful (issues D r subject k) ?next)"
      proof (cases q)
        case (Inl e)
        with run show ?thesis by (simp add: gate_runs governed.governed_done)
      next
        case (Inr x)
        obtain subject k where x: "x = (subject, k)" by (cases x)
        have "admitted D (headers_of r) (needed_scopes r) (presented ?w) subject k"
          using header_gate.admits [of D "(headers_of r, needed_scopes r)" ?w subject k w] run Inr x
          by (auto simp: admitted_def wanted_tenant_def split: sum.splits)
        with run Inr x assms [of subject k] show ?thesis by (auto simp: gate_runs presented_def)
      qed
    qed simp
  qed
qed

lemma mutate_lawful:
  assumes "mutation_of r = Some x"
  shows "lawful (issues D r subject k) (mutate_prog (dep_interfaces D) (dep_procs D) k subject key (dep_clock D) x)"
  unfolding mutate_prog_def
proof (cases "prepare (dep_interfaces D) (dep_procs D) k subject key (dep_clock D) x")
  case (Inr st)
  show "lawful (issues D r subject k) (then_prog (Done (prepare (dep_interfaces D) (dep_procs D) k subject key (dep_clock D) x))
      (\<lambda>st. then_prog (map_err_prog map_sql_error (call st)) (mutation_result_prog k)))"
    unfolding Inr then_prog.simps sum.case
    by (intro lawful_after lawful_map_err lawful_statement mutation_result_lawful mutation_issues [OF assms Inr])
qed (simp add: lawful.lawful_done)

lemma mutation_governed:
  assumes "mutation_of r = Some x"
  shows "governed D r (handle_prog D r)"
proof -
  have scopes: "needed_scopes r = [CASES_WRITE_SCOPE]"
    using writes_iff [of r] assms by (simp add: needed_scopes_def)
  have "lawful (issues D r subject k) (then_prog (Done (idempotency_key D (headers_of r))) (\<lambda>key.
      then_prog (map_err_prog Cases_error (mutate_prog (dep_interfaces D) (dep_procs D) k subject key (dep_clock D) x))
        (\<lambda>m. Done (Inr (success_status x m, Mutation_body m)))))" for subject k
    by (intro lawful_rules mutate_lawful [OF assms])
  from gated_governed [of D r "\<lambda>(subject, k). _ subject k", simplified, OF this]
  have "governed D r (mutation_prog D (headers_of r) x)" unfolding mutation_prog_def scopes by simp
  moreover have "handle_prog D r = mutation_prog D (headers_of r) x" using assms by (cases r) auto
  ultimately show ?thesis by simp
qed

lemma get_case_ends: "ends (\<lambda>q _. \<forall>x. q = Inr x \<longrightarrow> pc_id x = i) (get_case_prog k i) d"
  by (rule only_query_ends)
    (auto simp: get_case_prog_def service_runs(3) [unfolded get_case_prog_def] intro!: only_query_then dest: get_case_Inr)

lemma get_governed: "governed D (Get_request i h) (handle_prog D (Get_request i h))"
proof -
  let ?r = "Get_request i h"
  have audit: "lawful (issues D ?r subject k) (map_err_prog Cases_error (record_access_prog (dep_procs D) k subject i (dep_clock D)))"
    for subject k
    unfolding record_access_prog_def by (intro lawful_map_err lawful_statement) (simp add: issues_def)
  have "lawful (issues D ?r subject k)
      (then_prog (map_err_prog Cases_error (get_case_prog k i)) (\<lambda>x.
       then_prog (map_err_prog Cases_error (record_access_prog (dep_procs D) k subject (pc_id x) (dep_clock D)))
         (\<lambda>_. Done (Inr (200, Case_body x)))))" for subject k
  proof (rule lawful_then)
    show "lawful (issues D ?r subject k) (map_err_prog Cases_error (get_case_prog k i))"
      unfolding get_case_prog_def by (intro lawful_rules)
    show "ends (\<lambda>q _. \<forall>x. q = Inr x \<longrightarrow> lawful (issues D ?r subject k)
        (then_prog (map_err_prog Cases_error (record_access_prog (dep_procs D) k subject (pc_id x) (dep_clock D)))
         (\<lambda>_. Done (Inr (200, Case_body x))))) (map_err_prog Cases_error (get_case_prog k i)) undefined"
      by (rule ends_map_err, rule ends_mono [OF get_case_ends]) (auto simp: result_simps intro!: lawful_after audit lawful.lawful_done)
  qed
  from gated_governed [of D ?r "\<lambda>(subject, k). _ subject k", simplified, OF this] show ?thesis
    by (simp add: needed_scopes_def writes_def)
qed

lemma list_governed: "governed D (List_request h) (handle_prog D (List_request h))"
proof -
  have "lawful (issues D (List_request h) subject k)
      (then_prog (map_err_prog Cases_error (list_cases_prog k)) (\<lambda>cs. Done (Inr (200, Cases_body cs))))" for subject k
    unfolding list_cases_prog_def by (intro lawful_rules)
  from gated_governed [of D "List_request h" "\<lambda>(subject, k). _ subject k", simplified, OF this] show ?thesis
    by (simp add: needed_scopes_def writes_def)
qed

lemma plain_governed: "mutation_of r = None \<Longrightarrow> governed D r (handle_prog D r)"
proof (cases r)
  case (Socket_request q h)
  show ?thesis unfolding Socket_request handle_prog.simps tenant_context_prog_def
    by (intro reading_governed lawful_rules)
next
  case Metrics_request
  show ?thesis unfolding Metrics_request handle_prog.simps by (intro reading_governed lawful_rules)
qed (use get_governed list_governed in \<open>auto intro: governed.governed_done\<close>)

lemma handle_governed: "governed D r (handle_prog D r)"
  using mutation_governed plain_governed by (cases "mutation_of r") auto


section \<open>Writes of a run\<close>

definition obeys ::
  "'x database_scheme set \<Rightarrow> 'x database_scheme deps \<Rightarrow> request \<Rightarrow> ('x database_scheme, api_error, reply) prog \<Rightarrow> bool" where
  "obeys ds D r p \<longleftrightarrow> governed D r p \<or>
     (\<exists>d \<in> ds. \<exists>subject k. admitted D (headers_of r) (needed_scopes r) d subject k \<and> lawful (issues D r subject k) p)"

lemma obeys_call:
  assumes "obeys ds D r (Call c)" and "c f e = (p, d')"
  shows "obeys (insert e ds) D r p \<and>
    (d' = e \<or> (\<exists>d \<in> ds. \<exists>subject k. admitted D (headers_of r) (needed_scopes r) d subject k \<and> issues D r subject k e d'))"
proof -
  from assms(1) consider "governed D r (Call c)"
    | d subject k where "d \<in> ds" "admitted D (headers_of r) (needed_scopes r) d subject k" "lawful (issues D r subject k) (Call c)"
    by (auto simp: obeys_def)
  then show ?thesis
  proof cases
    case 1
    then have "snd (c f e) = e \<and> (governed D r (fst (c f e)) \<or>
        (\<exists>subject k. admitted D (headers_of r) (needed_scopes r) e subject k \<and> lawful (issues D r subject k) (fst (c f e))))"
      by (rule governed_callE) simp
    with assms(2) show ?thesis by (auto simp: obeys_def)
  next
    case 2
    from 2(3) have "lawful (issues D r subject k) (fst (c f e)) \<and> (snd (c f e) = e \<or> issues D r subject k e (snd (c f e)))"
      by (rule lawful_callE) simp
    with assms(2) 2(1,2) show ?thesis by (auto simp: obeys_def)
  qed
qed

lemma service_run_obeys:
  assumes "service_run D s history s'" and "sv_flight s = Map.empty" and "sv_flight s' i = Some (t, r, p)"
  shows "obeys (seen history) (D\<lparr>dep_clock := t\<rparr>) r p"
  using assms
proof (induction arbitrary: i t r p rule: service_run.induct)
  case (later s history s' l s'')
  have wider: "obeys (seen history) E r p \<Longrightarrow> obeys (insert (sv_store s') (seen history)) E r p" for E r p
    by (auto simp: obeys_def)
  from later.hyps(2) show ?case
  proof (rule service_stepE)
    fix j u q
    assume "s'' = s'\<lparr>sv_flight := (sv_flight s')(j \<mapsto> (u, q, handle_prog (D\<lparr>dep_clock := u\<rparr>) q))\<rparr>"
    with later.prems later.IH [OF later.prems(1), of i t r p] wider show ?thesis
      by (cases "i = j") (auto simp: obeys_def handle_governed)
  next
    fix j u q c f p' d
    assume *: "sv_flight s' j = Some (u, q, Call c)" "c f (sv_store s') = (p', d)"
      "s'' = s'\<lparr>sv_store := d, sv_flight := (sv_flight s')(j \<mapsto> (u, q, p'))\<rparr>"
    show ?thesis
    proof (cases "i = j")
      case True
      with obeys_call [OF later.IH [OF later.prems(1) *(1)] *(2)] * later.prems(2) show ?thesis by simp
    next
      case False
      with * later.prems later.IH [OF later.prems(1), of i t r p] wider show ?thesis by simp
    qed
  next
    fix j u q result
    assume "s'' = s'\<lparr>sv_events := sv_events s' @ published result, sv_flight := (sv_flight s')(j := None)\<rparr>"
    with later.prems later.IH [OF later.prems(1), of i t r p] wider show ?thesis by (cases "i = j") simp_all
  qed (use later.prems later.IH [OF later.prems(1), of i t r p] wider in simp_all)
qed simp

text \<open>
  Every single write is accounted, under concurrency: whatever requests are in flight together and whatever else writes, a step of
  the service that changes the database is one call of one request in flight; it runs the stored function of that request's endpoint
  for the tenant in its header and in the name of the caller, and a database that the service had gone through
  grants and admits that caller with a role that permits the operation.
\<close>

lemma concurrent_writes_accounted:
  assumes "service_run D s history s'" and "sv_flight s = Map.empty"
    and "service_step D s' l s''" and "l \<noteq> Other_writes" and "sv_store s'' \<noteq> sv_store s'"
  shows "\<exists>i f t r p subject k. l = Calls i f \<and> sv_flight s' i = Some (t, r, p) \<and>
    (\<exists>d \<in> seen history. admitted (D\<lparr>dep_clock := t\<rparr>) (headers_of r) (needed_scopes r) d subject k) \<and>
    issues (D\<lparr>dep_clock := t\<rparr>) r subject k (sv_store s') (sv_store s'')"
  using assms(3)
proof (rule service_stepE)
  fix i t r c f p d
  assume *: "l = Calls i f" "sv_flight s' i = Some (t, r, Call c)" "c f (sv_store s') = (p, d)"
    "s'' = s'\<lparr>sv_store := d, sv_flight := (sv_flight s')(i \<mapsto> (t, r, p))\<rparr>"
  from obeys_call [OF service_run_obeys [OF assms(1,2) *(2)] *(3)] * assms(5) show ?thesis by auto
qed (use assms(4,5) in simp_all)

end
