(* ===== verification/Live_Process.thy ===== *)
theory Live_Process
  imports Process Concurrent_Writes
begin

text \<open>
  The running process call by call: REST requests and frames in flight together, each making its database calls one at a time
  between those of the others, with the listener, the worker and the shutdown of \<open>Process\<close> around them. A frame is read on a
  connection that is being served and occupies it until its answer is sent; a REST request occupies a slot of its own.
\<close>

section \<open>Frames as programs\<close>

text \<open>Going on with the result of a program, whether it failed or not.\<close>

primrec settle_prog :: "('d, 'e, 'a) prog \<Rightarrow> ('e + 'a \<Rightarrow> ('d, 'h, 'b) prog) \<Rightarrow> ('d, 'h, 'b) prog" where
  "settle_prog (Done r) g = g r"
| "settle_prog (Call c) g = Call (\<lambda>f d. map_prod (\<lambda>p. settle_prog p g) id (c f d))"

lemma run_settle [prog_runs]:
  "run_prog (settle_prog p g) = (\<lambda>w. case run_prog p w of (r, w') \<Rightarrow> run_prog (g r) w')"
proof (induction p)
  case (Call c)
  show ?case unfolding settle_prog.simps
  proof (rule then_calls)
    show "run_prog (settle_prog p g) = (\<lambda>w. case run_prog p w of (r, w') \<Rightarrow> run_prog (g r) w')" if "c f d = (p, e)" for f d p e
      by (rule Call [of "c f" "(p, e)"]) (simp, metis that rangeI, simp)
  qed (auto split: list.splits prod.splits)
qed (simp add: fun_eq_iff)

definition authorize_token_prog ::
  "'x database_scheme deps \<Rightarrow> string \<Rightarrow> uuid \<Rightarrow> string list \<Rightarrow>
     ('x database_scheme, api_error, verified_subject \<times> tenant_context) prog" where
  "authorize_token_prog D token tenant required_scopes =
     then_prog (Done (ensure (\<not> token_refused token) (Authentication Unauthorized))) (\<lambda>_.
     then_prog (Done (ok_or (Authentication Unauthorized) (header_from_str (dep_http D) (''Bearer '' @ token))))
       (\<lambda>authorization.
     then_prog
       (Done (map_err Authentication
         (authenticate_with_scopes (dep_auth D) (dep_authority D) (dep_http D) (dep_clock D)
           [''authorization'' \<mapsto> authorization] required_scopes)))
       (\<lambda>subject.
     then_prog (map_err_prog Cases_error (tenant_context_prog subject tenant)) (\<lambda>context.
     Done (Inr (subject, context))))))"

definition execute_prog ::
  "wire \<Rightarrow> 'x database_scheme deps \<Rightarrow> bytes \<Rightarrow> ('x database_scheme, unit, bytes) prog" where
  "execute_prog W D frame =
     (case parse_request W frame of
        None \<Rightarrow> Done (Inr (encode_failure W 0 ''invalid_request''))
      | Some request \<Rightarrow>
          settle_prog
            (authorize_token_prog D (fr_bearer_token request) (fr_tenant_id request) [CASES_READ_SCOPE])
            (\<lambda>authorized. case authorized of
               Inl error \<Rightarrow> Done (Inr (encode_failure W (fr_request_id request) (api_error_code error)))
             | Inr (_, context) \<Rightarrow>
                 (case fr_operation request of
                    ListCases \<Rightarrow>
                      settle_prog (list_cases_prog context) (\<lambda>listed. case listed of
                        Inl _ \<Rightarrow> Done (Inr (encode_failure W (fr_request_id request) ''temporarily_unavailable''))
                      | Inr cs \<Rightarrow>
                          (case filter_opt (\<lambda>value. length value \<le> MAX_RESPONSE_BYTES)
                                  (print_response W (ok_response request cs)) of
                             Some value \<Rightarrow> Done (Inr value)
                           | None \<Rightarrow> Done (Inr (encode_failure W (fr_request_id request) ''response_too_large'')))))))"

lemma authorize_token_runs [prog_runs]:
  "run_prog (authorize_token_prog D token tenant scopes) = authorize_token D token tenant scopes"
  by (simp add: authorize_token_prog_def authorize_token_def prog_runs del: prog_opaque)

lemma execute_runs: "run_prog (execute_prog W D frame) w = apfst Inr (execute W D frame w)"
  by (auto simp: execute_prog_def execute_def prog_runs simp del: prog_opaque settle_prog.simps
      split: option.splits prod.splits sum.splits operation.splits)


section \<open>Model\<close>

record 'd live =
  lv_service :: "'d service"
  lv_frames :: "nat \<rightharpoonup> int \<times> bytes \<times> ('d, unit, bytes) prog"
  lv_http :: http_phase
  lv_signalled :: bool
  lv_tcp :: "tcp_server option"
  lv_nats :: "worker_input list option"

abbreviation lv_store :: "'d live \<Rightarrow> 'd" where
  "lv_store s \<equiv> sv_store (lv_service s)"

abbreviation lv_flight :: "'d live \<Rightarrow> nat \<rightharpoonup> 'd flight" where
  "lv_flight s \<equiv> sv_flight (lv_service s)"

datatype live_label =
    Rest service_label
  | Frame_read nat int bytes
  | Frame_called nat "fault option"
  | Frame_sent nat int bytes bytes
  | Tcp_took tcp_event
  | Nats_took worker_input
  | Interrupt
  | Tcp_heard
  | Nats_heard
  | Ended

fun is_arrival :: "service_label \<Rightarrow> bool" where
  "is_arrival (Arrives _ _ _) \<longleftrightarrow> True"
| "is_arrival _ \<longleftrightarrow> False"

text \<open>The connection an event of the listener is about; while it executes a frame its task has no other event.\<close>

fun tcp_task :: "tcp_event \<Rightarrow> nat option" where
  "tcp_task (Handshake_ended c _) = Some c"
| "tcp_task (Serving_ended c) = Some c"
| "tcp_task _ = None"

definition idle :: "'d live \<Rightarrow> tcp_event \<Rightarrow> bool" where
  "idle s e \<longleftrightarrow> (case tcp_task e of None \<Rightarrow> True | Some c \<Rightarrow> lv_frames s c = None)"

inductive live_step ::
  "wire \<Rightarrow> status_wire \<Rightarrow> bool \<Rightarrow> 'x database_scheme deps \<Rightarrow> 'x database_scheme live \<Rightarrow> live_label \<Rightarrow>
     'x database_scheme live \<Rightarrow> bool" for W V starts D where
  rest: "lv_http s \<noteq> Stopped \<Longrightarrow> (is_arrival l \<Longrightarrow> lv_http s = Accepting) \<Longrightarrow> service_step D (lv_service s) l v \<Longrightarrow>
     live_step W V starts D s (Rest l) (s\<lparr>lv_service := v\<rparr>)"
| frame_read: "lv_http s \<noteq> Stopped \<Longrightarrow> lv_tcp s = Some server \<Longrightarrow> (c, Serving) \<in> set (tasks server) \<Longrightarrow>
     lv_frames s c = None \<Longrightarrow>
     live_step W V starts D s (Frame_read c t raw)
       (s\<lparr>lv_frames := (lv_frames s)(c \<mapsto> (t, raw, execute_prog W (D\<lparr>dep_clock := t\<rparr>) raw))\<rparr>)"
| frame_called: "lv_http s \<noteq> Stopped \<Longrightarrow> lv_frames s c = Some (t, raw, Call k) \<Longrightarrow> k f (lv_store s) = (p, d) \<Longrightarrow>
     live_step W V starts D s (Frame_called c f)
       (s\<lparr>lv_service := (lv_service s)\<lparr>sv_store := d\<rparr>, lv_frames := (lv_frames s)(c \<mapsto> (t, raw, p))\<rparr>)"
| frame_sent: "lv_http s \<noteq> Stopped \<Longrightarrow> lv_frames s c = Some (t, raw, Done (Inr out)) \<Longrightarrow>
     live_step W V starts D s (Frame_sent c t raw out) (s\<lparr>lv_frames := (lv_frames s)(c := None)\<rparr>)"
| tcp: "lv_http s \<noteq> Stopped \<Longrightarrow> lv_tcp s = Some server \<Longrightarrow> e \<notin> {Shutdown_changed, Shutdown_channel_closed} \<Longrightarrow> idle s e \<Longrightarrow>
     live_step W V starts D s (Tcp_took e) (s\<lparr>lv_tcp := Some (serve_event server e)\<rparr>)"
| nats: "lv_http s \<noteq> Stopped \<Longrightarrow> lv_nats s = Some ins \<Longrightarrow> fst (worker_serve V starts ins) = None \<Longrightarrow>
     i \<notin> {Shutdown_signalled, Shutdown_dropped} \<Longrightarrow>
     live_step W V starts D s (Nats_took i) (s\<lparr>lv_nats := Some (ins @ [i])\<rparr>)"
| signal: "lv_http s = Accepting \<Longrightarrow>
     live_step W V starts D s Interrupt (s\<lparr>lv_http := Draining, lv_signalled := True\<rparr>)"
| tcp_heard: "lv_http s \<noteq> Stopped \<Longrightarrow> lv_signalled s \<Longrightarrow> lv_tcp s = Some server \<Longrightarrow>
     live_step W V starts D s Tcp_heard (s\<lparr>lv_tcp := Some (serve_event server Shutdown_changed)\<rparr>)"
| nats_heard: "lv_http s \<noteq> Stopped \<Longrightarrow> lv_signalled s \<Longrightarrow> lv_nats s = Some ins \<Longrightarrow> fst (worker_serve V starts ins) = None \<Longrightarrow>
     live_step W V starts D s Nats_heard (s\<lparr>lv_nats := Some (ins @ [Shutdown_signalled])\<rparr>)"
| drained: "lv_http s = Draining \<Longrightarrow> lv_flight s = Map.empty \<Longrightarrow>
     live_step W V starts D s Ended (s\<lparr>lv_http := Stopped\<rparr>)"

inductive_cases live_stepE: "live_step W V starts D s l s'"

inductive live_run ::
  "wire \<Rightarrow> status_wire \<Rightarrow> bool \<Rightarrow> 'x database_scheme deps \<Rightarrow> 'x database_scheme live \<Rightarrow>
     ('x database_scheme \<times> live_label) list \<Rightarrow> 'x database_scheme live \<Rightarrow> bool" for W V starts D where
  stay: "live_run W V starts D s [] s"
| later: "live_run W V starts D s history s' \<Longrightarrow> live_step W V starts D s' l s'' \<Longrightarrow>
     live_run W V starts D s (history @ [(lv_store s', l)]) s''"

text \<open>What startup leaves running.\<close>

definition launch_live :: "'d running \<Rightarrow> startup_effect list \<Rightarrow> 'd live" where
  "launch_live running effects =
     \<lparr>lv_service = \<lparr>sv_store = store (app_cases (run_state running)), sv_events = app_events (run_state running), sv_flight = Map.empty\<rparr>,
      lv_frames = Map.empty, lv_http = Accepting, lv_signalled = False,
      lv_tcp = fetch_optional [server_start (tcp_max_connections c). Tcp_serving c \<leftarrow> effects],
      lv_nats = fetch_optional [[]. Nats_serving c \<leftarrow> effects]\<rparr>"

section \<open>Requests and frames in flight\<close>

text \<open>
  The invariant: finitely many requests are in flight, each request and frame in flight was reached from its start over
  databases of the run, and frames are executed for connections that are served.
\<close>

definition frames_reached :: "wire \<Rightarrow> 'x database_scheme set \<Rightarrow> 'x database_scheme deps \<Rightarrow> 'x database_scheme live \<Rightarrow> bool" where
  "frames_reached W ds D s \<longleftrightarrow>
     (\<forall>c t raw p. lv_frames s c = Some (t, raw, p) \<longrightarrow>
        reached ds (execute_prog W (D\<lparr>dep_clock := t\<rparr>) raw) p \<and>
        (\<exists>server. lv_tcp s = Some server \<and> (c, Serving) \<in> set (tasks server)))"

definition live_sound :: "wire \<Rightarrow> 'x database_scheme set \<Rightarrow> 'x database_scheme deps \<Rightarrow> 'x database_scheme live \<Rightarrow> bool" where
  "live_sound W ds D s \<longleftrightarrow> finite (dom (lv_flight s)) \<and> flights_reached ds D (lv_service s) \<and> frames_reached W ds D s"

lemma service_step_finite: "service_step D s l s' \<Longrightarrow> finite (dom (sv_flight s)) \<Longrightarrow> finite (dom (sv_flight s'))"
  by (erule service_stepE) auto

lemma flights_reached_mono: "flights_reached ds D s \<Longrightarrow> ds \<subseteq> ds' \<Longrightarrow> flights_reached ds' D s"
  unfolding flights_reached_def by (meson reached_mono)

lemma frames_reached_mono:
  "frames_reached W ds D s \<Longrightarrow> ds \<subseteq> ds' \<Longrightarrow> lv_frames s' = lv_frames s \<Longrightarrow> lv_tcp s' = lv_tcp s \<Longrightarrow> frames_reached W ds' D s'"
  unfolding frames_reached_def by (metis reached_mono)

lemma served_until_idle:
  assumes "(c, Serving) \<in> set (tasks server)" and "tcp_task e \<noteq> Some c"
  shows "(c, Serving) \<in> set (tasks (serve_event server e))"
  using assms by (cases e) (auto simp: end_task_def image_iff)

lemma frames_reached_tcp:
  assumes "frames_reached W ds D s" and "lv_tcp s = Some server" and "idle s e"
  shows "frames_reached W ds D (s\<lparr>lv_tcp := Some (serve_event server e)\<rparr>)"
proof -
  have "tcp_task e \<noteq> Some c" if "lv_frames s c \<noteq> None" for c
    using assms(3) that by (auto simp: idle_def)
  with assms(1,2) served_until_idle [of _ server e] show ?thesis
    by (fastforce simp: frames_reached_def simp del: serve_event.simps)
qed

lemma live_step_sound:
  assumes "live_step W V starts D s l s'" and "live_sound W ds D s"
  shows "live_sound W (insert (lv_store s') (insert (lv_store s) ds)) D s'"
proof -
  let ?ds = "insert (lv_store s') (insert (lv_store s) ds)"
  have sub: "ds \<subseteq> ?ds" by blast
  note flights = flights_reached_mono [OF _ sub, of D] and frames = frames_reached_mono [OF _ sub, of W D]
  have fin: "finite (dom (lv_flight s))" and fl: "flights_reached ?ds D (lv_service s)"
    and fr: "frames_reached W ds D s"
    using assms(2) flights by (auto simp: live_sound_def)
  from assms(1) show ?thesis
  proof (rule live_stepE)
    fix k v
    assume "s' = s\<lparr>lv_service := v\<rparr>" "service_step D (lv_service s) k v"
    with fin service_step_finite [of D "lv_service s" k v] service_step_reached [of D "lv_service s" k v ds] assms(2) frames [OF fr, of s']
    show ?thesis by (simp add: live_sound_def)
  next
    fix server c t raw
    assume "s' = s\<lparr>lv_frames := (lv_frames s)(c \<mapsto> (t, raw, execute_prog W (D\<lparr>dep_clock := t\<rparr>) raw))\<rparr>"
      "lv_tcp s = Some server" "(c, Serving) \<in> set (tasks server)"
    with fin fl frames [OF fr, of s] show ?thesis by (auto simp: live_sound_def frames_reached_def reached_start)
  next
    fix c t raw g f p d
    assume "s' = s\<lparr>lv_service := (lv_service s)\<lparr>sv_store := d\<rparr>, lv_frames := (lv_frames s)(c \<mapsto> (t, raw, p))\<rparr>"
      "lv_frames s c = Some (t, raw, Call g)" "g f (lv_store s) = (p, d)"
    with fin fl fr frames [OF fr, of s] reached_call [of ds "execute_prog W (D\<lparr>dep_clock := t\<rparr>) raw" g f "lv_store s" p d]
    show ?thesis by (auto simp: live_sound_def frames_reached_def flights_reached_def)
  next
    fix c t raw out
    assume "s' = s\<lparr>lv_frames := (lv_frames s)(c := None)\<rparr>"
    with fin fl frames [OF fr, of s] show ?thesis by (auto simp: live_sound_def frames_reached_def)
  next
    fix server e
    assume "s' = s\<lparr>lv_tcp := Some (serve_event server e)\<rparr>" "lv_tcp s = Some server" "idle s e"
    with fin fl frames_reached_tcp [OF frames [OF fr, of s]] show ?thesis by (simp add: live_sound_def del: serve_event.simps)
  next
    fix server
    assume "s' = s\<lparr>lv_tcp := Some (server\<lparr>listening := False\<rparr>)\<rparr>" "lv_tcp s = Some server"
    with fin fl frames_reached_tcp [OF frames [OF fr, of s], of server Shutdown_changed] show ?thesis
      by (simp add: live_sound_def idle_def)
  qed (use fin fl frames [OF fr, of s'] in \<open>auto simp: live_sound_def\<close>)
qed

lemma live_run_sound:
  assumes "live_run W V starts D s history s'" and "lv_flight s = Map.empty" and "lv_frames s = Map.empty"
  shows "live_sound W (insert (lv_store s') (seen history)) D s'"
  using assms
proof (induction rule: live_run.induct)
  case (stay s)
  then show ?case by (simp add: live_sound_def flights_reached_def frames_reached_def)
next
  case (later s history s' l s'')
  then show ?case using live_step_sound [of W V starts D s' l s'' "insert (lv_store s') (seen history)"] by simp
qed

section \<open>Playing a run\<close>

text \<open>Moves of the environment and the scheduler; playing them computes a run.\<close>

datatype 'd live_move =
    Request "'d move"
  | Frame_in nat int bytes
  | Frame_on nat "fault option"
  | Listener tcp_event
  | Worker worker_input
  | Signal
  | Tell_tcp
  | Tell_nats

fun play_live_move ::
  "wire \<Rightarrow> status_wire \<Rightarrow> bool \<Rightarrow> 'x database_scheme deps \<Rightarrow> 'x database_scheme live \<Rightarrow> 'x database_scheme live_move \<Rightarrow>
     (live_label \<times> 'x database_scheme live) option" where
  "play_live_move W V starts D s (Request m) =
     (case play_move D (lv_service s) m of
        None \<Rightarrow> None
      | Some (l, v) \<Rightarrow> if is_arrival l \<and> lv_http s \<noteq> Accepting then None else Some (Rest l, s\<lparr>lv_service := v\<rparr>))"
| "play_live_move W V starts D s (Frame_in c t raw) =
     (case lv_tcp s of
        None \<Rightarrow> None
      | Some server \<Rightarrow>
          if (c, Serving) \<in> set (tasks server) \<and> lv_frames s c = None
          then Some (Frame_read c t raw, s\<lparr>lv_frames := (lv_frames s)(c \<mapsto> (t, raw, execute_prog W (D\<lparr>dep_clock := t\<rparr>) raw))\<rparr>)
          else None)"
| "play_live_move W V starts D s (Frame_on c f) =
     (case lv_frames s c of
        None \<Rightarrow> None
      | Some (t, raw, Done (Inl _)) \<Rightarrow> None
      | Some (t, raw, Done (Inr out)) \<Rightarrow> Some (Frame_sent c t raw out, s\<lparr>lv_frames := (lv_frames s)(c := None)\<rparr>)
      | Some (t, raw, Call k) \<Rightarrow>
          (case k f (lv_store s) of (p, d) \<Rightarrow>
             Some (Frame_called c f, s\<lparr>lv_service := (lv_service s)\<lparr>sv_store := d\<rparr>, lv_frames := (lv_frames s)(c \<mapsto> (t, raw, p))\<rparr>)))"
| "play_live_move W V starts D s (Listener e) =
     (case lv_tcp s of
        None \<Rightarrow> None
      | Some server \<Rightarrow>
          if e \<in> {Shutdown_changed, Shutdown_channel_closed} \<or> \<not> idle s e then None
          else Some (Tcp_took e, s\<lparr>lv_tcp := Some (serve_event server e)\<rparr>))"
| "play_live_move W V starts D s (Worker i) =
     (case lv_nats s of
        None \<Rightarrow> None
      | Some ins \<Rightarrow>
          if i \<in> {Shutdown_signalled, Shutdown_dropped} \<or> fst (worker_serve V starts ins) \<noteq> None then None
          else Some (Nats_took i, s\<lparr>lv_nats := Some (ins @ [i])\<rparr>))"
| "play_live_move W V starts D s Signal =
     (if lv_http s = Accepting then Some (Interrupt, s\<lparr>lv_http := Draining, lv_signalled := True\<rparr>) else None)"
| "play_live_move W V starts D s Tell_tcp =
     (case lv_tcp s of
        None \<Rightarrow> None
      | Some server \<Rightarrow> if lv_signalled s then Some (Tcp_heard, s\<lparr>lv_tcp := Some (serve_event server Shutdown_changed)\<rparr>) else None)"
| "play_live_move W V starts D s Tell_nats =
     (case lv_nats s of
        None \<Rightarrow> None
      | Some ins \<Rightarrow>
          if lv_signalled s \<and> fst (worker_serve V starts ins) = None
          then Some (Nats_heard, s\<lparr>lv_nats := Some (ins @ [Shutdown_signalled])\<rparr>)
          else None)"

primrec play_live ::
  "wire \<Rightarrow> status_wire \<Rightarrow> bool \<Rightarrow> 'x database_scheme deps \<Rightarrow> 'x database_scheme live \<Rightarrow> 'x database_scheme live_move list \<Rightarrow>
     (('x database_scheme \<times> live_label) list \<times> 'x database_scheme live) option" where
  "play_live W V starts D s [] = Some ([], s)"
| "play_live W V starts D s (a # as) =
     (if lv_http s = Stopped then None
      else case play_live_move W V starts D s a of
        None \<Rightarrow> None
      | Some (l, s') \<Rightarrow> map_option (map_prod (Cons (lv_store s, l)) id) (play_live W V starts D s' as))"

lemma play_live_move_steps:
  "play_live_move W V starts D s a = Some (l, s') \<Longrightarrow> lv_http s \<noteq> Stopped \<Longrightarrow> live_step W V starts D s l s'"
  by (cases a)
    (auto intro: live_step.intros play_move_steps simp del: serve_event.simps split: option.splits prod.splits prog.splits sum.splits if_splits)

lemma live_run_append:
  "live_run W V starts D s' later s'' \<Longrightarrow> live_run W V starts D s history s' \<Longrightarrow> live_run W V starts D s (history @ later) s''"
  by (induction rule: live_run.induct) (auto simp flip: append_assoc intro: live_run.intros)

lemma live_run_one: "live_step W V starts D s l s' \<Longrightarrow> live_run W V starts D s [(lv_store s, l)] s'"
  using live_run.later [OF live_run.stay] by force

lemma play_live_runs: "play_live W V starts D s as = Some (history, s') \<Longrightarrow> live_run W V starts D s history s'"
proof (induction as arbitrary: s history)
  case Nil
  then show ?case by (simp add: live_run.stay)
next
  case (Cons a as)
  then obtain l u rest where "play_live_move W V starts D s a = Some (l, u)" "play_live W V starts D u as = Some (rest, s')"
    "history = (lv_store s, l) # rest" "lv_http s \<noteq> Stopped"
    by (auto split: option.splits if_splits)
  with Cons.IH [of u rest] show ?case
    using live_run_append [OF _ live_run_one [OF play_live_move_steps [of W V starts D s a l u]]] by simp
qed

text \<open>
  A sample: a connection is accepted and sends a frame, a case is created over REST, and the two interleave.
\<close>

abbreviation ref_effects :: "startup_effect list" where
  "ref_effects \<equiv> [Migrated, Tcp_serving ref_tcp_config, Http_serving ''127.0.0.1:8080'']"

definition live_moves :: "ledger_database live_move list" where
  "live_moves =
     [Listener Accepted, Listener (Handshake_ended 0 True), Request (Arrive 1 ref_clock (Create_request ref_headers sample_command)),
      Frame_in 0 ref_clock ''list'', Request (Advance 1 None), Frame_on 0 None, Request (Advance 1 None), Frame_on 0 None,
      Request (Advance 1 None), Frame_on 0 None, Request (Advance 1 None), Request (Advance 1 None)]"

lemmas live_eval = launch_live_def execute_prog_def authorize_token_prog_def idle_def connection_eval server_start_def
  token_refused_def ok_response_def

end
