(* ===== verification/Live_Refinement.thy ===== *)
theory Live_Refinement
  imports Live_Process
begin

text \<open>
  The running process call by call, seen through the simpler views of it: a run is a run of \<open>Process\<close>, where every answer is one
  step and \<open>Elsewhere\<close> steps stand for all that the calls of others do to the database meanwhile, and its REST side is a run of
  \<open>Concurrency\<close>. So the invariant of \<open>Process\<close> holds of it.
\<close>

section \<open>Refinement of the process\<close>

text \<open>The process as \<open>Process\<close> sees it: requests in flight are counted, and no schedule is left.\<close>

definition abs_process :: "'d live \<Rightarrow> 'd process" where
  "abs_process s =
     \<lparr>pr_app = \<lparr>app_cases = \<lparr>store = lv_store s, agenda = []\<rparr>, app_events = sv_events (lv_service s)\<rparr>,
      pr_http = lv_http s, pr_inflight = card (dom (lv_flight s)), pr_signalled = lv_signalled s,
      pr_tcp = lv_tcp s, pr_nats = lv_nats s\<rparr>"

lemma abs_process_sel:
  "pr_http (abs_process s) = lv_http s" "pr_signalled (abs_process s) = lv_signalled s"
  "pr_tcp (abs_process s) = lv_tcp s" "pr_nats (abs_process s) = lv_nats s"
  by (simp_all add: abs_process_def)

text \<open>What a step is there: an answer is a request handled in one go; single calls only change the database.\<close>

fun observed :: "live_label \<Rightarrow> process_label list" where
  "observed (Rest (Arrives i t r)) = [Http_accepted]"
| "observed (Rest (Answers i t r result)) = [Http_answered t r result]"
| "observed (Rest _) = []"
| "observed (Frame_read c t raw) = []"
| "observed (Frame_called c f) = []"
| "observed (Frame_sent c t raw out) = [Frame_answered t raw out]"
| "observed (Tcp_took e) = [Tcp_input e]"
| "observed (Nats_took i) = [Nats_input i]"
| "observed Interrupt = [Interrupted]"
| "observed Tcp_heard = [Tcp_told]"
| "observed Nats_heard = [Nats_told]"
| "observed Ended = [Exited]"

lemma sample_live:
  assumes "run_state running = sample_app"
  shows "\<exists>history s m out server. play_live ref_wire ref_status_wire True ref_deps (launch_live running ref_effects) live_moves = Some (history, s) \<and>
    length history = 12 \<and>
    concat (map (\<lambda>(_, l). observed l) history) =
      [Tcp_input Accepted, Tcp_input (Handshake_ended 0 True), Http_accepted, Frame_answered ref_clock ''list'' out,
       Http_answered ref_clock (Create_request ref_headers sample_command) (Inr (201, Mutation_body m))] \<and>
    snd (history ! 6) = Rest (Calls 1 None) \<and> snd (history ! 9) = Frame_sent 0 ref_clock ''list'' out \<and> length out = 30000 \<and>
    length (filter (\<lambda>e. te_tenant_id e = 1) (sv_events (lv_service s))) = 1 \<and>
    lv_http s = Accepting \<and> lv_tcp s = Some server \<and> length (tasks server) = 1"
  using assms
  by (simp add: live_moves_def live_eval http_eval service_eval sample_defs ref_defs prog_eval)

definition visible :: "process_label list \<Rightarrow> process_label list" where
  "visible = filter (\<lambda>l. l \<noteq> Elsewhere)"

lemma visible_simps [simp]: "visible [] = []" "visible (l # ls) = (if l = Elsewhere then visible ls else l # visible ls)"
  "visible (ls @ ms) = visible ls @ visible ms"
  by (simp_all add: visible_def)

abbreviation with_cases :: "'d process \<Rightarrow> 'd world \<Rightarrow> 'd process" where
  "with_cases p w \<equiv> p\<lparr>pr_app := (pr_app p)\<lparr>app_cases := w\<rparr>\<rparr>"

lemma elsewhere_trace: "pr_http p \<noteq> Stopped \<Longrightarrow> process_trace W V starts D p [Elsewhere] (with_cases p w)"
  by (intro process_trace_one process_step.elsewhere)

lemma between_elsewheres:
  assumes "process_step W V starts D (with_cases p w) l p'" and "pr_http p \<noteq> Stopped" and "pr_http p' \<noteq> Stopped"
  shows "process_trace W V starts D p [Elsewhere, l, Elsewhere] (with_cases p' w')"
  using process_trace_append [OF elsewhere_trace [OF assms(3)]
      process_trace_append [OF process_trace_one [OF assms(1)] elsewhere_trace [OF assms(2)]]]
  by simp

lemma answer_trace:
  assumes "pr_http p \<noteq> Stopped" and "pr_inflight p = Suc n"
    and "fst (handle (D\<lparr>dep_clock := t\<rparr>) r \<lparr>app_cases = w, app_events = app_events (pr_app p)\<rparr>) = result"
  shows "process_trace W V starts D p [Elsewhere, Http_answered t r result, Elsewhere]
    (p\<lparr>pr_app := \<lparr>app_cases = w', app_events = app_events (pr_app p) @ published result\<rparr>, pr_inflight := n\<rparr>)"
proof -
  obtain a where a: "handle (D\<lparr>dep_clock := t\<rparr>) r \<lparr>app_cases = w, app_events = app_events (pr_app p)\<rparr> = (result, a)"
    using assms(3) by (metis prod.collapse)
  then have "app_events a = app_events (pr_app p) @ published result"
    using handle_publishes [of "D\<lparr>dep_clock := t\<rparr>" r "\<lparr>app_cases = w, app_events = app_events (pr_app p)\<rparr>"] by simp
  moreover have "process_step W V starts D (with_cases p w) (Http_answered t r result) (p\<lparr>pr_app := a, pr_inflight := n\<rparr>)"
    using process_step.answer [of "with_cases p w" n t D r result a W V starts] assms(1,2) a
    by (cases "pr_app p") simp
  from between_elsewheres [OF this assms(1), of w'] assms(1) have
    "process_trace W V starts D p [Elsewhere, Http_answered t r result, Elsewhere]
       (with_cases (p\<lparr>pr_app := a, pr_inflight := n\<rparr>) w')" by simp
  ultimately show ?thesis by (cases p; cases a) simp
qed

lemma frame_trace:
  assumes "pr_http p \<noteq> Stopped" and "pr_tcp p = Some server" and "(c, Serving) \<in> set (tasks server)"
    and "execute W (D\<lparr>dep_clock := t\<rparr>) raw w = (out, w1)"
  shows "process_trace W V starts D p [Elsewhere, Frame_answered t raw out, Elsewhere] p"
proof -
  have "process_step W V starts D (with_cases p w) (Frame_answered t raw out) (with_cases p w1)"
    using process_step.frame [of "with_cases p w" server c W t D raw out w1 V starts] assms by simp
  from between_elsewheres [OF this assms(1), of "app_cases (pr_app p)"] assms(1) show ?thesis by simp
qed

lemma frame_executed:
  assumes "reached ds (execute_prog W D raw) (Done (Inr out))"
  obtains w w1 where "scheduled ds w" "execute W D raw w = (out, w1)"
    "if agenda w = [] then execute_prog W D raw = Done (Inr out) else store w1 \<in> ds"
proof -
  obtain w d where "scheduled ds w" "run_prog (execute_prog W D raw) w = (Inr out, \<lparr>store = d, agenda = []\<rparr>)"
    "if agenda w = [] then execute_prog W D raw = Done (Inr out) else d \<in> ds"
    using reached_done [OF assms] .
  then show thesis by (intro that [of w "\<lparr>store = d, agenda = []\<rparr>"]) (auto simp: execute_runs apfst_def map_prod_def split: prod.splits if_splits)
qed

lemma card_dom_remove: "finite (dom m) \<Longrightarrow> m i = Some x \<Longrightarrow> card (dom m) = Suc (card (dom (m(i := None))))"
  using card_Suc_Diff1 [of "dom m" i] by (simp add: domI del: card_Diff_insert)

lemma rest_simulated:
  assumes "service_step D (lv_service s) k v" and "live_sound W ds D s" and up: "lv_http s \<noteq> Stopped"
    and acc: "is_arrival k \<Longrightarrow> lv_http s = Accepting"
  shows "\<exists>ls. process_trace W V starts D (abs_process s) ls (abs_process (s\<lparr>lv_service := v\<rparr>)) \<and>
    visible ls = observed (Rest k)"
  (is "\<exists>ls. process_trace W V starts D _ ls (abs_process ?s) \<and> _")
  using assms(1)
proof (rule service_stepE)
  fix i t r
  assume k: "k = Arrives i t r" "lv_flight s i = None"
    "v = (lv_service s)\<lparr>sv_flight := (lv_flight s)(i \<mapsto> (t, r, handle_prog (D\<lparr>dep_clock := t\<rparr>) r))\<rparr>"
  have "finite (dom (lv_flight s))" using assms(2) by (simp add: live_sound_def)
  with k(2) have "card (insert i (dom (lv_flight s))) = Suc (card (dom (lv_flight s)))" by (simp add: domIff)
  with k have "abs_process ?s = (abs_process s)\<lparr>pr_inflight := Suc (pr_inflight (abs_process s))\<rparr>"
    by (simp add: abs_process_def)
  moreover have "process_step W V starts D (abs_process s) Http_accepted
      ((abs_process s)\<lparr>pr_inflight := Suc (pr_inflight (abs_process s))\<rparr>)"
    using acc k(1) by (intro process_step.accept) (simp add: abs_process_def)
  ultimately show ?thesis using k(1) process_trace_one by force
next
  fix i t r c f p d
  assume k: "k = Calls i f" "lv_flight s i = Some (t, r, Call c)"
    "v = (lv_service s)\<lparr>sv_store := d, sv_flight := (lv_flight s)(i \<mapsto> (t, r, p))\<rparr>"
  then have "abs_process ?s = with_cases (abs_process s) \<lparr>store = d, agenda = []\<rparr>"
    by (simp add: abs_process_def insert_absorb domI)
  with elsewhere_trace [of "abs_process s" W V starts D "\<lparr>store = d, agenda = []\<rparr>"] up k(1) show ?thesis
    by (intro exI [of _ "[Elsewhere]"]) (simp add: abs_process_def)
next
  fix i t r result
  assume k: "k = Answers i t r result" "lv_flight s i = Some (t, r, Done result)"
    "v = (lv_service s)\<lparr>sv_events := sv_events (lv_service s) @ published result, sv_flight := (lv_flight s)(i := None)\<rparr>"
  have "reached ds (handle_prog (D\<lparr>dep_clock := t\<rparr>) r) (Done result)" and fin: "finite (dom (lv_flight s))"
    using assms(2) k(2) by (auto simp: live_sound_def flights_reached_def)
  from this(1) obtain w where
    "\<And>events. fst (handle (D\<lparr>dep_clock := t\<rparr>) r \<lparr>app_cases = w, app_events = events\<rparr>) = result"
    by (rule reached_handled) (rule that, simp)
  with answer_trace [of "abs_process s" "card (dom ((lv_flight s)(i := None)))" t D r w result W V starts "\<lparr>store = lv_store s, agenda = []\<rparr>"]
    up card_dom_remove [OF fin k(2)]
  have "process_trace W V starts D (abs_process s) [Elsewhere, Http_answered t r result, Elsewhere] (abs_process ?s)"
    using k(3) by (simp add: abs_process_def)
  with k(1) show ?thesis by (intro exI [of _ "[Elsewhere, Http_answered t r result, Elsewhere]"]) simp
next
  fix d
  assume k: "k = Other_writes" "v = (lv_service s)\<lparr>sv_store := d\<rparr>"
  then have "abs_process ?s = with_cases (abs_process s) \<lparr>store = d, agenda = []\<rparr>"
    by (simp add: abs_process_def)
  with elsewhere_trace [of "abs_process s" W V starts D "\<lparr>store = d, agenda = []\<rparr>"] up k(1) show ?thesis
    by (intro exI [of _ "[Elsewhere]"]) (simp add: abs_process_def)
qed

lemma frame_in_flight:
  "live_sound W ds D s \<Longrightarrow> lv_frames s c = Some (t, raw, p) \<Longrightarrow>
     reached ds (execute_prog W (D\<lparr>dep_clock := t\<rparr>) raw) p \<and> (\<exists>server. lv_tcp s = Some server \<and> (c, Serving) \<in> set (tasks server))"
  unfolding live_sound_def frames_reached_def by blast

lemma step_simulated:
  assumes "live_step W V starts D s l s'" and "live_sound W ds D s"
  shows "\<exists>ls. process_trace W V starts D (abs_process s) ls (abs_process s') \<and> visible ls = observed l"
  using assms(1)
proof (rule live_stepE)
  fix k v
  assume l: "l = Rest k" and s': "s' = s\<lparr>lv_service := v\<rparr>" and up: "lv_http s \<noteq> Stopped"
    and acc: "is_arrival k \<Longrightarrow> lv_http s = Accepting" and step: "service_step D (lv_service s) k v"
  from rest_simulated [OF step assms(2) up acc, of V starts] show ?thesis unfolding l s' by simp
next
  fix server c t raw
  assume "l = Frame_read c t raw" "s' = s\<lparr>lv_frames := (lv_frames s)(c \<mapsto> (t, raw, execute_prog W (D\<lparr>dep_clock := t\<rparr>) raw))\<rparr>"
  then show ?thesis
    by (intro exI [of _ "[]"]) (simp add: abs_process_def process_trace.trace_stay)
next
  fix c t raw g f p d
  assume "l = Frame_called c f" "lv_http s \<noteq> Stopped"
    "s' = s\<lparr>lv_service := (lv_service s)\<lparr>sv_store := d\<rparr>, lv_frames := (lv_frames s)(c \<mapsto> (t, raw, p))\<rparr>"
  with elsewhere_trace [of "abs_process s" W V starts D "\<lparr>store = d, agenda = []\<rparr>"] show ?thesis
    by (intro exI [of _ "[Elsewhere]"]) (simp add: abs_process_def)
next
  fix c t raw out
  assume k: "l = Frame_sent c t raw out" "lv_http s \<noteq> Stopped" "lv_frames s c = Some (t, raw, Done (Inr out))"
    "s' = s\<lparr>lv_frames := (lv_frames s)(c := None)\<rparr>"
  with assms(2) obtain server where fr: "reached ds (execute_prog W (D\<lparr>dep_clock := t\<rparr>) raw) (Done (Inr out))"
    "lv_tcp s = Some server" "(c, Serving) \<in> set (tasks server)"
    by (blast dest: frame_in_flight)
  obtain w w1 where "execute W (D\<lparr>dep_clock := t\<rparr>) raw w = (out, w1)" using frame_executed [OF fr(1)] by blast
  with frame_trace [of "abs_process s" server c W t D raw w out w1 V starts] fr(2,3) k show ?thesis
    by (intro exI [of _ "[Elsewhere, Frame_answered t raw out, Elsewhere]"]) (simp add: abs_process_def)
next
  fix server e
  assume "l = Tcp_took e" "lv_http s \<noteq> Stopped" "lv_tcp s = Some server" "e \<noteq> Shutdown_changed" "e \<noteq> Shutdown_channel_closed"
    "s' = s\<lparr>lv_tcp := Some (serve_event server e)\<rparr>"
  with process_trace_one [OF process_step.tcp [of "abs_process s" server e W V starts D]] show ?thesis
    by (intro exI [of _ "[Tcp_input e]"]) (simp add: abs_process_def del: serve_event.simps)
next
  fix ins i
  assume "l = Nats_took i" "lv_http s \<noteq> Stopped" "lv_nats s = Some ins" "fst (worker_serve V starts ins) = None"
    "i \<noteq> Shutdown_signalled" "i \<noteq> Shutdown_dropped" "s' = s\<lparr>lv_nats := Some (ins @ [i])\<rparr>"
  with process_trace_one [OF process_step.nats [of "abs_process s" ins V starts i W D]] show ?thesis
    by (intro exI [of _ "[Nats_input i]"]) (simp add: abs_process_def)
next
  assume "l = Interrupt" "lv_http s = Accepting" "s' = s\<lparr>lv_http := Draining, lv_signalled := True\<rparr>"
  with process_trace_one [OF process_step.signal [of "abs_process s" W V starts D]] show ?thesis
    by (intro exI [of _ "[Interrupted]"]) (simp add: abs_process_def shutdown_signal_def)
next
  fix server
  assume "l = Tcp_heard" "lv_http s \<noteq> Stopped" "lv_signalled s" "lv_tcp s = Some server"
    "s' = s\<lparr>lv_tcp := Some (server\<lparr>listening := False\<rparr>)\<rparr>"
  with process_trace_one [OF process_step.tcp_told [of "abs_process s" server W V starts D]] show ?thesis
    by (intro exI [of _ "[Tcp_told]"]) (simp add: abs_process_def)
next
  fix ins
  assume "l = Nats_heard" "lv_http s \<noteq> Stopped" "lv_signalled s" "lv_nats s = Some ins" "fst (worker_serve V starts ins) = None"
    "s' = s\<lparr>lv_nats := Some (ins @ [Shutdown_signalled])\<rparr>"
  with process_trace_one [OF process_step.nats_told [of "abs_process s" ins V starts W D]] show ?thesis
    by (intro exI [of _ "[Nats_told]"]) (simp add: abs_process_def)
next
  assume "l = Ended" "lv_http s = Draining" "lv_flight s = Map.empty" "s' = s\<lparr>lv_http := Stopped\<rparr>"
  with process_trace_one [OF process_step.drained [of "abs_process s" W V starts D]] show ?thesis
    by (intro exI [of _ "[Exited]"]) (simp add: abs_process_def)
qed

lemma run_simulated:
  assumes "live_run W V starts D s history s'" and "lv_flight s = Map.empty" and "lv_frames s = Map.empty"
  shows "\<exists>ls. process_trace W V starts D (abs_process s) ls (abs_process s') \<and>
    visible ls = concat (map (\<lambda>(_, l). observed l) history)"
  using assms
proof (induction rule: live_run.induct)
  case (stay s)
  then show ?case by (intro exI [of _ "[]"]) (simp add: process_trace.trace_stay)
next
  case (later s history s' l s'')
  from step_simulated [OF later.hyps(2) live_run_sound [OF later.hyps(1) later.prems]]
  obtain ms where "process_trace W V starts D (abs_process s') ms (abs_process s'')" "visible ms = observed l" by blast
  moreover from later obtain ls where "process_trace W V starts D (abs_process s) ls (abs_process s')"
    "visible ls = concat (map (\<lambda>(_, l). observed l) history)" by blast
  ultimately show ?case using process_trace_append by (intro exI [of _ "ls @ ms"]) force
qed

section \<open>Projection to the service\<close>

text \<open>The REST side of a run: calls of frames are writes from elsewhere to it (that they write nothing comes later).\<close>

fun rest_label :: "live_label \<Rightarrow> service_label option" where
  "rest_label (Rest l) = Some l"
| "rest_label (Frame_called c f) = Some Other_writes"
| "rest_label _ = None"

fun rest_history :: "('d \<times> live_label) list \<Rightarrow> ('d \<times> service_label) list" where
  "rest_history [] = []"
| "rest_history ((d, l) # history) =
     (case rest_label l of None \<Rightarrow> rest_history history | Some k \<Rightarrow> (d, k) # rest_history history)"

lemma rest_history_append [simp]: "rest_history (xs @ ys) = rest_history xs @ rest_history ys"
  by (induction xs rule: rest_history.induct) (simp_all split: option.splits)

lemma rest_history_seen: "seen (rest_history history) \<subseteq> seen history"
  by (induction history rule: rest_history.induct) (auto simp: seen_def split: option.splits)

lemma rest_history_lifted: "rest_history (map (map_prod id Rest) history) = history"
  by (induction history) auto

lemma live_step_service:
  "live_step W V starts D s l s' \<Longrightarrow>
     (case rest_label l of None \<Rightarrow> lv_service s' = lv_service s | Some k \<Rightarrow> service_step D (lv_service s) k (lv_service s'))"
  by (erule live_stepE) (auto intro: service_step.elsewhere)

lemma rest_run: "live_run W V starts D s history s' \<Longrightarrow> service_run D (lv_service s) (rest_history history) (lv_service s')"
proof (induction rule: live_run.induct)
  case (later s history s' l s'')
  with live_step_service [OF later.hyps(2)] show ?case
    by (cases "rest_label l") (simp_all add: service_run.later)
qed (simp add: service_run.stay)

section \<open>From startup\<close>

lemma launched_empty: "lv_flight (launch_live running effects) = Map.empty" "lv_frames (launch_live running effects) = Map.empty"
  by (simp_all add: launch_live_def)

lemma launched_trace:
  assumes "live_run W V starts D (launch_live running effects) history s"
  shows "\<exists>ls. process_trace W V starts D (launch running effects) ls (abs_process s) \<and>
    visible ls = concat (map (\<lambda>(_, l). observed l) history)"
proof -
  have launched: "abs_process (launch_live running effects) =
      with_cases (launch running effects) \<lparr>store = store (app_cases (run_state running)), agenda = []\<rparr>"
    by (simp add: abs_process_def launch_live_def launch_def)
  have "process_trace W V starts D (launch running effects) [Elsewhere] (abs_process (launch_live running effects))"
    unfolding launched by (rule elsewhere_trace) (simp add: launch_def)
  moreover obtain ls where
    "process_trace W V starts D (abs_process (launch_live running effects)) ls (abs_process s)"
    "visible ls = concat (map (\<lambda>(_, l). observed l) history)"
    using run_simulated [OF assms launched_empty] by blast
  ultimately show ?thesis using process_trace_append by (intro exI [of _ "Elsewhere # ls"]) force
qed

lemma launched_run:
  "live_run W V starts D (launch_live running effects) history s \<Longrightarrow> process_run W V starts D (launch running effects) (abs_process s)"
  using launched_trace process_trace_run by blast

section \<open>Invariants\<close>

text \<open>Each frame in flight has a connection of its own that is being served.\<close>

lemma frames_on_connections:
  assumes "live_sound W ds D s" and "lv_tcp s = Some server"
  shows "dom (lv_frames s) \<subseteq> {c. (c, Serving) \<in> set (tasks server)}" and "card (dom (lv_frames s)) \<le> length (tasks server)"
proof -
  show serving: "dom (lv_frames s) \<subseteq> {c. (c, Serving) \<in> set (tasks server)}"
    using frame_in_flight [OF assms(1)] assms(2) by fastforce
  have "dom (lv_frames s) \<subseteq> fst ` set (tasks server)" using serving by force
  then have "card (dom (lv_frames s)) \<le> card (fst ` set (tasks server))" by (intro card_mono) simp_all
  also have "\<dots> \<le> card (set (tasks server))" by (intro card_image_le) simp
  also have "\<dots> \<le> length (tasks server)" by (rule card_length)
  finally show "card (dom (lv_frames s)) \<le> length (tasks server)" .
qed

lemma live_step_signalled:
  "live_step W V starts D s l s' \<Longrightarrow> lv_signalled s = (lv_http s \<noteq> Accepting) \<Longrightarrow> lv_signalled s' = (lv_http s' \<noteq> Accepting)"
  by (erule live_stepE) auto

lemma launched_signalled:
  assumes "live_run W V starts D (launch_live running effects) history s"
  shows "lv_signalled s = (lv_http s \<noteq> Accepting)"
  using assms
  by (induction "launch_live running effects" history s rule: live_run.induct) (auto simp: launch_live_def live_step_signalled)

lemma no_frames:
  assumes "live_sound W ds D s" and "lv_tcp s = None"
  shows "lv_frames s = Map.empty"
proof
  show "lv_frames s c = None" for c using frame_in_flight [OF assms(1), of c] assms(2) by (cases "lv_frames s c") auto
qed

lemma launched_sound:
  "live_run W V starts D (launch_live running effects) history s \<Longrightarrow> live_sound W (insert (lv_store s) (seen history)) D s"
  using live_run_sound launched_empty by blast

text \<open>
  C22. The process keeps its bounds: in every state that a started process can reach, whatever requests and frames are in flight,
  a framed transport runs exactly when it was configured; its permits and connections always add up to the configured maximum of at
  most 4096, so none is lost and none exceeded; at most that many frames are in flight, one per connection and only on
  connections that completed the handshake; the transports have been told to stop exactly when HTTP no longer accepts; \<^verbatim>\<open>main\<close>
  ends only when every accepted request is answered; and no transport ever finds its shutdown channel closed.
\<close>

theorem live_invariant:
  assumes "startup S env = (Inr running, effects)" and "live_run W V starts D (launch_live running effects) history s"
  shows "(case tcp_config_from_env env of
       Inr (Some c) \<Rightarrow> \<exists>server. lv_tcp s = Some server \<and>
         permits server + length (tasks server) = tcp_max_connections c \<and> tcp_max_connections c \<le> 4096 \<and>
         distinct (map fst (tasks server)) \<and>
         dom (lv_frames s) \<subseteq> {c. (c, Serving) \<in> set (tasks server)} \<and> card (dom (lv_frames s)) \<le> tcp_max_connections c
     | _ \<Rightarrow> lv_tcp s = None \<and> lv_frames s = Map.empty) \<and>
    (lv_signalled s \<longleftrightarrow> lv_http s \<noteq> Accepting) \<and> (lv_http s = Stopped \<longrightarrow> lv_flight s = Map.empty) \<and>
    (\<forall>ins. lv_nats s = Some ins \<longrightarrow> Shutdown_dropped \<notin> set ins \<and> (Shutdown_signalled \<in> set ins \<longrightarrow> lv_signalled s))"
proof -
  note inv = process_invariant [OF assms(1) launched_run [OF assms(2)]] and sound = launched_sound [OF assms(2)]
  have fin: "finite (dom (lv_flight s))" using sound by (simp add: live_sound_def)
  have none: "lv_frames s = Map.empty" if "lv_tcp s = None"
    using no_frames [OF sound that] .
  have some: "dom (lv_frames s) \<subseteq> {c. (c, Serving) \<in> set (tasks server)} \<and> card (dom (lv_frames s)) \<le> n"
    if "lv_tcp s = Some server" "permits server + length (tasks server) = n" for server n
    using frames_on_connections [OF sound that(1)] that(2) by simp
  have "lv_http s = Stopped \<longrightarrow> lv_flight s = Map.empty" using inv fin by (simp add: abs_process_def)
  moreover have "case tcp_config_from_env env of
       Inr (Some c) \<Rightarrow> \<exists>server. lv_tcp s = Some server \<and>
         permits server + length (tasks server) = tcp_max_connections c \<and> tcp_max_connections c \<le> 4096 \<and>
         distinct (map fst (tasks server)) \<and>
         dom (lv_frames s) \<subseteq> {c. (c, Serving) \<in> set (tasks server)} \<and> card (dom (lv_frames s)) \<le> tcp_max_connections c
     | _ \<Rightarrow> lv_tcp s = None \<and> lv_frames s = Map.empty"
  proof (cases "\<exists>c. tcp_config_from_env env = Inr (Some c)")
    case True
    then obtain c where c: "tcp_config_from_env env = Inr (Some c)" by blast
    with inv obtain server where server: "lv_tcp s = Some server" "permits server + length (tasks server) = tcp_max_connections c"
      "tcp_max_connections c \<le> 4096" "distinct (map fst (tasks server))" by (auto simp: abs_process_def)
    with some [OF server(1,2)] c show ?thesis by simp
  next
    case False
    with inv none show ?thesis by (auto simp: abs_process_def split: sum.splits option.splits)
  qed
  moreover have "(lv_signalled s \<longleftrightarrow> lv_http s \<noteq> Accepting) \<and>
    (\<forall>ins. lv_nats s = Some ins \<longrightarrow> Shutdown_dropped \<notin> set ins \<and> (Shutdown_signalled \<in> set ins \<longrightarrow> lv_signalled s))"
    using inv unfolding abs_process_sel by blast
  ultimately show ?thesis by blast
qed

theorem live_invariant_witness:
  "\<exists>running effects history s server. startup ref_platform ref_tcp_env = (Inr running, effects) \<and>
     live_run ref_wire ref_status_wire True ref_deps (launch_live running effects) history s \<and>
     lv_tcp s = Some server \<and> length (tasks server) = 1 \<and> permits server = 127"
proof -
  obtain running where up: "startup ref_platform ref_tcp_env = (Inr running, ref_effects)" and app: "run_state running = sample_app"
    using ref_process by blast
  from sample_live [OF app] obtain history s server where
    play: "play_live ref_wire ref_status_wire True ref_deps (launch_live running ref_effects) live_moves = Some (history, s)"
    and server: "lv_tcp s = Some server" "length (tasks server) = 1" by blast
  have "tcp_config_from_env ref_tcp_env = Inr (Some ref_tcp_config)" by (rule ref_tcp_config_read)
  with live_invariant [OF up play_live_runs [OF play]] server have "permits server = 127"
    by (auto simp: ref_tcp_config_def)
  with up play_live_runs [OF play] server show ?thesis by blast
qed

end
