(* ===== verification/Live_Properties.thy ===== *)
theory Live_Properties
  imports Live_Refinement
begin

text \<open>
  What holds of the running process with requests and frames in flight together: only calls of REST requests write, every answer to a
  frame is authorized by that frame, and shutdown waits for the REST requests in flight and for nothing else.
\<close>

section \<open>Frames only read\<close>

lemma lawful_settle: "lawful R p \<Longrightarrow> (\<And>r. lawful R (g r)) \<Longrightarrow> lawful R (settle_prog p g)"
proof (induction rule: lawful.induct)
  case (lawful_call c)
  then show ?case unfolding settle_prog.simps by (intro lawful.lawful_call) simp_all
qed simp

lemma execute_lawful: "lawful R (execute_prog W D frame)"
proof -
  have "lawful R (authorize_token_prog D token tenant scopes)" for token tenant scopes
    unfolding authorize_token_prog_def tenant_context_prog_def by (intro lawful_rules)
  moreover have "lawful R (list_cases_prog c)" for c
    unfolding list_cases_prog_def by (intro lawful_rules)
  ultimately show ?thesis
    unfolding execute_prog_def
    by (auto split: option.splits sum.splits operation.splits intro!: lawful_settle lawful.lawful_done)
qed

definition frames_lawful :: "'d live \<Rightarrow> bool" where
  "frames_lawful s \<longleftrightarrow> (\<forall>c t raw p. lv_frames s c = Some (t, raw, p) \<longrightarrow> lawful (\<lambda>_ _. False) p)"

lemma live_step_lawful:
  assumes "live_step W V starts D s l s'" and "frames_lawful s"
  shows "frames_lawful s' \<and> (\<forall>c f. l = Frame_called c f \<longrightarrow> lv_store s' = lv_store s)"
  using assms(1)
proof (rule live_stepE)
  fix c t raw k f p d
  assume "lv_frames s c = Some (t, raw, Call k)" and step: "k f (lv_store s) = (p, d)" "l = Frame_called c f"
    "s' = s\<lparr>lv_service := (lv_service s)\<lparr>sv_store := d\<rparr>, lv_frames := (lv_frames s)(c \<mapsto> (t, raw, p))\<rparr>"
  with assms(2) have "lawful (\<lambda>_ _. False) (Call k)" by (auto simp: frames_lawful_def)
  then have "lawful (\<lambda>_ _. False) (fst (k f (lv_store s)))" "snd (k f (lv_store s)) = lv_store s"
    by (auto elim: lawful_callE)
  with step assms(2) show ?thesis by (auto simp: frames_lawful_def)
qed (use assms(2) execute_lawful in \<open>auto simp: frames_lawful_def split: if_splits\<close>)

lemma live_run_lawful: "live_run W V starts D s history s' \<Longrightarrow> frames_lawful s \<Longrightarrow> frames_lawful s'"
  by (induction rule: live_run.induct) (auto dest: live_step_lawful)

text \<open>
  C9. Every single write of the process is accounted: whatever requests and frames are in flight, whatever the
  listener, the worker and the shutdown do and whatever other connections to the database write, a step of the process that changes
  the database is one call of one REST request in flight; it runs the stored function of that request's endpoint for the tenant in
  its header and in the name of the caller, and a database that the process had gone through grants and admits that caller with a
  role that permits the operation. Frames, messages, connections and shutdown leave the database as it is.
\<close>

theorem live_writes_accounted:
  assumes "live_run W V starts D s history s'" and "lv_flight s = Map.empty" and "lv_frames s = Map.empty"
    and "live_step W V starts D s' l s''" and "l \<noteq> Rest Other_writes" and "lv_store s'' \<noteq> lv_store s'"
  shows "\<exists>i f t r p subject k. l = Rest (Calls i f) \<and> lv_flight s' i = Some (t, r, p) \<and>
    (\<exists>d \<in> seen history. admitted (D\<lparr>dep_clock := t\<rparr>) (headers_of r) (needed_scopes r) d subject k) \<and>
    issues (D\<lparr>dep_clock := t\<rparr>) r subject k (lv_store s') (lv_store s'')"
proof -
  have "frames_lawful s'" using live_run_lawful [OF assms(1)] assms(3) by (simp add: frames_lawful_def)
  with live_step_lawful [OF assms(4)] assms(6) have "\<forall>c f. l \<noteq> Frame_called c f" by blast
  with live_step_service [OF assms(4)] assms(5,6) obtain k where l: "l = Rest k" "k \<noteq> Other_writes"
    and step: "service_step D (lv_service s') k (lv_service s'')"
    by (cases l) auto
  from concurrent_writes_accounted [OF rest_run [OF assms(1)] assms(2) step l(2) assms(6)] rest_history_seen [of history] l(1)
  show ?thesis by blast
qed

text \<open>What the environment can do on the way to a write: the statement of the sample creation.\<close>

theorem live_writes_accounted_witness:
  "\<exists>running history s' s'' f subject k.
     live_run ref_wire ref_status_wire True ref_deps (launch_live running ref_effects) history s' \<and>
     live_step ref_wire ref_status_wire True ref_deps s' (Rest (Calls 1 f)) s'' \<and> lv_store s'' \<noteq> lv_store s' \<and>
     issues (ref_deps\<lparr>dep_clock := ref_clock\<rparr>) (Create_request ref_headers sample_command) subject k (lv_store s') (lv_store s'')"
proof -
  obtain running where app: "run_state running = sample_app"
    and "startup ref_platform ref_tcp_env = (Inr running, ref_effects)" using ref_process by blast
  let ?s = "launch_live running ref_effects" and ?r = "Create_request ref_headers sample_command"
  obtain history s' s'' where
    play: "play_live ref_wire ref_status_wire True ref_deps ?s (take 6 live_moves) = Some (history, s')" and
    move: "play_live_move ref_wire ref_status_wire True ref_deps s' (Request (Advance 1 None)) = Some (Rest (Calls 1 None), s'')" and
    at: "\<exists>p. lv_flight s' 1 = Some (ref_clock, ?r, p)" "lv_http s' \<noteq> Stopped" "lv_store s'' \<noteq> lv_store s'"
    using app by (simp add: live_moves_def live_eval http_eval service_eval sample_defs ref_defs prog_eval)
  note run = play_live_runs [OF play] and step = play_live_move_steps [OF move at(2)]
  from live_writes_accounted [OF run launched_empty step _ at(3)] at(1) obtain subject k where
    "issues (ref_deps\<lparr>dep_clock := ref_clock\<rparr>) ?r subject k (lv_store s') (lv_store s'')" by auto
  with run step at(3) show ?thesis by blast
qed

section \<open>Answers to frames\<close>

lemma settle_done: "settle_prog p g = Done r \<Longrightarrow> \<exists>x. p = Done x \<and> g x = Done r"
  by (cases p) auto

lemma authorize_token_prog_not_done: "authorize_token_prog D token tenant scopes \<noteq> Done (Inr x)"
  by (auto simp: authorize_token_prog_def tenant_context_prog_def call_def split: sum.splits)

lemma executed_without_call:
  assumes "execute_prog W D raw = Done (Inr out)"
  shows "refused W raw out"
proof (cases "parse_request W raw")
  case None
  with assms show ?thesis by (auto simp: execute_prog_def frame_failures_def intro!: refusedI)
next
  case (Some request)
  let ?p = "authorize_token_prog D (fr_bearer_token request) (fr_tenant_id request) [CASES_READ_SCOPE]"
  from assms Some obtain x where p: "?p = Done x" by (auto simp: execute_prog_def dest!: settle_done)
  then obtain e where e: "x = Inl e" by (cases x) (auto simp: authorize_token_prog_not_done)
  have "fst (run_prog ?p w) = Inl e" for w unfolding p e by simp
  then have "api_error_code e \<in> set frame_failures"
    unfolding authorize_token_runs by (rule authorize_token_failures)
  with assms Some p e show ?thesis by (auto simp: execute_prog_def intro!: refusedI)
qed

lemma frame_sent_executed:
  assumes "live_run W V starts D s history s'" and "lv_flight s = Map.empty" and "lv_frames s = Map.empty"
    and "(d, Frame_sent c t raw out) \<in> set history"
  shows "reached (seen history) (execute_prog W (D\<lparr>dep_clock := t\<rparr>) raw) (Done (Inr out))"
  using assms
proof (induction rule: live_run.induct)
  case (later s history s' l s'')
  show ?case
  proof (cases "(d, Frame_sent c t raw out) \<in> set history")
    case True
    with later reached_mono [OF _ subset_insertI] show ?thesis by simp
  next
    case False
    with later.prems have "l = Frame_sent c t raw out" by simp
    with later.hyps(2) have "lv_frames s' c = Some (t, raw, Done (Inr out))" by (auto elim: live_stepE)
    with frame_in_flight [OF live_run_sound [OF later.hyps(1) later.prems(1,2)]] show ?thesis by simp
  qed
qed simp

text \<open>
  C5. Every frame stands for itself, with everything else in flight: the answer to a frame is either a failure naming a fixed
  code, or the printed list of cases of the tenant in that frame, at most \<^verbatim>\<open>MAX_RESPONSE_BYTES\<close> long, and
  then the token in that same frame was granted the read scope when the frame came, its user is an active member of that tenant in a
  database the process went through, and the list is exactly what the case table held for it in a database the process went through.
\<close>

theorem live_frames_authorized:
  assumes "live_run W V starts D s history s'" and "lv_flight s = Map.empty" and "lv_frames s = Map.empty"
    and "(d, Frame_sent c t raw out) \<in> set history"
  shows "refused W raw out \<or>
   (\<exists>request cs subject role.
      parse_request W raw = Some request \<and> print_response W (ok_response request cs) = Some out \<and>
      length out \<le> MAX_RESPONSE_BYTES \<and>
      grants_token (D\<lparr>dep_clock := t\<rparr>) (fr_bearer_token request) [CASES_READ_SCOPE] subject \<and>
      (\<exists>d \<in> seen history. member (fr_tenant_id request) (vs_shared_user_id subject) role d) \<and>
      (\<exists>d \<in> seen history. map row_of_case cs = case_select_list (fr_tenant_id request) d))"
proof -
  obtain w w1 where w: "scheduled (seen history) w" "execute W (D\<lparr>dep_clock := t\<rparr>) raw w = (out, w1)"
    and last: "if agenda w = [] then execute_prog W (D\<lparr>dep_clock := t\<rparr>) raw = Done (Inr out) else store w1 \<in> seen history"
    using frame_executed [OF frame_sent_executed [OF assms]] .
  show ?thesis
  proof (cases "agenda w = []")
    case True
    with last show ?thesis by (simp add: executed_without_call)
  next
    case False
    with scheduled_presented [OF w(1)] last have seen: "presented w \<in> seen history" "store w1 \<in> seen history" by simp_all
    from frames_are_authorized [of W raw "D\<lparr>dep_clock := t\<rparr>" w]
    consider "refused W raw out"
      | request cs subject role where "parse_request W raw = Some request" "print_response W (ok_response request cs) = Some out"
        "length out \<le> MAX_RESPONSE_BYTES"
        "grants_token (D\<lparr>dep_clock := t\<rparr>) (fr_bearer_token request) [CASES_READ_SCOPE] subject"
        "member (fr_tenant_id request) (vs_shared_user_id subject) role (presented w)"
        "map row_of_case cs = case_select_list (fr_tenant_id request) (store w1)"
      unfolding w(2) fst_conv snd_conv by blast
    then show ?thesis using seen by cases blast+
  qed
qed

theorem live_frames_authorized_witness:
  "\<exists>running history s d out cs (subject :: verified_subject) role.
     live_run ref_wire ref_status_wire True ref_deps (launch_live running ref_effects) history s \<and>
     (d, Frame_sent 0 ref_clock ''list'' out) \<in> set history \<and> length out = 30000 \<and>
     (\<exists>d \<in> seen history. member 1 (vs_shared_user_id subject) role d) \<and>
     (\<exists>d \<in> seen history. map row_of_case cs = case_select_list 1 d)"
proof -
  obtain running where app: "run_state running = sample_app"
    and "startup ref_platform ref_tcp_env = (Inr running, ref_effects)" using ref_process by blast
  from sample_live [OF app] obtain history s out where
    play: "play_live ref_wire ref_status_wire True ref_deps (launch_live running ref_effects) live_moves = Some (history, s)"
    and sent: "length history = 12" "snd (history ! 9) = Frame_sent 0 ref_clock ''list'' out" "length out = 30000" by blast
  have "history ! 9 \<in> set history" using sent(1) by simp
  with sent(2) obtain d where mem: "(d, Frame_sent 0 ref_clock ''list'' out) \<in> set history" by (metis prod.collapse)
  have "\<not> refused ref_wire ''list'' out"
    using sent(3) by (auto simp: refused_def frame_failures_def encode_failure_def ref_wire_def)
  moreover have "parse_request ref_wire ''list'' =
      Some \<lparr>fr_request_id = 7, fr_tenant_id = 1, fr_bearer_token = ''t0ken'', fr_operation = ListCases\<rparr>" by (simp add: ref_wire_def)
  ultimately obtain cs role and subject :: verified_subject where
    "\<exists>d \<in> seen history. member 1 (vs_shared_user_id subject) role d"
    "\<exists>d \<in> seen history. map row_of_case cs = case_select_list 1 d"
    using live_frames_authorized [OF play_live_runs [OF play] launched_empty mem] by auto
  with play_live_runs [OF play] mem sent(3) show ?thesis by blast
qed

section \<open>Shutdown\<close>

definition only_progress :: "('d \<times> service_label) list \<Rightarrow> bool" where
  "only_progress history \<longleftrightarrow> list_all (\<lambda>(_, l). \<not> is_arrival l) history"

lemma service_run_append:
  "service_run D s' later s'' \<Longrightarrow> service_run D s history s' \<Longrightarrow> service_run D s (history @ later) s''"
  by (induction rule: service_run.induct) (auto simp flip: append_assoc intro: service_run.intros)

text \<open>A request in flight goes on to its answer when it is served; all of them do, one after the other.\<close>

lemma flight_finishes:
  assumes "sv_flight s i = Some (t, r, p)"
  shows "\<exists>history s' result. service_run D s history s' \<and> only_progress history \<and> answers history = [(t, r, result)] \<and>
    sv_flight s' = (sv_flight s)(i := None)"
  using assms
proof (induction p arbitrary: s)
  case (Done result)
  from service_run.later [OF service_run.stay service_step.answer [of s i t r result D]] Done show ?case
    by (fastforce simp: only_progress_def)
next
  case (Call c)
  obtain p d where c: "c None (sv_store s) = (p, d)" by (cases "c None (sv_store s)")
  let ?s = "s\<lparr>sv_store := d, sv_flight := (sv_flight s)(i \<mapsto> (t, r, p))\<rparr>"
  have "(p, d) \<in> range (c None)" using c by (metis rangeI)
  have clear: "(sv_flight ?s)(i := None) = (sv_flight s)(i := None)" and flight: "sv_flight ?s i = Some (t, r, p)" by simp_all
  from Call.IH [OF rangeI \<open>(p, d) \<in> range (c None)\<close> _ flight] obtain history s' result where run: "service_run D ?s history s'"
    and "only_progress history" "answers history = [(t, r, result)]" "sv_flight s' = (sv_flight s)(i := None)"
    unfolding clear by (metis fsts.intros fst_conv)
  moreover have "service_step D s (Calls i None) ?s" by (rule service_step.call [OF Call.prems c])
  ultimately show ?case
    using service_run_first [OF run]
    by (intro exI [of _ "(sv_store s, Calls i None) # history"] exI [of _ s'] exI [of _ result]) (simp add: only_progress_def)
qed

lemma flights_finish:
  assumes "finite (dom (sv_flight s))"
  shows "\<exists>history s'. service_run D s history s' \<and> only_progress history \<and> sv_flight s' = Map.empty \<and>
    length (answers history) = card (dom (sv_flight s))"
  using assms
proof (induction "card (dom (sv_flight s))" arbitrary: s)
  case 0
  then show ?case by (intro exI [of _ "[]"] exI [of _ s]) (auto simp: only_progress_def service_run.stay)
next
  case (Suc n)
  then obtain i t r p where i: "sv_flight s i = Some (t, r, p)" by (cases "sv_flight s = Map.empty") (auto simp: fun_eq_iff)
  from flight_finishes [OF i, of D] obtain history u result where one: "service_run D s history u" "only_progress history"
    "answers history = [(t, r, result)]" "sv_flight u = (sv_flight s)(i := None)" by blast
  from card_dom_remove [OF Suc.prems i] Suc.hyps(2) one(4) have "n = card (dom (sv_flight u))" by simp
  moreover have "finite (dom (sv_flight u))" using Suc.prems one(4) by simp
  ultimately obtain later s' where "service_run D u later s'" "only_progress later" "sv_flight s' = Map.empty"
    "length (answers later) = n" using Suc.hyps(1) [of u] by blast
  with one service_run_append Suc.hyps(2) show ?case
    by (intro exI [of _ "history @ later"] exI [of _ s']) (auto simp: only_progress_def)
qed

text \<open>What the service does without taking in requests, the process can do as long as it runs.\<close>

lemma lift_service_run:
  "service_run D v history v' \<Longrightarrow> only_progress history \<Longrightarrow> lv_http s \<noteq> Stopped \<Longrightarrow> v = lv_service s \<Longrightarrow>
     live_run W V starts D s (map (map_prod id Rest) history) (s\<lparr>lv_service := v'\<rparr>)"
proof (induction rule: service_run.induct)
  case (stay v)
  then show ?case by (simp add: live_run.stay)
next
  case (later v history v' l v'')
  then have "only_progress history" and arrival: "\<not> is_arrival l" by (simp_all add: only_progress_def)
  with later have "live_run W V starts D s (map (map_prod id Rest) history) (s\<lparr>lv_service := v'\<rparr>)" by blast
  moreover from arrival later have "live_step W V starts D (s\<lparr>lv_service := v'\<rparr>) (Rest l) (s\<lparr>lv_service := v''\<rparr>)"
    using live_step.rest [of "s\<lparr>lv_service := v'\<rparr>" l D v'' W V starts] by simp
  ultimately have "live_run W V starts D s (map (map_prod id Rest) history @ [(lv_store (s\<lparr>lv_service := v'\<rparr>), Rest l)])
      (s\<lparr>lv_service := v''\<rparr>)"
    by (rule live_run.later)
  then show ?case by (simp add: id_def)
qed

text \<open>
  C33. Shutdown waits for HTTP only: from every state that a started process can reach before it has ended, it can come to its
  end by answering exactly the REST requests that are in flight, each going on from the call it is at; but it can always do so without
  a single step of the transports: the frames that are being executed are never answered, the connections and the message the worker is
  handling are abandoned as they are.
\<close>

theorem live_drains:
  assumes "live_run W V starts D (launch_live running effects) history s" and "lv_http s \<noteq> Stopped"
  shows "\<exists>later s'. live_run W V starts D s later s' \<and> lv_http s' = Stopped \<and> lv_flight s' = Map.empty \<and>
    length (answers (rest_history later)) = card (dom (lv_flight s)) \<and>
    lv_frames s' = lv_frames s \<and> lv_tcp s' = lv_tcp s \<and> lv_nats s' = lv_nats s"
proof -
  let ?d = "s\<lparr>lv_http := Draining, lv_signalled := True\<rparr>"
  have signalled: "lv_signalled s \<longleftrightarrow> lv_http s \<noteq> Accepting"
    using launched_signalled [OF assms(1)] .
  obtain before where draining: "live_run W V starts D s before ?d" "rest_history before = []"
  proof (cases "lv_http s")
    case Accepting
    from live_run_one [OF live_step.signal [OF this, of W V starts D]] that show thesis by fastforce
  next
    case Draining
    with signalled have "?d = s" by (cases s) simp
    with that [of "[]"] show thesis by (simp add: live_run.stay)
  qed (use assms(2) in simp)
  have "finite (dom (sv_flight (lv_service s)))" using launched_sound [OF assms(1)] by (simp add: live_sound_def)
  from flights_finish [OF this, of D] obtain serving v where served: "service_run D (lv_service s) serving v" "only_progress serving"
    "sv_flight v = Map.empty" "length (answers serving) = card (dom (lv_flight s))" by blast
  let ?e = "?d\<lparr>lv_service := v\<rparr>"
  have "live_run W V starts D ?d (map (map_prod id Rest) serving) ?e"
    by (rule lift_service_run [OF served(1,2)]) simp_all
  from live_run_append [OF this draining(1)]
  have "live_run W V starts D s (before @ map (map_prod id Rest) serving) ?e" .
  moreover have "live_step W V starts D ?e Ended (?e\<lparr>lv_http := Stopped\<rparr>)"
    using served(3) by (intro live_step.drained) simp_all
  ultimately have "live_run W V starts D s ((before @ map (map_prod id Rest) serving) @ [(lv_store ?e, Ended)]) (?e\<lparr>lv_http := Stopped\<rparr>)"
    by (rule live_run.later)
  with served(3,4) draining(2) show ?thesis
    by (intro exI [of _ "(before @ map (map_prod id Rest) serving) @ [(lv_store ?e, Ended)]"] exI [of _ "?e\<lparr>lv_http := Stopped\<rparr>"])
      (simp add: rest_history_lifted)
qed

theorem live_drains_witness:
  "\<exists>running history s later s'. live_run ref_wire ref_status_wire True ref_deps (launch_live running ref_effects) history s \<and>
     lv_frames s 0 \<noteq> None \<and> lv_flight s 1 \<noteq> None \<and>
     live_run ref_wire ref_status_wire True ref_deps s later s' \<and> lv_http s' = Stopped \<and> lv_flight s' 1 = None \<and> lv_frames s' 0 \<noteq> None"
proof -
  obtain running where app: "run_state running = sample_app"
    and "startup ref_platform ref_tcp_env = (Inr running, ref_effects)" using ref_process by blast
  let ?s = "launch_live running ref_effects"
  obtain history s where play: "play_live ref_wire ref_status_wire True ref_deps ?s (take 6 live_moves) = Some (history, s)" and
    at: "lv_frames s 0 \<noteq> None" "lv_flight s 1 \<noteq> None" "lv_http s \<noteq> Stopped"
    using app by (simp add: live_moves_def live_eval http_eval service_eval sample_defs ref_defs prog_eval)
  note run = play_live_runs [OF play]
  from live_drains [OF run at(3)] run at(1,2) show ?thesis by (metis)
qed

end
