(* ===== verification/Live_Work.thy ===== *)
theory Live_Work
  imports Live_Refinement
begin

text \<open>
  The work of the process ends: how many database calls requests and frames make, and that each that is in flight can be
  brought to its answer on its own, whatever faults its calls meet.
\<close>

section \<open>Programs that end in an answer\<close>

inductive delivers :: "nat \<Rightarrow> ('d, 'e, 'a) prog \<Rightarrow> bool" where
  delivers_done: "delivers n (Done (Inr x))"
| delivers_call: "(\<And>f d. delivers n (fst (c f d))) \<Longrightarrow> delivers (Suc n) (Call c)"

inductive_cases delivers_doneE: "delivers n (Done r)"
inductive_cases delivers_callE: "delivers n (Call c)"

lemma delivers_more: "delivers n p \<Longrightarrow> n \<le> k \<Longrightarrow> delivers k p"
proof (induction arbitrary: k rule: delivers.induct)
  case (delivers_call n c)
  then show ?case by (cases k) (auto intro: delivers.intros)
qed (rule delivers.delivers_done)

lemma delivers_settle:
  assumes "within n p" and "\<And>r. delivers k (g r)"
  shows "delivers (n + k) (settle_prog p g)"
  using assms(1)
proof (induction rule: within.induct)
  case (within_done n r)
  with delivers_more [OF assms(2), of "n + k"] show ?case by simp
next
  case (within_call n c)
  then show ?case by (auto intro!: delivers.delivers_call simp: case_prod_unfold)
qed

lemma authorize_token_within: "within 1 (authorize_token_prog D token tenant scopes)"
  unfolding authorize_token_prog_def by (intro within_rules operations_within)

lemma listing_delivers: "(\<And>r. delivers 0 (g r)) \<Longrightarrow> delivers 1 (settle_prog (list_cases_prog c) g)"
  using delivers_settle [OF operations_within(2), of 0 g] by simp

lemma execute_delivers: "delivers 2 (execute_prog W D frame)"
proof (cases "parse_request W frame")
  case None
  then show ?thesis by (simp add: execute_prog_def delivers.delivers_done)
next
  case (Some request)
  have "delivers (1 + 1) (execute_prog W D frame)"
    unfolding execute_prog_def Some option.case
    by (rule delivers_settle [OF authorize_token_within])
      (auto split: sum.splits operation.splits option.splits intro!: delivers.delivers_done listing_delivers [simplified])
  then show ?thesis by (simp add: numeral_2_eq_2)
qed

section \<open>Frames\<close>

definition frames_read :: "nat \<Rightarrow> ('d \<times> live_label) list \<Rightarrow> nat" where
  "frames_read c history = length (filter (\<lambda>(_, l). \<exists>t raw. l = Frame_read c t raw) history)"

definition frame_calls :: "nat \<Rightarrow> ('d \<times> live_label) list \<Rightarrow> nat" where
  "frame_calls c history = length (filter (\<lambda>(_, l). \<exists>f. l = Frame_called c f) history)"

lemma frame_counts [simp]:
  "frames_read c (history @ [(d, l)]) = frames_read c history + (if \<exists>t raw. l = Frame_read c t raw then 1 else 0)"
  "frame_calls c (history @ [(d, l)]) = frame_calls c history + (if \<exists>f. l = Frame_called c f then 1 else 0)"
  by (simp_all add: frames_read_def frame_calls_def)

definition frame_credit :: "nat \<Rightarrow> 'd live \<Rightarrow> ('d \<times> live_label) list \<Rightarrow> bool" where
  "frame_credit c s history \<longleftrightarrow>
     (case lv_frames s c of
        None \<Rightarrow> frame_calls c history \<le> 2 * frames_read c history
      | Some (_, _, p) \<Rightarrow> \<exists>n \<le> 2. delivers n p \<and> frame_calls c history + n \<le> 2 * frames_read c history)"

lemma live_step_credit:
  assumes "live_step W V starts D s l s'" and "frame_credit c s history"
  shows "frame_credit c s' (history @ [(d, l)])"
  using assms(1)
proof (rule live_stepE)
  fix server b t raw
  assume "l = Frame_read b t raw" "lv_frames s b = None"
    "s' = s\<lparr>lv_frames := (lv_frames s)(b \<mapsto> (t, raw, execute_prog W (D\<lparr>dep_clock := t\<rparr>) raw))\<rparr>"
  with assms(2) execute_delivers [of W "D\<lparr>dep_clock := t\<rparr>" raw] show ?thesis
    by (cases "b = c") (force simp: frame_credit_def split: option.splits)+
next
  fix b t raw k f p e
  assume *: "l = Frame_called b f" "lv_frames s b = Some (t, raw, Call k)" "k f (lv_store s) = (p, e)"
    "s' = s\<lparr>lv_service := (lv_service s)\<lparr>sv_store := e\<rparr>, lv_frames := (lv_frames s)(b \<mapsto> (t, raw, p))\<rparr>"
  show ?thesis
  proof (cases "b = c")
    case True
    with * assms(2) obtain n where n: "n \<le> 2" "delivers n (Call k)" "frame_calls c history + n \<le> 2 * frames_read c history"
      by (auto simp: frame_credit_def)
    from n(2) obtain j where "n = Suc j" "delivers j (fst (k f (lv_store s)))" by (rule delivers_callE) auto
    with n * True show ?thesis by (auto simp: frame_credit_def intro!: exI [of _ j])
  next
    case False
    with * assms(2) show ?thesis by (auto simp: frame_credit_def split: option.splits)
  qed
next
  fix b t raw out
  assume "l = Frame_sent b t raw out" "lv_frames s b = Some (t, raw, Done (Inr out))"
    "s' = s\<lparr>lv_frames := (lv_frames s)(b := None)\<rparr>"
  with assms(2) show ?thesis by (cases "b = c") (auto simp: frame_credit_def split: option.splits)
qed (use assms(2) in \<open>auto simp: frame_credit_def split: option.splits\<close>)

lemma live_run_credit:
  "live_run W V starts D s history s' \<Longrightarrow> lv_frames s = Map.empty \<Longrightarrow> frame_credit c s' history"
proof (induction rule: live_run.induct)
  case (stay s)
  then show ?case by (simp add: frame_credit_def frame_calls_def)
qed (blast intro: live_step_credit)

text \<open>Served on its own, a frame in flight is answered after the calls it has left.\<close>

lemma frame_finishes:
  assumes "delivers n p" and "lv_frames s c = Some (t, raw, p)" and "lv_http s \<noteq> Stopped"
  shows "\<exists>k \<le> n. \<exists>later s' out. play_live W V starts D s (replicate (Suc k) (Frame_on c f)) = Some (later, s') \<and>
    snd (last later) = Frame_sent c t raw out \<and> lv_frames s' = (lv_frames s)(c := None)"
  using assms
proof (induction arbitrary: s rule: delivers.induct)
  case (delivers_done n x)
  then show ?case by (intro exI [of _ 0]) auto
next
  case (delivers_call n k)
  obtain p d where k: "k f (lv_store s) = (p, d)" by (cases "k f (lv_store s)")
  let ?s = "s\<lparr>lv_service := (lv_service s)\<lparr>sv_store := d\<rparr>, lv_frames := (lv_frames s)(c \<mapsto> (t, raw, p))\<rparr>"
  have "lv_frames ?s c = Some (t, raw, fst (k f (lv_store s)))" "lv_http ?s \<noteq> Stopped"
    and clear: "(lv_frames ?s)(c := None) = (lv_frames s)(c := None)"
    using k delivers_call.prems by simp_all
  from delivers_call.IH [OF this(1,2)] obtain j later s' out where j: "j \<le> n"
    and play: "play_live W V starts D ?s (replicate (Suc j) (Frame_on c f)) = Some (later, s')"
    and fin: "snd (last later) = Frame_sent c t raw out" "lv_frames s' = (lv_frames s)(c := None)"
    unfolding clear by blast
  have "later \<noteq> []" using play by (auto simp: replicate_Suc split: option.splits if_splits)
  moreover have "play_live W V starts D s (replicate (Suc (Suc j)) (Frame_on c f)) = Some ((lv_store s, Frame_called c f) # later, s')"
    using delivers_call.prems k play unfolding replicate_Suc [of "Suc j"] by (simp del: replicate_Suc)
  ultimately show ?case using j fin by (intro exI [of _ "Suc j"]) auto
qed

section \<open>Requests\<close>

lemma request_finishes:
  assumes "play D (lv_service s) (replicate k (Advance i f)) = Some (later, v)" and "lv_http s \<noteq> Stopped"
  shows "play_live W V starts D s (replicate k (Request (Advance i f))) = Some (map (map_prod id Rest) later, s\<lparr>lv_service := v\<rparr>)"
  using assms
proof (induction k arbitrary: s later)
  case (Suc k)
  from Suc.prems(1) obtain l u rest where u: "play_move D (lv_service s) (Advance i f) = Some (l, u)"
    "play D u (replicate k (Advance i f)) = Some (rest, v)" "later = (lv_store s, l) # rest"
    by (auto split: option.splits)
  have "\<not> is_arrival l" using u(1) by (auto split: option.splits prod.splits prog.splits)
  with u Suc.prems(2) Suc.IH [of "s\<lparr>lv_service := u\<rparr>" rest] show ?case by simp
qed simp

text \<open>
  C21. All work ends, with everything in flight together: a REST slot makes at most four database calls per request that arrived in it
  and a connection at most two per frame that was read from it, whatever the calls return; and as long as the
  process runs, serving one request or one frame in flight alone answers it after at most four or two more calls,
  whatever faults these meet.
\<close>

theorem live_work_ends:
  assumes "live_run W V starts D s history s'" and "lv_flight s = Map.empty" and "lv_frames s = Map.empty"
  shows "calls_of i (rest_history history) \<le> 4 * arrivals_of i (rest_history history) \<and>
    frame_calls c history \<le> 2 * frames_read c history \<and>
    (lv_http s' \<noteq> Stopped \<longrightarrow>
       (\<forall>t r p. lv_flight s' i = Some (t, r, p) \<longrightarrow>
          (\<exists>n \<le> 4. \<exists>later s'' result.
             play_live W V starts D s' (replicate (Suc n) (Request (Advance i f))) = Some (later, s'') \<and>
             answers (rest_history later) = [(t, r, result)])) \<and>
       (\<forall>t raw p. lv_frames s' c = Some (t, raw, p) \<longrightarrow>
          (\<exists>n \<le> 2. \<exists>later s'' out. play_live W V starts D s' (replicate (Suc n) (Frame_on c f)) = Some (later, s'') \<and>
             snd (last later) = Frame_sent c t raw out)))"
proof (intro conjI impI allI)
  note calls = service_run_calls [OF rest_run [OF assms(1)] assms(2), of i] and credit = live_run_credit [OF assms(1,3), of c]
  show "calls_of i (rest_history history) \<le> 4 * arrivals_of i (rest_history history)"
    using calls by (cases "lv_flight s' i") fastforce+
  show "frame_calls c history \<le> 2 * frames_read c history"
    using credit by (auto simp: frame_credit_def split: option.splits)
  show "\<exists>n \<le> 4. \<exists>later s'' result.
      play_live W V starts D s' (replicate (Suc n) (Request (Advance i f))) = Some (later, s'') \<and>
      answers (rest_history later) = [(t, r, result)]"
    if "lv_http s' \<noteq> Stopped" "lv_flight s' i = Some (t, r, p)" for t r p
  proof -
    from calls that(2) obtain n where n: "within n p" "n \<le> 4" by blast
    from within_finishes [OF n(1) that(2), of D f] obtain k later v result where k: "k \<le> n"
      and play: "play D (lv_service s') (replicate (Suc k) (Advance i f)) = Some (later, v)" and "answers later = [(t, r, result)]"
      by blast
    with request_finishes [OF play that(1), of W V starts] n(2) show ?thesis
      by (intro exI [of _ k]) (simp add: rest_history_lifted del: replicate_Suc)
  qed
  show "\<exists>n \<le> 2. \<exists>later s'' out. play_live W V starts D s' (replicate (Suc n) (Frame_on c f)) = Some (later, s'') \<and>
      snd (last later) = Frame_sent c t raw out"
    if "lv_http s' \<noteq> Stopped" "lv_frames s' c = Some (t, raw, p)" for t raw p
  proof -
    from credit that(2) obtain n where n: "delivers n p" "n \<le> 2" by (auto simp: frame_credit_def)
    from frame_finishes [OF n(1) that(2,1), of W V starts D f] n(2) show ?thesis by (meson order_trans)
  qed
qed

theorem live_work_ends_witness:
  "\<exists>running history s n later s' out. live_run ref_wire ref_status_wire True ref_deps (launch_live running ref_effects) history s \<and>
     frame_calls 0 history = 1 \<and> frames_read 0 history = 1 \<and> calls_of 1 (rest_history history) = 1 \<and> n \<le> 2 \<and>
     play_live ref_wire ref_status_wire True ref_deps s (replicate (Suc n) (Frame_on 0 (Some (Lost_before ''gone'')))) = Some (later, s') \<and>
     snd (last later) = Frame_sent 0 ref_clock ''list'' out"
proof -
  obtain running where app: "run_state running = sample_app"
    and "startup ref_platform ref_tcp_env = (Inr running, ref_effects)" using ref_process by blast
  let ?s = "launch_live running ref_effects"
  obtain history s where play: "play_live ref_wire ref_status_wire True ref_deps ?s (take 6 live_moves) = Some (history, s)" and
    at: "\<exists>p. lv_frames s 0 = Some (ref_clock, ''list'', p)" "lv_http s \<noteq> Stopped"
      "frame_calls 0 history = 1" "frames_read 0 history = 1" "calls_of 1 (rest_history history) = 1"
    using app by (simp add: live_moves_def live_eval http_eval service_eval sample_defs ref_defs prog_eval
        frame_calls_def frames_read_def calls_of_def)
  note run = play_live_runs [OF play]
  from live_work_ends [OF run launched_empty, of 1 0 "Some (Lost_before ''gone'')"] at(1,2) obtain n later s' out where
    "n \<le> 2" "play_live ref_wire ref_status_wire True ref_deps s (replicate (Suc n) (Frame_on 0 (Some (Lost_before ''gone'')))) = Some (later, s')"
    "snd (last later) = Frame_sent 0 ref_clock ''list'' out"
    by blast
  with run at(3-5) show ?thesis by blast
qed

end
