(* ===== verification/Wire_Format.thy ===== *)
theory Wire_Format
  imports Tcp_Properties Nats_Properties
begin

text \<open>
  The JSON formats of frames and signals: the deserializers that the structs of \<^verbatim>\<open>transport.rs\<close> derive with their attributes
  (\<^verbatim>\<open>deny_unknown_fields\<close>, \<^verbatim>\<open>rename_all\<close>), on JSON values. How text becomes a value is the JSON library's
  business: a parameter, with a reader of a fragment of JSON as its instance.
\<close>

section \<open>Derived deserializers\<close>

datatype json =
    J_null
  | J_bool bool
  | J_number string
  | J_string string
  | J_array "json list"
  | J_object "(string \<times> json) list"

text \<open>
  The fields of a struct that denies unknown fields: an object with no other and no repeated key, or an array of exactly the
  fields in order, which derived deserializers accept as well.
\<close>

fun struct_fields :: "string list \<Rightarrow> json \<Rightarrow> (string \<rightharpoonup> json) option" where
  "struct_fields names (J_object members) =
     (if distinct (map fst members) \<and> set (map fst members) \<subseteq> set names then Some (map_of members) else None)"
| "struct_fields names (J_array values) =
     (if length values = length names then Some (map_of (zip names values)) else None)"
| "struct_fields names _ = None"

fun as_string :: "json \<Rightarrow> string option" where
  "as_string (J_string s) = Some s"
| "as_string _ = None"

definition as_uuid :: "(string \<Rightarrow> uuid option) \<Rightarrow> json \<Rightarrow> uuid option" where
  "as_uuid parse_uuid v = Option.bind (as_string v) parse_uuid"

text \<open>An enum without data is its name as a string, or an object from its name to null.\<close>

definition as_operation :: "json \<Rightarrow> operation option" where
  "as_operation v =
     (if v = J_string ''list_cases'' \<or> v = J_object [(''list_cases'', J_null)] then Some ListCases else None)"

definition FRAME_FIELDS :: "string list" where
  "FRAME_FIELDS = [''request_id'', ''tenant_id'', ''bearer_token'', ''operation'']"

definition frame_request_of :: "(string \<Rightarrow> uuid option) \<Rightarrow> json \<Rightarrow> frame_request option" where
  "frame_request_of parse_uuid v =
     Option.bind (struct_fields FRAME_FIELDS v) (\<lambda>field.
     Option.bind (Option.bind (field ''request_id'') (as_uuid parse_uuid)) (\<lambda>request_id.
     Option.bind (Option.bind (field ''tenant_id'') (as_uuid parse_uuid)) (\<lambda>tenant_id.
     Option.bind (Option.bind (field ''bearer_token'') as_string) (\<lambda>bearer_token.
     Option.bind (Option.bind (field ''operation'') as_operation) (\<lambda>operation.
     Some \<lparr>fr_request_id = request_id, fr_tenant_id = tenant_id, fr_bearer_token = bearer_token,
           fr_operation = operation\<rparr>)))))"

definition STATUS_FIELDS :: "string list" where
  "STATUS_FIELDS = [''schema'', ''operation_id'']"

definition status_request_of :: "(string \<Rightarrow> uuid option) \<Rightarrow> json \<Rightarrow> status_request option" where
  "status_request_of parse_uuid v =
     Option.bind (struct_fields STATUS_FIELDS v) (\<lambda>field.
     Option.bind (Option.bind (field ''schema'') as_string) (\<lambda>schema.
     Option.bind (Option.bind (field ''operation_id'') (as_uuid parse_uuid)) (\<lambda>operation_id.
     Some \<lparr>sr_schema = schema, sr_operation_id = operation_id\<rparr>)))"

text \<open>The wire parses by reading a JSON value and deserializing it.\<close>

definition reads_frames :: "(bytes \<Rightarrow> json option) \<Rightarrow> (string \<Rightarrow> uuid option) \<Rightarrow> wire \<Rightarrow> bool" where
  "reads_frames read parse_uuid W \<longleftrightarrow>
     (\<forall>b. parse_request W b = Option.bind (read b) (frame_request_of parse_uuid))"

definition reads_signals :: "(bytes \<Rightarrow> json option) \<Rightarrow> (string \<Rightarrow> uuid option) \<Rightarrow> status_wire \<Rightarrow> bool" where
  "reads_signals read parse_uuid W \<longleftrightarrow>
     (\<forall>b. parse_status_request W b = Option.bind (read b) (status_request_of parse_uuid))"

section \<open>A reader of a fragment of JSON\<close>

text \<open>Objects, arrays, strings without escapes, true, false and null, read with one unit of fuel per byte.\<close>

fun skip_space :: "string \<Rightarrow> string" where
  "skip_space [] = []"
| "skip_space (c # cs) = (if byte c \<in> {9, 10, 13, 32} then skip_space cs else c # cs)"

fun read_chars :: "string \<Rightarrow> (string \<times> string) option" where
  "read_chars [] = None"
| "read_chars (c # cs) =
     (if byte c = 34 then Some ([], cs)
      else if byte c = 92 \<or> byte c < 32 then None
      else map_option (apfst (Cons c)) (read_chars cs))"

fun read_value :: "string \<Rightarrow> string \<Rightarrow> (json \<times> string) option"
  and read_items :: "string \<Rightarrow> string \<Rightarrow> (json list \<times> string) option"
  and read_members :: "string \<Rightarrow> string \<Rightarrow> ((string \<times> json) list \<times> string) option" where
  "read_value [] s = None"
| "read_value (_ # fuel) s =
     (case skip_space s of
        [] \<Rightarrow> None
      | c # cs \<Rightarrow>
          if c = CHR 0x22 then map_option (apfst J_string) (read_chars cs)
          else if c = CHR ''['' then
            (case skip_space cs of
               CHR '']'' # rest \<Rightarrow> Some (J_array [], rest)
             | _ \<Rightarrow> map_option (apfst J_array) (read_items fuel cs))
          else if c = CHR ''{'' then
            (case skip_space cs of
               CHR ''}'' # rest \<Rightarrow> Some (J_object [], rest)
             | _ \<Rightarrow> map_option (apfst J_object) (read_members fuel cs))
          else
            (case strip_prefix ''null'' (c # cs) of
               Some rest \<Rightarrow> Some (J_null, rest)
             | None \<Rightarrow>
                 (case strip_prefix ''true'' (c # cs) of
                    Some rest \<Rightarrow> Some (J_bool True, rest)
                  | None \<Rightarrow> map_option (Pair (J_bool False)) (strip_prefix ''false'' (c # cs)))))"
| "read_items [] s = None"
| "read_items (_ # fuel) s =
     (case read_value fuel s of
        None \<Rightarrow> None
      | Some (v, rest) \<Rightarrow>
          (case skip_space rest of
             [] \<Rightarrow> None
           | c # cs \<Rightarrow>
               if c = CHR '','' then map_option (apfst (Cons v)) (read_items fuel cs)
               else if c = CHR '']'' then Some ([v], cs) else None))"
| "read_members [] s = None"
| "read_members (_ # fuel) s =
     (case skip_space s of
        [] \<Rightarrow> None
      | q # cs \<Rightarrow>
          if q \<noteq> CHR 0x22 then None
          else
            (case read_chars cs of
               None \<Rightarrow> None
             | Some (key, rest) \<Rightarrow>
                 (case skip_space rest of
                    [] \<Rightarrow> None
                  | colon # cs \<Rightarrow>
                      if colon \<noteq> CHR '':'' then None
                      else
                        (case read_value fuel cs of
                           None \<Rightarrow> None
                         | Some (v, rest) \<Rightarrow>
                             (case skip_space rest of
                                [] \<Rightarrow> None
                              | c # cs \<Rightarrow>
                                  if c = CHR '','' then map_option (apfst (Cons (key, v))) (read_members fuel cs)
                                  else if c = CHR ''}'' then Some ([(key, v)], cs) else None)))))"

definition read_json :: "bytes \<Rightarrow> json option" where
  "read_json b =
     (case read_value (b @ b) b of
        None \<Rightarrow> None
      | Some (v, rest) \<Rightarrow> if skip_space rest = [] then Some v else None)"

section \<open>What is accepted\<close>

lemma two_members:
  assumes "distinct (map fst members)" and "set (map fst members) \<subseteq> {a, b}" and "map_of members a = Some x"
    and "map_of members b = Some y" and "a \<noteq> b"
  shows "members = [(a, x), (b, y)] \<or> members = [(b, y), (a, x)]"
proof -
  have "card (set (map fst members)) \<le> card {a, b}" by (rule card_mono [OF _ assms(2)]) simp
  then have "length members \<le> 2" using assms(1,5) distinct_card [OF assms(1)] by simp
  then consider "members = []" | p where "members = [p]" | p q where "members = [p, q]"
    by (cases members rule: remdups_adj.cases) auto
  then show ?thesis using assms by cases (auto split: if_splits)
qed

lemma status_request_iff:
  "status_request_of parse_uuid v = Some \<lparr>sr_schema = s, sr_operation_id = i\<rparr> \<longleftrightarrow>
     (\<exists>t. parse_uuid t = Some i \<and>
        (v = J_object [(''schema'', J_string s), (''operation_id'', J_string t)] \<or>
         v = J_object [(''operation_id'', J_string t), (''schema'', J_string s)] \<or>
         v = J_array [J_string s, J_string t]))" (is "?decoded \<longleftrightarrow> ?shape")
proof
  assume ?decoded
  then obtain field x y t where field: "struct_fields STATUS_FIELDS v = Some field"
    and xy: "field ''schema'' = Some x" "field ''operation_id'' = Some y"
    and x: "as_string x = Some s" and y: "as_string y = Some t" and t: "parse_uuid t = Some i"
    by (auto simp: status_request_of_def as_uuid_def bind_eq_Some_conv)
  have strings: "x = J_string s" "y = J_string t" using x y by (auto elim: as_string.elims)
  show ?shape
  proof (cases v)
    case (J_object members)
    with field have "distinct (map fst members)" "set (map fst members) \<subseteq> {''schema'', ''operation_id''}" "field = map_of members"
      by (auto simp: STATUS_FIELDS_def split: if_splits)
    with two_members [of members "''schema''" "''operation_id''" x y] xy J_object strings t show ?thesis by auto
  next
    case (J_array vs)
    with field obtain a b where "vs = [a, b]" and "field = map_of (zip STATUS_FIELDS vs)"
      by (auto simp: STATUS_FIELDS_def length_Suc_conv split: if_splits)
    with xy strings t J_array show ?thesis by (auto simp: STATUS_FIELDS_def)
  qed (use field in simp_all)
qed (auto simp: status_request_of_def STATUS_FIELDS_def as_uuid_def)

text \<open>The message that asks for the status under an operation id.\<close>

definition asks_status :: "(bytes \<Rightarrow> json option) \<Rightarrow> (string \<Rightarrow> uuid option) \<Rightarrow> bytes \<Rightarrow> uuid \<Rightarrow> bool" where
  "asks_status read parse_uuid m i \<longleftrightarrow> length m \<le> 4096 \<and>
     (\<exists>t. parse_uuid t = Some i \<and>
        (read m = Some (J_object [(''schema'', J_string ''apme.async-status-request.v1''), (''operation_id'', J_string t)]) \<or>
         read m = Some (J_object [(''operation_id'', J_string t), (''schema'', J_string ''apme.async-status-request.v1'')]) \<or>
         read m = Some (J_array [J_string ''apme.async-status-request.v1'', J_string t])))"

lemma asks_status_iff: "reads_signals read parse_uuid W \<Longrightarrow> decode_signal W m = Inr i \<longleftrightarrow> asks_status read parse_uuid m i"
  by (cases "read m")
    (auto simp: asks_status_def decode_signal_Inr_iff reads_signals_def status_request_iff MAX_SIGNAL_BYTES_def REQUEST_SCHEMA_def)

section \<open>Frames\<close>

text \<open>What a JSON value says when it is a frame: these four fields, and what the request has of them.\<close>

fun says :: "(string \<Rightarrow> uuid option) \<Rightarrow> json \<Rightarrow> frame_request \<Rightarrow> bool" where
  "says parse_uuid (J_object members) request \<longleftrightarrow>
     distinct (map fst members) \<and> set (map fst members) = set FRAME_FIELDS \<and>
     (''bearer_token'', J_string (fr_bearer_token request)) \<in> set members \<and>
     (\<exists>t. (''tenant_id'', J_string t) \<in> set members \<and> parse_uuid t = Some (fr_tenant_id request)) \<and>
     (\<exists>t. (''request_id'', J_string t) \<in> set members \<and> parse_uuid t = Some (fr_request_id request))"
| "says parse_uuid (J_array values) request \<longleftrightarrow>
     (\<exists>t t' v. values = [J_string t, J_string t', J_string (fr_bearer_token request), v] \<and>
        parse_uuid t = Some (fr_request_id request) \<and> parse_uuid t' = Some (fr_tenant_id request))"
| "says parse_uuid _ request \<longleftrightarrow> False"

lemma as_uuid_iff: "as_uuid parse_uuid v = Some i \<longleftrightarrow> (\<exists>t. v = J_string t \<and> parse_uuid t = Some i)"
  by (cases v) (auto simp: as_uuid_def)

lemma as_string_iff: "as_string v = Some s \<longleftrightarrow> v = J_string s"
  by (cases v) auto

lemma frame_request_says:
  assumes "frame_request_of parse_uuid v = Some request"
  shows "says parse_uuid v request"
proof -
  from assms obtain field t t' v4 where field: "struct_fields FRAME_FIELDS v = Some field"
    and f: "field ''request_id'' = Some (J_string t)" "field ''tenant_id'' = Some (J_string t')"
      "field ''bearer_token'' = Some (J_string (fr_bearer_token request))" "field ''operation'' = Some v4"
    and ids: "parse_uuid t = Some (fr_request_id request)" "parse_uuid t' = Some (fr_tenant_id request)"
    by (auto simp: frame_request_of_def bind_eq_Some_conv as_uuid_iff as_string_iff)
  show ?thesis
  proof (cases v)
    case (J_object members)
    with field have d: "distinct (map fst members)" and sub: "set (map fst members) \<subseteq> set FRAME_FIELDS"
      and field': "field = map_of members"
      by (auto split: if_splits)
    have "x \<in> set (map fst members)" if "field x = Some y" for x y
      using that field' by (force dest: map_of_SomeD)
    with f sub have "set (map fst members) = set FRAME_FIELDS" by (auto simp: FRAME_FIELDS_def)
    with d f ids J_object show ?thesis unfolding field' by (auto dest!: map_of_SomeD)
  next
    case (J_array vs)
    with field obtain a b c e where "vs = [a, b, c, e]" and "field = map_of (zip FRAME_FIELDS vs)"
      by (auto simp: FRAME_FIELDS_def length_Suc_conv split: if_splits)
    with f ids J_array show ?thesis by (auto simp: FRAME_FIELDS_def)
  qed (use field in simp_all)
qed

text \<open>
  C27. Frames are strict: a frame whose JSON is not exactly the four fields of a request (an object with these keys, each once, or the array of
  the four) is refused as invalid without any call to authority or database; otherwise token, tenant and
  request id are those it says, so nothing else in a frame (a subject, a role, a scope) can reach authorization.
\<close>

theorem frames_are_strict:
  assumes "reads_frames read parse_uuid W"
  shows "execute W D frame w = (encode_failure W 0 ''invalid_request'', w) \<or>
    (\<exists>v request. read frame = Some v \<and> parse_request W frame = Some request \<and> says parse_uuid v request)"
proof (cases "parse_request W frame")
  case None
  then show ?thesis by (simp add: execute_def)
next
  case (Some request)
  with assms obtain v where "read frame = Some v" "frame_request_of parse_uuid v = Some request"
    by (auto simp: reads_frames_def bind_eq_Some_conv)
  with Some show ?thesis by (auto dest: frame_request_says)
qed


section \<open>Sample texts\<close>

definition sample_uuid :: string where
  "sample_uuid = ''018f5cc6-6d8b-7b2a-9f38-269e6a7b1f11''"

definition read_uuid :: "string \<Rightarrow> uuid option" where
  "read_uuid s = (if s = sample_uuid then Some 1 else None)"

definition json_wire :: wire where
  "json_wire =
     \<lparr>parse_request = (\<lambda>b. Option.bind (read_json b) (frame_request_of read_uuid)), print_response = (\<lambda>_. None),
      decode_frame = (\<lambda>_ b. Some b), encode_frame = (\<lambda>_ b. Some b)\<rparr>"

definition json_status_wire :: status_wire where
  "json_status_wire =
     \<lparr>parse_status_request = (\<lambda>b. Option.bind (read_json b) (status_request_of read_uuid)),
      print_status_response = (\<lambda>_. Some ''ready''), show_uuid = (\<lambda>_. sample_uuid)\<rparr>"

definition signal_text :: bytes where
  "signal_text = ''{\"schema\":\"apme.async-status-request.v1\",\"operation_id\":\"'' @ sample_uuid @ ''\"}''"

definition frame_text :: "string \<Rightarrow> bytes" where
  "frame_text extra = ''{\"request_id\":\"'' @ sample_uuid @ ''\",\"tenant_id\":\"'' @ sample_uuid @
     ''\",\"bearer_token\":\"synthetic.token\",\"operation\":\"list_cases\"'' @ extra @ ''}''"

lemma json_wires: "reads_frames read_json read_uuid json_wire" "reads_signals read_json read_uuid json_status_wire"
  by (simp_all add: reads_frames_def reads_signals_def json_wire_def json_status_wire_def)

lemma signal_text_read:
  "read_json signal_text =
     Some (J_object [(''schema'', J_string ''apme.async-status-request.v1''), (''operation_id'', J_string sample_uuid)])"
  by (simp add: signal_text_def sample_uuid_def read_json_def string_eval)

lemma frame_text_read:
  "read_json (frame_text []) =
     Some (J_object [(''request_id'', J_string sample_uuid), (''tenant_id'', J_string sample_uuid),
       (''bearer_token'', J_string ''synthetic.token''), (''operation'', J_string ''list_cases'')])"
  "read_json (frame_text '',\"subject\":\"injected\"'') =
     Some (J_object [(''request_id'', J_string sample_uuid), (''tenant_id'', J_string sample_uuid),
       (''bearer_token'', J_string ''synthetic.token''), (''operation'', J_string ''list_cases''),
       (''subject'', J_string ''injected'')])"
  by (simp_all add: frame_text_def sample_uuid_def read_json_def string_eval)

theorem frames_are_strict_witness:
  "execute json_wire ref_deps (frame_text '',\"subject\":\"injected\"'') (app_cases case_app) =
     (encode_failure json_wire 0 ''invalid_request'', app_cases case_app)"
proof -
  have "\<not> says read_uuid v request" if "read_json (frame_text '',\"subject\":\"injected\"'') = Some v" for v request
    using that by (auto simp: frame_text_read FRAME_FIELDS_def dest!: equalityD1)
  with frames_are_strict [OF json_wires(1), of ref_deps "frame_text '',\"subject\":\"injected\"''" "app_cases case_app"]
  show ?thesis by blast
qed

end
