(* ===== verification/Json_Text.thy ===== *)
theory Json_Text
  imports Wire_Format
begin

text \<open>
  A printer for the fragment of JSON that the reader of \<open>Wire_Format\<close> reads, and the round trip through both: the
  instance for the JSON library of which the model only asks that reading a printed value gives that value.
\<close>

section \<open>Printing\<close>

definition plain_char :: "char \<Rightarrow> bool" where
  "plain_char c \<longleftrightarrow> 32 \<le> byte c \<and> byte c \<noteq> 34 \<and> byte c \<noteq> 92"

definition quoted :: "string \<Rightarrow> string" where
  "quoted s = CHR 0x22 # s @ [CHR 0x22]"

fun show_json :: "json \<Rightarrow> string"
  and show_items :: "json list \<Rightarrow> string"
  and show_members :: "(string \<times> json) list \<Rightarrow> string" where
  "show_json J_null = ''null''"
| "show_json (J_bool b) = (if b then ''true'' else ''false'')"
| "show_json (J_number n) = n"
| "show_json (J_string s) = quoted s"
| "show_json (J_array values) = ''['' @ show_items values @ '']''"
| "show_json (J_object members) = ''{'' @ show_members members @ ''}''"
| "show_items [] = []"
| "show_items [v] = show_json v"
| "show_items (v # w # vs) = show_json v @ '','' @ show_items (w # vs)"
| "show_members [] = []"
| "show_members [(k, v)] = quoted k @ '':'' @ show_json v"
| "show_members ((k, v) # m # ms) = quoted k @ '':'' @ show_json v @ '','' @ show_members (m # ms)"

text \<open>The fragment: no numbers, and strings of characters that are written as they are.\<close>

fun plain_json :: "json \<Rightarrow> bool" where
  "plain_json J_null \<longleftrightarrow> True"
| "plain_json (J_bool b) \<longleftrightarrow> True"
| "plain_json (J_number n) \<longleftrightarrow> False"
| "plain_json (J_string s) \<longleftrightarrow> list_all plain_char s"
| "plain_json (J_array values) \<longleftrightarrow> list_all plain_json values"
| "plain_json (J_object members) \<longleftrightarrow> list_all (\<lambda>(k, v). list_all plain_char k \<and> plain_json v) members"

definition write_json :: "json \<Rightarrow> bytes option" where
  "write_json v = (if plain_json v then Some (show_json v) else None)"

section \<open>Reading what was printed\<close>

lemma read_chars_quoted: "list_all plain_char s \<Longrightarrow> read_chars (s @ CHR 0x22 # rest) = Some (s, rest)"
  by (induction s) (auto simp: plain_char_def byte_def)

lemma show_json_starts:
  assumes "plain_json v"
  obtains c cs where "show_json v = c # cs" "c \<in> set ''ntf[{'' \<or> c = CHR 0x22"
proof -
  from assms have "\<exists>c cs. show_json v = c # cs \<and> (c \<in> set ''ntf[{'' \<or> c = CHR 0x22)"
    by (cases v) (auto simp: quoted_def)
  with that show thesis by blast
qed

text \<open>What follows a value: the rest of the items, or of the members.\<close>

lemma skip_space_show: "plain_json v \<Longrightarrow> skip_space (show_json v @ rest) = show_json v @ rest"
  by (rule show_json_starts [of v]) (auto simp: byte_def)

lemma quoted_nonempty [simp]: "quoted s \<noteq> []"
  by (simp add: quoted_def)

lemma quoted_starts: "quoted s @ r = CHR 0x22 # s @ CHR 0x22 # r"
  by (simp add: quoted_def)

lemma read_array:
  assumes "list_all plain_json vs"
    and "vs \<noteq> [] \<Longrightarrow> read_items fs (show_items vs @ CHR '']'' # rest) = Some (vs, rest)"
  shows "read_value (f # fs) (show_json (J_array vs) @ rest) = Some (J_array vs, rest)"
proof (cases vs)
  case (Cons v vs')
  then have "\<exists>tl. show_items vs = show_json v @ tl" by (cases vs') auto
  moreover obtain c cs where c: "show_json v = c # cs" "c \<in> set ''ntf[{'' \<or> c = CHR 0x22"
    using assms(1) Cons show_json_starts [of v] by auto
  ultimately obtain tl where "show_items vs = c # tl" by auto
  with c(2) have "skip_space (show_items vs @ CHR '']'' # rest) = c # tl @ CHR '']'' # rest"
    by (auto simp: byte_def)
  with assms(2) c(2) Cons show ?thesis by (auto simp: byte_def)
qed (simp add: byte_def)

lemma read_object:
  assumes "ms \<noteq> [] \<Longrightarrow> read_members fs (show_members ms @ CHR ''}'' # rest) = Some (ms, rest)"
  shows "read_value (f # fs) (show_json (J_object ms) @ rest) = Some (J_object ms, rest)"
proof (cases ms)
  case (Cons m ms')
  then have "\<exists>tl. show_members ms = CHR 0x22 # tl" by (cases m; cases ms') (auto simp: quoted_def)
  then obtain tl where "show_members ms = CHR 0x22 # tl" ..
  with assms Cons show ?thesis by (auto simp: byte_def)
qed (simp add: byte_def)

text \<open>One unit of fuel per character is enough.\<close>

lemma read_shown:
  "plain_json v \<Longrightarrow> length (show_json v) \<le> length fuel \<Longrightarrow> read_value fuel (show_json v @ rest) = Some (v, rest)"
  "list_all plain_json vs \<Longrightarrow> vs \<noteq> [] \<Longrightarrow> length (show_items vs) < length fuel \<Longrightarrow>
     read_items fuel (show_items vs @ CHR '']'' # rest) = Some (vs, rest)"
  "list_all (\<lambda>(k, v). list_all plain_char k \<and> plain_json v) ms \<Longrightarrow> ms \<noteq> [] \<Longrightarrow> length (show_members ms) < length fuel \<Longrightarrow>
     read_members fuel (show_members ms @ CHR ''}'' # rest) = Some (ms, rest)"
proof (induction v and vs and ms arbitrary: fuel rest and fuel rest and fuel rest
    rule: show_json_show_items_show_members.induct)
  case 1
  then show ?case by (cases fuel) (auto simp: byte_def)
next
  case (2 b)
  then show ?case by (cases fuel; cases b) (auto simp: byte_def)
next
  case (4 s)
  then show ?case by (cases fuel) (auto simp: quoted_starts byte_def read_chars_quoted)
next
  case (5 vs)
  then obtain f fs where fuel: "fuel = f # fs" by (cases fuel) auto
  show ?case unfolding fuel by (rule read_array) (use 5 fuel in auto)
next
  case (6 ms)
  then obtain f fs where fuel: "fuel = f # fs" by (cases fuel) auto
  show ?case unfolding fuel by (rule read_object) (use 6 fuel in auto)
next
  case (8 v)
  then obtain f fs where "fuel = f # fs" by (cases fuel) auto
  with 8 show ?case by (simp add: byte_def)
next
  case (9 v w vs)
  then obtain f fs where fuel: "fuel = f # fs" by (cases fuel) auto
  then have "read_value fs (show_json v @ r) = Some (v, r)" for r using 9 by simp
  with fuel 9 show ?case by (simp add: byte_def)
next
  case (11 k v)
  then obtain f fs where fuel: "fuel = f # fs" by (cases fuel) auto
  then have "read_value fs (show_json v @ r) = Some (v, r)" for r using 11 by simp
  with fuel 11 show ?case by (simp add: byte_def quoted_starts read_chars_quoted)
next
  case (12 k v m ms)
  then obtain f fs where fuel: "fuel = f # fs" by (cases fuel) auto
  then have "read_value fs (show_json v @ r) = Some (v, r)" for r using 12 by simp
  with fuel 12 show ?case by (simp add: byte_def quoted_starts read_chars_quoted)
qed simp_all

text \<open>The round trip: a printed value is read as the value.\<close>

lemma read_written: "write_json v = Some b \<Longrightarrow> read_json b = Some v"
  using read_shown(1) [of v "b @ b" "[]"] by (auto simp: write_json_def read_json_def split: if_splits)

end
