(* ===== verification/Reply_Types.thy ===== *)
theory Reply_Types
  imports Http_Retries
begin

text \<open>The type of the REST surface: which responses each endpoint can give.\<close>

text \<open>The successful replies of a request.\<close>

fun reply_typed :: "request \<Rightarrow> nat \<Rightarrow> reply_body \<Rightarrow> bool" where
  "reply_typed Index_request status body \<longleftrightarrow>
     status = 200 \<and> body = Index_body ''apme-api'' ''Apostille Me'' ''/api/v1/cases'' ''/ws''"
| "reply_typed Health_request status body \<longleftrightarrow> status = 200 \<and> body = Health_body ''ok'' ''apme-api'' ''0.1.0''"
| "reply_typed Metrics_request status body \<longleftrightarrow> status = 200 \<and> (\<exists>n. body = Metrics_body (metrics_text n))"
| "reply_typed (List_request _) status body \<longleftrightarrow> status = 200 \<and> (\<exists>cs. body = Cases_body cs)"
| "reply_typed (Get_request i _) status body \<longleftrightarrow> status = 200 \<and> (\<exists>c. body = Case_body c \<and> pc_id c = i)"
| "reply_typed (Create_request _ _) status body \<longleftrightarrow>
     (\<exists>m. body = Mutation_body m \<and> status = (if mr_replayed m then 200 else 201))"
| "reply_typed (Transition_request _ _ _) status body \<longleftrightarrow> status = 200 \<and> (\<exists>m. body = Mutation_body m)"
| "reply_typed (Rotate_request _ _ _) status body \<longleftrightarrow> status = 200 \<and> (\<exists>m. body = Mutation_body m)"
| "reply_typed (Socket_request q _) status body \<longleftrightarrow>
     status = 101 \<and> body = Upgraded \<lparr>cs_tenant_id = wq_tenant_id q, cs_case_id = wq_case_id q\<rparr>"

text \<open>The failures: status and code.\<close>

definition error_codes :: "(nat \<times> string) list" where
  "error_codes =
     [(401, ''unauthorized''), (403, ''forbidden''), (404, ''not_found''), (409, ''idempotency_key_reused''),
      (409, ''stale_version''), (409, ''invalid_transition''), (409, ''key_version_rollback''), (422, ''validation''),
      (503, ''temporarily_unavailable'')]"

definition response_typed :: "request \<Rightarrow> response \<Rightarrow> bool" where
  "response_typed r response \<longleftrightarrow>
     (case response of
        Success status body \<Rightarrow> reply_typed r status body
      | Failure status code message \<Rightarrow>
          (status, code) \<in> set error_codes \<and> (message \<noteq> None \<longleftrightarrow> status = 422) \<and>
          endpoint_of r \<notin> {Index, Health} \<and> (endpoint_of r = Metrics \<longrightarrow> status = 503))"

lemma error_response_typed:
  "case error_response e of (status, code, message) \<Rightarrow>
     (status, code) \<in> set error_codes \<and> (message \<noteq> None \<longleftrightarrow> status = 422)"
  by (cases e rule: error_response.cases) (simp_all add: error_codes_def)

lemma handle_Inr_typed: "handle D r s = (Inr (status, body), s') \<Longrightarrow> reply_typed r status body"
proof (cases "mutation_of r")
  case (Some x)
  assume "handle D r s = (Inr (status, body), s')"
  with Some have "mutation_handler D (headers_of r) (run_for D x) (success_status x) s = (Inr (status, body), s')"
    by (simp add: handle_mutation)
  then obtain m where "status = success_status x m" "body = Mutation_body m"
    by (rule mutation_handler_Inr) auto
  with Some show ?thesis by (cases r) (auto simp: success_status_def)
next
  case None
  assume run: "handle D r s = (Inr (status, body), s')"
  show ?thesis
  proof (cases r)
    case (List_request h)
    with run have "list_cases_handler D h s = (Inr (status, body), s')" by simp
    then show ?thesis by (rule list_handler_Inr) (simp add: List_request)
  next
    case (Get_request i h)
    with run have "get_case_handler D i h s = (Inr (status, body), s')" by simp
    then show ?thesis by (rule get_handler_Inr) (simp add: Get_request)
  next
    case (Socket_request q h)
    with run show ?thesis by (auto simp: websocket_handler_def result_simps)
  qed (use None run in \<open>auto simp: index_handler_def health_handler_def metrics_handler_def result_simps\<close>)
qed

text \<open>
  C31. The REST surface is well typed: every endpoint answers with the status and the kind of body that belong to it
  (a created case with 201 and its replay with 200, a single case with the identifier that was asked for, an upgrade with the
  subscription that was asked for), or with one of nine fixed pairs of status and code, where exactly validation
  failures carry a message; the index and health endpoints never fail, and metrics only for want of the database.
\<close>

theorem responses_well_typed: "response_typed r (respond (fst (handle D r s)))"
proof -
  obtain result s' where run: "handle D r s = (result, s')" by (cases "handle D r s")
  show ?thesis
  proof (cases result)
    case (Inr reply)
    with run handle_Inr_typed [of D r s "fst reply" "snd reply" s'] show ?thesis
      by (auto simp: response_typed_def respond_def split: prod.splits)
  next
    case (Inl e)
    have "endpoint_of r \<notin> {Index, Health}" and "endpoint_of r = Metrics \<Longrightarrow> fst (error_response e) = 503"
      using run Inl by (cases r; auto simp: index_handler_def health_handler_def metrics_handler_def result_simps)+
    with run Inl error_response_typed [of e] show ?thesis
      by (simp add: response_typed_def respond_def split: prod.splits)
  qed
qed

end
