(* ===== verification/Json_Replies.thy ===== *)
theory Json_Replies
  imports Json_Text Reply_Types Web_Socket
begin

text \<open>
  What the service writes as JSON: the serializers that the structs of \<^verbatim>\<open>main.rs\<close> and \<^verbatim>\<open>transport.rs\<close> derive with their attributes
  (\<^verbatim>\<open>skip_serializing_if\<close>) and the \<^verbatim>\<open>json!\<close> literals, as JSON values. How the structs of the interface crate serialize, the text of
  a UUID and the printing of a value are parameters.
\<close>

section \<open>Values\<close>

record renderer =
  uuid_text :: "uuid \<Rightarrow> string"
  case_json :: "persisted_case \<Rightarrow> json"
  mutation_json :: "case_mutation_result \<Rightarrow> json"
  receipt_json :: "case_event_receipt \<Rightarrow> json"

definition uuid_json :: "renderer \<Rightarrow> uuid \<Rightarrow> json" where
  "uuid_json J i = J_string (uuid_text J i)"

definition tenant_event_json :: "renderer \<Rightarrow> tenant_event \<Rightarrow> json" where
  "tenant_event_json J event =
     J_object [(''tenant_id'', uuid_json J (te_tenant_id event)), (''case_id'', uuid_json J (te_case_id event)),
       (''event'', receipt_json J (te_event event))]"

definition error_json :: "string \<Rightarrow> string option \<Rightarrow> json" where
  "error_json code message =
     (case message of
        Some message \<Rightarrow> J_object [(''error'', J_string code), (''message'', J_string message)]
      | None \<Rightarrow> J_object [(''error'', J_string code)])"

text \<open>The body of an HTTP response: a JSON value, plain text, or none (the upgrade to a WebSocket).\<close>

datatype content = Json_content json | Text_content string | No_content

fun content_of :: "renderer \<Rightarrow> reply_body \<Rightarrow> content" where
  "content_of J (Index_body service product rest websocket) =
     Json_content (J_object
       [(''service'', J_string service), (''product'', J_string product), (''rest'', J_string rest),
        (''websocket'', J_string websocket)])"
| "content_of J (Health_body status service version) =
     Json_content (J_object
       [(''status'', J_string status), (''service'', J_string service), (''version'', J_string version)])"
| "content_of J (Metrics_body text) = Text_content text"
| "content_of J (Cases_body cs) = Json_content (J_array (map (case_json J) cs))"
| "content_of J (Case_body c) = Json_content (case_json J c)"
| "content_of J (Mutation_body m) = Json_content (mutation_json J m)"
| "content_of J (Upgraded _) = No_content"

definition http_response :: "renderer \<Rightarrow> api_error + reply \<Rightarrow> nat \<times> content" where
  "http_response J result =
     (case respond result of
        Success status body \<Rightarrow> (status, content_of J body)
      | Failure status code message \<Rightarrow> (status, Json_content (error_json code message)))"

fun payload_json :: "renderer \<Rightarrow> frame_payload \<Rightarrow> json" where
  "payload_json J (Cases_payload cs mode) =
     J_object [(''cases'', J_array (map (case_json J) cs)), (''mode'', J_string mode)]"

text \<open>A field that is \<^verbatim>\<open>None\<close> is left out.\<close>

definition frame_response_json :: "renderer \<Rightarrow> frame_response \<Rightarrow> json" where
  "frame_response_json J r =
     J_object ([(''request_id'', uuid_json J (fp_request_id r)), (''status'', J_string (fp_status r))] @
       (case fp_payload r of None \<Rightarrow> [] | Some payload \<Rightarrow> [(''payload'', payload_json J payload)]) @
       (case fp_error r of None \<Rightarrow> [] | Some error \<Rightarrow> [(''error'', J_string error)]))"

definition status_response_json :: "renderer \<Rightarrow> status_response \<Rightarrow> json" where
  "status_response_json J r =
     J_object
       [(''schema'', J_string (ss_schema r)), (''operation_id'', uuid_json J (ss_operation_id r)),
        (''status'', J_string (ss_status r)), (''service'', J_string (ss_service r)),
        (''database_ready'', J_bool (ss_database_ready r))]"

text \<open>
  The wire prints by serializing and writing the value. Of the JSON library the properties below ask that reading what was
  written gives the value.
\<close>

definition prints_frames :: "(json \<Rightarrow> bytes option) \<Rightarrow> renderer \<Rightarrow> wire \<Rightarrow> bool" where
  "prints_frames write J W \<longleftrightarrow> (\<forall>r. print_response W r = write (frame_response_json J r))"

definition prints_signals :: "(json \<Rightarrow> bytes option) \<Rightarrow> renderer \<Rightarrow> status_wire \<Rightarrow> bool" where
  "prints_signals write J W \<longleftrightarrow> (\<forall>r. print_status_response W r = write (status_response_json J r))"

definition prints_events :: "(json \<Rightarrow> bytes option) \<Rightarrow> renderer \<Rightarrow> (tenant_event \<Rightarrow> string option) \<Rightarrow> bool" where
  "prints_events write J to_json \<longleftrightarrow> (\<forall>e. to_json e = write (tenant_event_json J e))"

definition reads_back :: "(bytes \<Rightarrow> json option) \<Rightarrow> (json \<Rightarrow> bytes option) \<Rightarrow> bool" where
  "reads_back read write \<longleftrightarrow> (\<forall>v b. write v = Some b \<longrightarrow> read b = Some v)"

lemma reads_back_instance: "reads_back read_json write_json"
  by (simp add: reads_back_def read_written)

section \<open>What the peer of a frame reads\<close>

definition failure_json :: "renderer \<Rightarrow> uuid \<Rightarrow> string \<Rightarrow> json" where
  "failure_json J i code =
     J_object [(''request_id'', uuid_json J i), (''status'', J_string ''error''), (''error'', J_string code)]"

definition success_json :: "renderer \<Rightarrow> uuid \<Rightarrow> json list \<Rightarrow> json" where
  "success_json J i items =
     J_object [(''request_id'', uuid_json J i), (''status'', J_string ''ok''),
       (''payload'', J_object [(''cases'', J_array items), (''mode'', J_string ''stateful_mtls_tcp'')])]"

lemma ok_response_json:
  "frame_response_json J (ok_response request cs) = success_json J (fr_request_id request) (map (case_json J) cs)"
  by (simp add: frame_response_json_def ok_response_def success_json_def)

lemma encode_failure_read:
  assumes "prints_frames write J W" and "reads_back read write" and "write (failure_json J i code) \<noteq> None"
  shows "read (encode_failure W i code) = Some (failure_json J i code)"
proof -
  have "frame_response_json J \<lparr>fp_request_id = i, fp_status = ''error'', fp_payload = None, fp_error = Some code\<rparr> =
      failure_json J i code"
    by (simp add: frame_response_json_def failure_json_def)
  with assms show ?thesis by (auto simp: encode_failure_def prints_frames_def reads_back_def)
qed

text \<open>The codes a frame can be refused with, among others.\<close>

definition refusal_codes :: "string set" where
  "refusal_codes = insert ''response_too_large'' (set (map snd error_codes))"

lemma api_error_code_refusal: "api_error_code e \<in> refusal_codes"
  by (cases e rule: error_response.cases) (simp_all add: refusal_codes_def error_codes_def)

lemma fixed_refusals: "''response_too_large'' \<in> refusal_codes" "''temporarily_unavailable'' \<in> refusal_codes"
  by (simp_all add: refusal_codes_def error_codes_def)

text \<open>The peer reads the cases, or that the response was too large.\<close>

definition peer_reads ::
  "(bytes \<Rightarrow> json option) \<Rightarrow> (json \<Rightarrow> bytes option) \<Rightarrow> renderer \<Rightarrow> uuid \<Rightarrow> json list \<Rightarrow> bytes \<Rightarrow> bool" where
  "peer_reads read write J i items answer \<longleftrightarrow>
     read answer =
       Some (if \<exists>b. write (success_json J i items) = Some b \<and> length b \<le> 65536 then success_json J i items
             else failure_json J i ''response_too_large'')"

lemma http_response_Inl:
  obtains status message where "http_response J (Inl e) = (status, Json_content (error_json (api_error_code e) message))"
  by (cases e rule: error_response.cases) (simp_all add: http_response_def respond_def)

section \<open>What a subscriber reads\<close>

text \<open>
  C18. A subscriber reads only events of its own tenant, also in the text that arrives: every text frame that the socket loop sends, for
  whatever it takes from channel and peer, reads as a JSON object of exactly three members: the tenant of the subscription, the
  case and the receipt of one event that the loop took from the channel and that the subscription allows.
\<close>

theorem subscriber_reads:
  assumes "prints_events write J to_json" and "reads_back read write"
    and "Text_frame text \<in> set (fst (socket_loop to_json sub ins))"
  shows "\<exists>e \<in> set (events_received ins). subscription_allows sub e \<and>
    read text = Some (J_object [(''tenant_id'', uuid_json J (cs_tenant_id sub)), (''case_id'', uuid_json J (te_case_id e)),
      (''event'', receipt_json J (te_event e))])"
  using assms(3)
proof (rule socket_text_event)
  fix e
  assume e: "e \<in> set (events_received ins)" "subscription_allows sub e" "to_json e = Some text"
  from e(3) assms(1,2) have "read text = Some (tenant_event_json J e)" by (simp add: prints_events_def reads_back_def)
  moreover from e(2) have "te_tenant_id e = cs_tenant_id sub" by (simp add: subscription_allows_def)
  ultimately show ?thesis using e(1,2) by (auto simp: tenant_event_json_def)
qed

section \<open>What a signal sends back\<close>

definition ready_json :: "renderer \<Rightarrow> uuid \<Rightarrow> json" where
  "ready_json J i =
     J_object
       [(''schema'', J_string ''apme.async-status-response.v1''), (''operation_id'', uuid_json J i), (''status'', J_string ''ok''),
        (''service'', J_string ''apme-api''), (''database_ready'', J_bool True)]"

lemma ready_response: "status_response_json J (status_response_for i) = ready_json J i"
  by (simp add: status_response_json_def status_response_for_def ready_json_def RESPONSE_SCHEMA_def)

lemma published_response:
  assumes "Publish_sent subject message_id p \<in> set (snd (nats_handle W B m))"
  shows "\<exists>i. decode_signal W m = Inr i \<and> subject = response_subject W i \<and>
    print_status_response W (status_response_for i) = Some p"
  using assms
  by (cases "decode_signal W m"; cases "print_status_response W (status_response_for (projr (decode_signal W m)))")
    (auto simp: nats_handle_def Let_def split: if_splits)

text \<open>
  C36. Signals carry a schema and an operation id and nothing else, and their responses nothing but constants and that id: a message
  is terminated, with no other effect, unless it is at most 4 KiB long and its JSON is exactly the request schema and a UUID (an
  object of just these two fields, in either order, or the array of both); in particular any message with a
  credential or another field is terminated. It is acknowledged exactly when it is such a request, its response prints within
  64 KiB, and the broker accepted and confirmed that response. Whatever is published reads as the five fields
  of a ready status, on the subject of the operation that was asked for.
\<close>

theorem signals_carry_nothing_else:
  assumes "reads_signals read parse_uuid W" and "prints_signals write J W" and "reads_back read write"
  shows "(snd (nats_handle W B m) = [Term_sent] \<longleftrightarrow> \<not> (\<exists>i. asks_status read parse_uuid m i)) \<and>
    (Ack_sent \<in> set (snd (nats_handle W B m)) \<longleftrightarrow>
       (\<exists>i p. asks_status read parse_uuid m i \<and> write (ready_json J i) = Some p \<and>
          length p \<le> 65536 \<and> publish_accepted B \<and> publish_durable B)) \<and>
    (\<forall>subject message_id p. Publish_sent subject message_id p \<in> set (snd (nats_handle W B m)) \<longrightarrow>
       (\<exists>i. asks_status read parse_uuid m i \<and> subject = ''apme.web_api.inbox.status.'' @ show_uuid W i \<and>
          read p = Some (ready_json J i)))"
proof -
  have p: "print_status_response W (status_response_for i) = write (ready_json J i)" for i
    using assms(2) by (simp add: prints_signals_def ready_response)
  have "(\<exists>i. asks_status read parse_uuid m i \<and> subject = ''apme.web_api.inbox.status.'' @ show_uuid W i \<and>
      read x = Some (ready_json J i))"
    if "Publish_sent subject message_id x \<in> set (snd (nats_handle W B m))" for subject message_id x
    using published_response [OF that] assms(3)
    by (auto simp: asks_status_iff [OF assms(1)] p reads_back_def response_subject_def RESPONSE_SUBJECT_PREFIX_def)
  moreover note signal_fate [of W B m, unfolded asks_status_iff [OF assms(1)] p MAX_STATUS_RESPONSE_BYTES_def]
  ultimately show ?thesis by simp
qed

section \<open>Samples\<close>

definition plain_renderer :: renderer where
  "plain_renderer =
     \<lparr>uuid_text = (\<lambda>_. sample_uuid), case_json = (\<lambda>c. J_object [(''title'', J_string (pc_title c))]),
      mutation_json = (\<lambda>_. J_null), receipt_json = (\<lambda>_. J_null)\<rparr>"

definition status_text_wire :: status_wire where
  "status_text_wire =
     json_status_wire\<lparr>print_status_response := \<lambda>r. write_json (status_response_json plain_renderer r)\<rparr>"

lemma status_text_wires:
  "reads_signals read_json read_uuid status_text_wire" "prints_signals write_json plain_renderer status_text_wire"
  by (simp_all add: status_text_wire_def reads_signals_def prints_signals_def json_status_wire_def)

theorem signals_carry_nothing_else_witness:
  "\<exists>B. Ack_sent \<in> set (snd (nats_handle status_text_wire B signal_text)) \<and>
     (\<forall>subject message_id p.
        Publish_sent subject message_id p \<in> set (snd (nats_handle status_text_wire B signal_text)) \<longrightarrow>
        read_json p = Some (ready_json plain_renderer 1)) \<and>
     snd (nats_handle status_text_wire B ''{\"bearer_token\":\"attack\"}'') = [Term_sent]"
proof -
  let ?B = "\<lparr>term_succeeds = True, publish_accepted = True, publish_durable = True, ack_succeeds = True\<rparr>"
  note signals = signals_carry_nothing_else [OF status_text_wires reads_back_instance, of ?B]
  have asks: "asks_status read_json read_uuid signal_text i \<longleftrightarrow> i = 1" for i
    by (simp add: asks_status_def signal_text_read)
      (auto simp: signal_text_def sample_uuid_def read_uuid_def split: if_splits)
  have "\<exists>p. write_json (ready_json plain_renderer 1) = Some p \<and> length p \<le> 65536"
    by (simp add: ready_json_def write_json_def uuid_json_def plain_renderer_def sample_uuid_def plain_char_def byte_def
        quoted_def)
  with signals [of signal_text] asks have sent: "Ack_sent \<in> set (snd (nats_handle status_text_wire ?B signal_text))"
    and out: "\<forall>subject message_id p.
        Publish_sent subject message_id p \<in> set (snd (nats_handle status_text_wire ?B signal_text)) \<longrightarrow>
        read_json p = Some (ready_json plain_renderer 1)"
    by (auto; fail)+
  have "\<not> (\<exists>i. asks_status read_json read_uuid ''{\"bearer_token\":\"attack\"}'' i)"
    by (simp add: asks_status_def read_json_def string_eval)
  with signals have "snd (nats_handle status_text_wire ?B ''{\"bearer_token\":\"attack\"}'') = [Term_sent]" by blast
  with sent out show ?thesis by blast
qed

text \<open>Two events on the channel, of which one is of the subscriber's tenant.\<close>

definition plain_event :: "uuid \<Rightarrow> uuid \<Rightarrow> tenant_event" where
  "plain_event tenant i =
     \<lparr>te_tenant_id = tenant, te_case_id = i,
      te_event = \<lparr>er_event_id = 5, er_tenant_id = tenant, er_case_id = i, er_case_version = 1, er_event_type = ''created'',
        er_occurred_at = 0, er_event_hash = []\<rparr>\<rparr>"

theorem subscriber_reads_witness:
  "\<exists>text. Text_frame text \<in> set (fst (socket_loop (\<lambda>e. write_json (tenant_event_json plain_renderer e))
       \<lparr>cs_tenant_id = 1, cs_case_id = None\<rparr>
       [(Event_received (plain_event 2 7), True), (Event_received (plain_event 1 8), True)])) \<and>
     read_json text = Some (J_object [(''tenant_id'', uuid_json plain_renderer 1), (''case_id'', uuid_json plain_renderer 8),
       (''event'', J_null)])"
proof -
  let ?to_json = "\<lambda>e. write_json (tenant_event_json plain_renderer e)" and ?sub = "\<lparr>cs_tenant_id = 1, cs_case_id = None\<rparr>"
  let ?ins = "[(Event_received (plain_event 2 7), True), (Event_received (plain_event 1 8), True)]"
  have prints: "prints_events write_json plain_renderer ?to_json" by (simp add: prints_events_def)
  have "\<exists>text. write_json (tenant_event_json plain_renderer (plain_event 1 8)) = Some text"
    by (simp add: write_json_def tenant_event_json_def uuid_json_def plain_renderer_def sample_uuid_def plain_char_def byte_def)
  then obtain t where "?to_json (plain_event 1 8) = Some t" ..
  then have sent: "Text_frame t \<in> set (fst (socket_loop ?to_json ?sub ?ins))"
    by (simp add: subscription_allows_def plain_event_def)
  from subscriber_reads [OF prints reads_back_instance sent] sent show ?thesis
    by (auto simp: subscription_allows_def plain_event_def uuid_json_def plain_renderer_def)
qed

end
