(* ===== verification/Nats_Delivery.thy ===== *)
theory Nats_Delivery
  imports Nats_Properties
begin

text \<open>
  The JetStream worker against its broker over any number of deliveries, redeliveries, lost confirmations and
  restarts of the worker. The two streams behave as documented, with the bounds that the worker's topology checks leave open: the
  request stream hands a message out until it is acknowledged or terminated (work-queue retention, explicit
  acknowledgement), unless it discards the message by limits of its own; the response stream drops a message whose id it
  stored less than its duplicate window ago. \<open>responses\<close> is the log of everything the response stream ever stored, with the
  times; what its limits retention discards later stays in the log.
\<close>

section \<open>Model\<close>

type_synonym stored = "nat \<times> string \<times> string \<times> bytes"

record queues =
  waiting :: "bytes list"
  discarded :: "bytes list"
  responses :: "stored list"
  clock :: nat

definition stored_at :: "stored \<Rightarrow> nat" where
  "stored_at e = fst e"

definition stored_id :: "stored \<Rightarrow> string" where
  "stored_id e = fst (snd (snd e))"

text \<open>What the code relies on in the response stream.\<close>

definition deduplicates :: "nat \<Rightarrow> (nat \<Rightarrow> stored list \<Rightarrow> string \<times> string \<times> bytes \<Rightarrow> stored list) \<Rightarrow> bool" where
  "deduplicates window put \<longleftrightarrow>
     (\<forall>now st s k p. put now st (s, k, p) =
        (if \<exists>e \<in> set st. stored_id e = k \<and> now < stored_at e + window then st else st @ [(now, s, k, p)]))"

text \<open>
  The response a delivery asked to publish reaches the stream when it was confirmed; without a
  confirmation it may have reached it or not (\<open>kept\<close>).
\<close>

fun settle :: "(stored list \<Rightarrow> string \<times> string \<times> bytes \<Rightarrow> stored list) \<Rightarrow> bool \<Rightarrow> nats_effect list \<Rightarrow> stored list \<Rightarrow> stored list" where
  "settle put kept [] st = st"
| "settle put kept (Publish_sent s k p # rest) st =
     settle put kept rest (if kept \<or> Publish_confirmed k \<in> set rest then put st (s, k, p) else st)"
| "settle put kept (_ # rest) st = settle put kept rest st"

text \<open>
  One delivery, at some time from then on: the worker handles a waiting message. An acknowledgement or termination takes
  it out of the queue when the broker hears it (\<open>heard\<close>): always when the call succeeded, perhaps also when it failed. The request stream may
  also discard a message by limits of its own (its age, the number of deliveries).
\<close>

inductive delivery ::
  "(nat \<Rightarrow> stored list \<Rightarrow> string \<times> string \<times> bytes \<Rightarrow> stored list) \<Rightarrow> status_wire \<Rightarrow> queues \<Rightarrow> queues \<Rightarrow> bool" for put W where
  deliver: "m \<in> set (waiting q) \<Longrightarrow> nats_handle W B m = (r, effects) \<Longrightarrow> (\<not> isl r \<longrightarrow> heard) \<Longrightarrow> clock q \<le> now \<Longrightarrow>
     delivery put W q
       (q\<lparr>waiting := (if heard \<and> (Ack_sent \<in> set effects \<or> Term_sent \<in> set effects) then remove1 m (waiting q) else waiting q),
          responses := settle (put now) kept effects (responses q), clock := now\<rparr>)"
| arrive: "delivery put W q (q\<lparr>waiting := waiting q @ [m]\<rparr>)"
| discard: "m \<in> set (waiting q) \<Longrightarrow>
     delivery put W q (q\<lparr>waiting := remove1 m (waiting q), discarded := m # discarded q\<rparr>)"

inductive_cases deliveryE: "delivery put W q q'"

section \<open>Responses\<close>

definition responds :: "status_wire \<Rightarrow> uuid \<Rightarrow> stored \<Rightarrow> bool" where
  "responds W i e \<longleftrightarrow>
     (\<exists>t p. e = (t, response_subject W i, response_message_id W i, p) \<and>
        print_status_response W (status_response_for i) = Some p \<and> length p \<le> MAX_STATUS_RESPONSE_BYTES)"

definition answered :: "status_wire \<Rightarrow> uuid \<Rightarrow> stored list \<Rightarrow> bool" where
  "answered W i st \<longleftrightarrow> (\<exists>e \<in> set st. responds W i e)"

text \<open>Nothing but responses, no id twice within a window.\<close>

definition stream_sound :: "nat \<Rightarrow> status_wire \<Rightarrow> stored list \<Rightarrow> bool" where
  "stream_sound window W st \<longleftrightarrow>
     sorted_wrt (\<lambda>e e'. stored_id e = stored_id e' \<longrightarrow> stored_at e + window \<le> stored_at e') st \<and>
     (\<forall>e \<in> set st. \<exists>i. responds W i e)"

lemma put_sound:
  assumes "deduplicates window put" and "stream_sound window W st" and "responds W i (now, s, k, p)"
  shows "stream_sound window W (put now st (s, k, p))"
proof (cases "\<exists>e \<in> set st. stored_id e = k \<and> now < stored_at e + window")
  case True
  with assms(1,2) show ?thesis by (simp add: deduplicates_def)
next
  case False
  with assms show ?thesis
    by (auto simp: deduplicates_def stream_sound_def sorted_wrt_append stored_id_def stored_at_def not_less)
qed

lemma put_stored:
  assumes "deduplicates window put" and "uuid_text_injective W" and "stream_sound window W st"
    and "responds W i (now, s, k, p)"
  shows "answered W i (put now st (s, k, p))"
proof (cases "\<exists>e \<in> set st. stored_id e = k \<and> now < stored_at e + window")
  case True
  then obtain e where e: "e \<in> set st" "stored_id e = k" by blast
  with assms(3) obtain j where j: "responds W j e" by (auto simp: stream_sound_def)
  with e assms(2,4) have "j = i"
    by (auto simp: responds_def stored_id_def response_message_id_def uuid_text_injective_def inj_eq)
  with e(1) j True assms(1) show ?thesis by (auto simp: deduplicates_def answered_def)
next
  case False
  with assms(1,4) show ?thesis by (auto simp: deduplicates_def answered_def)
qed

lemma put_keeps: "deduplicates window put \<Longrightarrow> prefix st (put now st e)"
  by (cases e) (auto simp: deduplicates_def)

text \<open>What one delivery does to the stream.\<close>

lemma settle_handle:
  assumes put: "deduplicates window put" and inj: "uuid_text_injective W" and st: "stream_sound window W st"
    and h: "nats_handle W B m = (r, effects)"
  shows "stream_sound window W (settle (put now) kept effects st) \<and> prefix st (settle (put now) kept effects st) \<and>
    (Ack_sent \<in> set effects \<longrightarrow> (\<exists>i. decode_signal W m = Inr i \<and> answered W i (settle (put now) kept effects st)))"
proof (rule nats_handle_cases [of W m B])
  fix i p e
  assume "print_status_response W (status_response_for i) = Some p" "length p \<le> MAX_STATUS_RESPONSE_BYTES"
    "nats_handle W B m = (Inl e, [Publish_sent (response_subject W i) (response_message_id W i) p])"
  moreover have "responds W i (now, response_subject W i, response_message_id W i, p)"
    using calculation by (simp add: responds_def)
  ultimately show ?thesis using put_sound [OF put st] put_keeps [OF put, of st] st h by auto
next
  fix i p
  assume i: "decode_signal W m = Inr i" "print_status_response W (status_response_for i) = Some p"
    "length p \<le> MAX_STATUS_RESPONSE_BYTES"
    and "nats_handle W B m = (ensure (ack_succeeds B) ''ack request after durable response'', response_effects W i p)"
  with h have e: "effects = response_effects W i p" by simp
  let ?e = "(response_subject W i, response_message_id W i, p)"
  have resp: "responds W i (now, ?e)" using i by (simp add: responds_def)
  have "settle (put now) kept effects st = put now st ?e" by (simp add: e response_effects_def)
  with i(1) put_sound [OF put st resp] put_keeps [OF put, of st now ?e] put_stored [OF put inj st resp]
  show ?thesis by auto
qed (use h st in auto)

lemma handle_terms: "nats_handle W B m = (r, effects) \<Longrightarrow> Term_sent \<in> set effects \<Longrightarrow> isl (decode_signal W m)"
  by (rule nats_handle_cases [of W m B]) (auto simp: response_effects_def)

lemma answered_later: "answered W i st \<Longrightarrow> prefix st st' \<Longrightarrow> answered W i st'"
  by (auto simp: answered_def dest: set_mono_prefix)

lemma delivery_sound:
  assumes "delivery put W q q'" and "deduplicates window put" and "uuid_text_injective W" and "stream_sound window W (responses q)"
  shows "stream_sound window W (responses q') \<and> prefix (responses q) (responses q') \<and> set (discarded q) \<subseteq> set (discarded q')"
  using assms(1)
proof (rule deliveryE)
  fix m B r effects heard now kept
  assume "nats_handle W B m = (r, effects)"
    and "q' = q\<lparr>waiting := (if heard \<and> (Ack_sent \<in> set effects \<or> Term_sent \<in> set effects) then remove1 m (waiting q)
        else waiting q), responses := settle (put now) kept effects (responses q), clock := now\<rparr>"
  with settle_handle [OF assms(2-4), of B m r effects now kept] show ?thesis by simp
qed (use assms(4) in auto)

text \<open>What has become of a request: it waits, was discarded by the request stream, or has its response.\<close>

definition accounted_for :: "status_wire \<Rightarrow> queues \<Rightarrow> bytes \<Rightarrow> uuid \<Rightarrow> bool" where
  "accounted_for W q m i \<longleftrightarrow> m \<in> set (waiting q) \<or> m \<in> set (discarded q) \<or> answered W i (responses q)"

lemma delivery_open:
  assumes "delivery put W q q'" and "deduplicates window put" and "uuid_text_injective W" and "stream_sound window W (responses q)"
    and "decode_signal W m = Inr i" and "m \<in> set (waiting q)"
  shows "accounted_for W q' m i"
  using assms(1)
proof (rule deliveryE)
  fix m' B r effects heard now kept
  assume h: "nats_handle W B m' = (r, effects)"
    and q': "q' = q\<lparr>waiting := (if heard \<and> (Ack_sent \<in> set effects \<or> Term_sent \<in> set effects) then remove1 m' (waiting q)
        else waiting q), responses := settle (put now) kept effects (responses q), clock := now\<rparr>"
  show ?thesis
  proof (cases "m' = m")
    case True
    with handle_terms [OF h] assms(5) have "Term_sent \<notin> set effects" by auto
    with settle_handle [OF assms(2-4) h, of now kept] True assms(5,6) q' show ?thesis
      by (auto simp: accounted_for_def)
  qed (use assms(6) q' in \<open>simp add: accounted_for_def\<close>)
next
  fix m'
  assume "q' = q\<lparr>waiting := remove1 m' (waiting q), discarded := m' # discarded q\<rparr>"
  with assms(6) show ?thesis by (cases "m' = m") (simp_all add: accounted_for_def)
qed (use assms(6) in \<open>simp add: accounted_for_def\<close>)

lemma delivery_accounted:
  assumes "delivery put W q q'" and "deduplicates window put" and "uuid_text_injective W" and "stream_sound window W (responses q)"
    and "decode_signal W m = Inr i" and "accounted_for W q m i"
  shows "accounted_for W q' m i"
  using assms(6) delivery_open [OF assms(1-5)] delivery_sound [OF assms(1-4)] answered_later
  unfolding accounted_for_def [of W q] by (auto simp: accounted_for_def)

lemma deliveries_sound:
  assumes "(delivery put W)\<^sup>*\<^sup>* q q'" and "deduplicates window put" and "uuid_text_injective W" and "stream_sound window W (responses q)"
  shows "stream_sound window W (responses q') \<and> prefix (responses q) (responses q') \<and>
    (\<forall>m i. decode_signal W m = Inr i \<and> m \<in> set (waiting q) \<longrightarrow> accounted_for W q' m i)"
  using assms(1)
proof (induction rule: rtranclp_induct)
  case base
  with assms(4) show ?case by (simp add: accounted_for_def)
next
  case (step q1 q2)
  with delivery_sound [OF step.hyps(2) assms(2,3)] delivery_accounted [OF step.hyps(2) assms(2,3)]
  show ?case by (blast intro: prefix_order.trans)
qed

text \<open>
  C25. Every request is answered, and once within a window: with a response stream that drops a message whose id it stored less than
  its duplicate window ago, over any number of arrivals, deliveries, redeliveries, lost confirmations and restarts of the
  worker, a valid request that was waiting is still waiting, or was discarded by limits of the request stream, or the response of its
  operation was stored; nothing but such responses is ever stored; and two responses of one operation are stored at least a whole
  window apart, so at most one in a run that is shorter than the window. Redeliveries later than the window are stored again.
\<close>

theorem requests_answered_once:
  assumes "deduplicates window put" and "uuid_text_injective W" and "(delivery put W)\<^sup>*\<^sup>* q q'" and "stream_sound window W (responses q)"
  shows "(\<forall>m i. decode_signal W m = Inr i \<and> m \<in> set (waiting q) \<longrightarrow>
       m \<in> set (waiting q') \<or> m \<in> set (discarded q') \<or> (\<exists>e \<in> set (responses q'). responds W i e)) \<and>
    (\<forall>e \<in> set (responses q'). \<exists>i. responds W i e) \<and>
    (\<forall>a b i. a < b \<and> b < length (responses q') \<and> responds W i (responses q' ! a) \<and> responds W i (responses q' ! b) \<longrightarrow>
       stored_at (responses q' ! a) + window \<le> stored_at (responses q' ! b)) \<and>
    prefix (responses q) (responses q')"
proof -
  note run = deliveries_sound [OF assms(3,1,2,4)]
  have "stored_at (responses q' ! a) + window \<le> stored_at (responses q' ! b)"
    if "a < b" "b < length (responses q')" "responds W i (responses q' ! a)" "responds W i (responses q' ! b)" for a b i
  proof -
    from that(3,4) have "stored_id (responses q' ! a) = stored_id (responses q' ! b)"
      by (auto simp: responds_def stored_id_def)
    with run that(1,2) show ?thesis by (auto simp: stream_sound_def sorted_wrt_iff_nth_less)
  qed
  with run show ?thesis unfolding accounted_for_def answered_def stream_sound_def by blast
qed

definition ref_put :: "nat \<Rightarrow> nat \<Rightarrow> stored list \<Rightarrow> string \<times> string \<times> bytes \<Rightarrow> stored list" where
  "ref_put window now st e =
     (if \<exists>f \<in> set st. stored_id f = fst (snd e) \<and> now < stored_at f + window then st else st @ [(now, e)])"

lemma ref_uuid_injective: "uuid_text_injective ref_status_wire"
  by (auto simp: uuid_text_injective_def ref_status_wire_def inj_def word_unat_eq_iff dest: arg_cong [of _ _ length])

text \<open>
  A request whose response was stored but not confirmed is delivered again: within the window it is acknowledged without a second
  response, after the window with one.
\<close>

theorem requests_answered_once_witness:
  "\<exists>q1 q2 q3. delivery (ref_put 120) ref_status_wire \<lparr>waiting = [''ask''], discarded = [], responses = [], clock = 0\<rparr> q1 \<and>
     waiting q1 = [''ask''] \<and>
     delivery (ref_put 120) ref_status_wire q1 q2 \<and> waiting q2 = [] \<and> length (responses q2) = 1 \<and>
     delivery (ref_put 120) ref_status_wire q1 q3 \<and> length (responses q3) = 2 \<and>
     responds ref_status_wire 9 (responses q3 ! 0) \<and> stored_at (responses q3 ! 0) + 120 \<le> stored_at (responses q3 ! 1)"
proof -
  let ?q = "\<lparr>waiting = [''ask''], discarded = [], responses = [], clock = 0\<rparr>"
  let ?e = "(response_subject ref_status_wire 9, response_message_id ref_status_wire 9, ''ready'')"
  define q1 where "q1 = \<lparr>waiting = [''ask''], discarded = [], responses = [(5, ?e)], clock = 5\<rparr>"
  define q2 where "q2 = \<lparr>waiting = [], discarded = [], responses = [(5, ?e)], clock = 30\<rparr>"
  define q3 where "q3 = \<lparr>waiting = [], discarded = [], responses = [(5, ?e), (200, ?e)], clock = 200\<rparr>"
  have "\<exists>r effects. nats_handle ref_status_wire (good_broker\<lparr>publish_durable := False\<rparr>) ''ask'' = (r, effects) \<and> isl r \<and>
      effects = [Publish_sent (fst ?e) (fst (snd ?e)) ''ready'']"
    by (simp add: ref_nats_eval Let_def)
  then have one: "delivery (ref_put 120) ref_status_wire ?q q1"
    using delivery.deliver [of "''ask''" ?q ref_status_wire "good_broker\<lparr>publish_durable := False\<rparr>" _ _ False 5 "ref_put 120" True]
    by (auto simp: q1_def ref_put_def)
  have acked: "nats_handle ref_status_wire good_broker ''ask'' = (Inr (), response_effects ref_status_wire 9 ''ready'')"
    by (simp add: ref_nats_eval response_effects_def Let_def)
  have two: "delivery (ref_put 120) ref_status_wire q1 q2"
    using delivery.deliver [OF _ acked, of q1 True 30 "ref_put 120" False]
    by (auto simp: q1_def q2_def ref_put_def response_effects_def stored_id_def stored_at_def)
  have three: "delivery (ref_put 120) ref_status_wire q1 q3"
    using delivery.deliver [OF _ acked, of q1 True 200 "ref_put 120" False]
    by (auto simp: q1_def q3_def ref_put_def response_effects_def stored_id_def stored_at_def)
  have put: "deduplicates 120 (ref_put 120)" by (simp add: deduplicates_def ref_put_def)
  have resp: "responds ref_status_wire 9 (t, ?e)" for t
    by (simp add: responds_def ref_nats_eval)
  have "(delivery (ref_put 120) ref_status_wire)\<^sup>*\<^sup>* ?q q3" using one three by simp
  from requests_answered_once [OF put ref_uuid_injective this]
  have "\<forall>a b i. a < b \<and> b < length (responses q3) \<and> responds ref_status_wire i (responses q3 ! a) \<and>
      responds ref_status_wire i (responses q3 ! b) \<longrightarrow> stored_at (responses q3 ! a) + 120 \<le> stored_at (responses q3 ! b)"
    by (simp add: stream_sound_def)
  from this [rule_format, of 0 1 9] have "stored_at (responses q3 ! 0) + 120 \<le> stored_at (responses q3 ! 1)"
    using resp by (simp add: q3_def)
  moreover have "waiting q1 = [''ask'']" "waiting q2 = []" "length (responses q2) = 1" "length (responses q3) = 2"
    "responds ref_status_wire 9 (responses q3 ! 0)"
    using resp by (simp_all add: q1_def q2_def q3_def)
  ultimately show ?thesis using one two three by blast
qed

end
