(* ===== verification/Sql_Text.thy ===== *)
theory Sql_Text
  imports Cases "HOL-Library.Multiset"
begin

text \<open>
  The SQL text of the queries, word for word, and what it means: the fragment of SQL that the program uses (columns, an inner
  join, a conjunction of conditions, an ordering, a count) with a reader and a semantics, and the proof that the
  queries of \<open>Database\<close> are what the texts say.
\<close>

section \<open>Texts\<close>

definition CASE_SELECT_LIST :: string where
  "CASE_SELECT_LIST = ''select id, tenant_id, version, title, summary, client_reference, '' @
     ''destination_country, document_type, next_action_due_at, status, retention_class, '' @
     ''retain_until, legal_hold, tombstoned_at, encrypted_object_reference, ciphertext_sha256, '' @
     ''object_key_version, created_at, updated_at from apme_cases '' @
     ''where tenant_id = $1 and tombstoned_at is null order by created_at desc, id''"

definition CASE_SELECT_ONE :: string where
  "CASE_SELECT_ONE = ''select id, tenant_id, version, title, summary, client_reference, '' @
     ''destination_country, document_type, next_action_due_at, status, retention_class, '' @
     ''retain_until, legal_hold, tombstoned_at, encrypted_object_reference, ciphertext_sha256, '' @
     ''object_key_version, created_at, updated_at from apme_cases '' @
     ''where tenant_id = $1 and id = $2 and tombstoned_at is null''"

definition MEMBERSHIP_SELECT :: string where
  "MEMBERSHIP_SELECT = ''select t.organization_id, m.role from apme_tenants t '' @
     ''join apme_tenant_memberships m on m.tenant_id = t.id '' @
     ''where t.id = $1 and m.shared_user_id = $2 and m.active''"

definition EVENT_SELECT :: string where
  "EVENT_SELECT = ''select tenant_id, case_id, case_version, event_type, occurred_at '' @
     ''from apme_case_events where tenant_id = $1 and event_id = $2''"

definition CASE_COUNT :: string where
  "CASE_COUNT = ''select count(*) from apme_cases''"

section \<open>A fragment of SQL\<close>

datatype operand = Param nat | Column string

datatype condition =
    Equal operand operand
  | Is_null operand
  | Holds operand

record source =
  src_table :: string
  src_alias :: "string option"

record select =
  sel_columns :: "string list"
  sel_sources :: "source list"
  sel_where :: "condition list"
  sel_order :: "(string \<times> bool) list"

text \<open>Reading: words, with commas on their own, cut at the key words.\<close>

definition sql_words :: "string \<Rightarrow> string list" where
  "sql_words s =
     filter (\<lambda>w. w \<noteq> []) (split_on (CHR '' '') (concat (map (\<lambda>c. if c = CHR '','' then '' , '' else [c]) s)))"

fun cut :: "'a \<Rightarrow> 'a list \<Rightarrow> 'a list list" where
  "cut d [] = [[]]"
| "cut d (w # ws) = (if w = d then [] # cut d ws else (case cut d ws of [] \<Rightarrow> [[w]] | p # ps \<Rightarrow> (w # p) # ps))"

definition preceding :: "'a \<Rightarrow> 'a list \<Rightarrow> 'a list" where
  "preceding d ws = takeWhile (\<lambda>w. w \<noteq> d) ws"

definition following :: "'a \<Rightarrow> 'a list \<Rightarrow> 'a list" where
  "following d ws = drop 1 (dropWhile (\<lambda>w. w \<noteq> d) ws)"

definition read_operand :: "string \<Rightarrow> operand" where
  "read_operand w =
     (case strip_prefix ''$'' w of
        None \<Rightarrow> Column w
      | Some n \<Rightarrow> (case parse_usize n of Some k \<Rightarrow> Param k | None \<Rightarrow> Column w))"

definition read_condition :: "string list \<Rightarrow> condition option" where
  "read_condition ws =
     (case ws of
        [a] \<Rightarrow> Some (Holds (read_operand a))
      | [a, e, b] \<Rightarrow>
          if e = ''='' then Some (Equal (read_operand a) (read_operand b))
          else if e = ''is'' \<and> b = ''null'' then Some (Is_null (read_operand a)) else None
      | _ \<Rightarrow> None)"

definition read_source :: "string list \<Rightarrow> source option" where
  "read_source ws =
     (case ws of
        [t] \<Rightarrow> Some \<lparr>src_table = t, src_alias = None\<rparr>
      | [t, a] \<Rightarrow> Some \<lparr>src_table = t, src_alias = Some a\<rparr>
      | _ \<Rightarrow> None)"

definition read_key :: "string list \<Rightarrow> (string \<times> bool) option" where
  "read_key ws = (case ws of [c] \<Rightarrow> Some (c, False) | [c, d] \<Rightarrow> if d = ''desc'' then Some (c, True) else None | _ \<Rightarrow> None)"

definition read_column :: "string list \<Rightarrow> string option" where
  "read_column ws = (case ws of [c] \<Rightarrow> Some c | _ \<Rightarrow> None)"

definition sections :: "string \<Rightarrow> string list \<Rightarrow> string list list" where
  "sections d ws = (if ws = [] then [] else cut d ws)"

definition read_select :: "string \<Rightarrow> select option" where
  "read_select text =
     (case sql_words text of
        [] \<Rightarrow> None
      | w # ws \<Rightarrow>
          (let sources = cut ''join'' (preceding ''where'' (following ''from'' ws));
               conditions = preceding ''order'' (following ''where'' ws);
               keys = following ''by'' (following ''where'' ws) in
           if w \<noteq> ''select'' then None
           else
             (case (those (map read_column (cut '','' (preceding ''from'' ws))),
                    those (map (\<lambda>s. read_source (preceding ''on'' s)) sources),
                    those (map read_condition (concat (map (\<lambda>s. sections ''and'' (following ''on'' s)) sources) @ sections ''and'' conditions)),
                    those (map read_key (sections '','' keys))) of
                (Some cs, Some ss, Some ps, Some ks) \<Rightarrow>
                  Some \<lparr>sel_columns = cs, sel_sources = ss, sel_where = ps, sel_order = ks\<rparr>
              | _ \<Rightarrow> None)))"

lemmas read_eval = read_select_def sql_words_def preceding_def following_def sections_def read_operand_def read_condition_def
  read_source_def read_key_def read_column_def Let_def parse_usize_def digit_value_def byte_def usize_limit_def

definition case_columns :: "string list" where
  "case_columns =
     [''id'', ''tenant_id'', ''version'', ''title'', ''summary'', ''client_reference'', ''destination_country'', ''document_type'',
      ''next_action_due_at'', ''status'', ''retention_class'', ''retain_until'', ''legal_hold'', ''tombstoned_at'',
      ''encrypted_object_reference'', ''ciphertext_sha256'', ''object_key_version'', ''created_at'', ''updated_at'']"

lemma case_list_read:
  "read_select CASE_SELECT_LIST = Some
     \<lparr>sel_columns = case_columns, sel_sources = [\<lparr>src_table = ''apme_cases'', src_alias = None\<rparr>],
      sel_where = [Equal (Column ''tenant_id'') (Param 1), Is_null (Column ''tombstoned_at'')],
      sel_order = [(''created_at'', True), (''id'', False)]\<rparr>"
  by (simp add: CASE_SELECT_LIST_def read_eval case_columns_def)

lemma case_one_read:
  "read_select CASE_SELECT_ONE = Some
     \<lparr>sel_columns = case_columns, sel_sources = [\<lparr>src_table = ''apme_cases'', src_alias = None\<rparr>],
      sel_where = [Equal (Column ''tenant_id'') (Param 1), Equal (Column ''id'') (Param 2), Is_null (Column ''tombstoned_at'')],
      sel_order = []\<rparr>"
  by (simp add: CASE_SELECT_ONE_def read_eval case_columns_def)

lemma membership_read:
  "read_select MEMBERSHIP_SELECT = Some
     \<lparr>sel_columns = [''t.organization_id'', ''m.role''],
      sel_sources = [\<lparr>src_table = ''apme_tenants'', src_alias = Some ''t''\<rparr>, \<lparr>src_table = ''apme_tenant_memberships'', src_alias = Some ''m''\<rparr>],
      sel_where = [Equal (Column ''m.tenant_id'') (Column ''t.id''), Equal (Column ''t.id'') (Param 1),
        Equal (Column ''m.shared_user_id'') (Param 2), Holds (Column ''m.active'')],
      sel_order = []\<rparr>"
  by (simp add: MEMBERSHIP_SELECT_def read_eval)

lemma event_read:
  "read_select EVENT_SELECT = Some
     \<lparr>sel_columns = [''tenant_id'', ''case_id'', ''case_version'', ''event_type'', ''occurred_at''],
      sel_sources = [\<lparr>src_table = ''apme_case_events'', src_alias = None\<rparr>],
      sel_where = [Equal (Column ''tenant_id'') (Param 1), Equal (Column ''event_id'') (Param 2)], sel_order = []\<rparr>"
  by (simp add: EVENT_SELECT_def read_eval)

lemma count_read:
  "read_select CASE_COUNT = Some
     \<lparr>sel_columns = [''count(*)''], sel_sources = [\<lparr>src_table = ''apme_cases'', src_alias = None\<rparr>], sel_where = [], sel_order = []\<rparr>"
  by (simp add: CASE_COUNT_def read_eval)

section \<open>What a query means\<close>

datatype sql_value = Sql_uuid uuid | Sql_text string | Sql_int int | Sql_time instant | Sql_bool bool | Sql_null

type_synonym sql_row = "string \<rightharpoonup> sql_value"

text \<open>A name that no table has reads as null; the texts above have none.\<close>

definition column_value :: "sql_row \<Rightarrow> string \<Rightarrow> sql_value" where
  "column_value row c = (case row c of Some v \<Rightarrow> v | None \<Rightarrow> Sql_null)"

fun operand_value :: "sql_value list \<Rightarrow> sql_row \<Rightarrow> operand \<Rightarrow> sql_value" where
  "operand_value ps row (Param k) = (if 1 \<le> k \<and> k \<le> length ps then ps ! (k - 1) else Sql_null)"
| "operand_value ps row (Column c) = column_value row c"

text \<open>Conditions select a row when they are true; comparing with null never is.\<close>

fun satisfies :: "sql_value list \<Rightarrow> sql_row \<Rightarrow> condition \<Rightarrow> bool" where
  "satisfies ps row (Equal a b) \<longleftrightarrow> operand_value ps row a = operand_value ps row b \<and> operand_value ps row a \<noteq> Sql_null"
| "satisfies ps row (Is_null a) \<longleftrightarrow> operand_value ps row a = Sql_null"
| "satisfies ps row (Holds a) \<longleftrightarrow> operand_value ps row a = Sql_bool True"

definition aliased :: "string option \<Rightarrow> sql_row \<Rightarrow> sql_row" where
  "aliased name row =
     (case name of None \<Rightarrow> row | Some a \<Rightarrow> (\<lambda>c. case strip_prefix (a @ ''.'') c of Some c' \<Rightarrow> row c' | None \<Rightarrow> None))"

fun joined :: "(string \<Rightarrow> sql_row list) \<Rightarrow> source list \<Rightarrow> sql_row list" where
  "joined tables [] = [Map.empty]"
| "joined tables (s # ss) =
     [aliased (src_alias s) row ++ rest. row \<leftarrow> tables (src_table s), rest \<leftarrow> joined tables ss]"

definition matching :: "(string \<Rightarrow> sql_row list) \<Rightarrow> sql_value list \<Rightarrow> select \<Rightarrow> sql_row list" where
  "matching tables ps q = filter (\<lambda>row. list_all (satisfies ps row) (sel_where q)) (joined tables (sel_sources q))"

fun less_value :: "sql_value \<Rightarrow> sql_value \<Rightarrow> bool" where
  "less_value (Sql_uuid i) (Sql_uuid j) \<longleftrightarrow> i < j"
| "less_value (Sql_int i) (Sql_int j) \<longleftrightarrow> i < j"
| "less_value (Sql_time i) (Sql_time j) \<longleftrightarrow> i < j"
| "less_value _ _ \<longleftrightarrow> False"

fun comes_before :: "(string \<times> bool) list \<Rightarrow> sql_row \<Rightarrow> sql_row \<Rightarrow> bool" where
  "comes_before [] a b \<longleftrightarrow> False"
| "comes_before ((c, descending) # keys) a b \<longleftrightarrow>
     (if descending then less_value (column_value b c) (column_value a c) else less_value (column_value a c) (column_value b c)) \<or>
     column_value a c = column_value b c \<and> comes_before keys a b"

text \<open>The answers a query may have: the matching rows in any order that respects its keys, or their number.\<close>

definition answers_of :: "(string \<Rightarrow> sql_row list) \<Rightarrow> sql_value list \<Rightarrow> select \<Rightarrow> sql_value list list set" where
  "answers_of tables ps q =
     (if sel_columns q = [''count(*)''] then {[[Sql_int (int (length (matching tables ps q)))]]}
      else {map (\<lambda>row. map (column_value row) (sel_columns q)) rows | rows.
        mset rows = mset (matching tables ps q) \<and> sorted_wrt (\<lambda>a b. \<not> comes_before (sel_order q) b a) rows})"

text \<open>The text has this answer, and every answer of it has these rows.\<close>

definition means :: "string \<Rightarrow> (string \<Rightarrow> sql_row list) \<Rightarrow> sql_value list \<Rightarrow> sql_value list list \<Rightarrow> bool" where
  "means text tables ps rows \<longleftrightarrow>
     (case read_select text of
        None \<Rightarrow> False
      | Some q \<Rightarrow> rows \<in> answers_of tables ps q \<and> mset ` answers_of tables ps q = {mset rows})"

section \<open>The tables\<close>

definition nullable :: "('a \<Rightarrow> sql_value) \<Rightarrow> 'a option \<Rightarrow> sql_value" where
  "nullable f x = (case x of None \<Rightarrow> Sql_null | Some v \<Rightarrow> f v)"

definition case_fields :: "case_row \<Rightarrow> (string \<times> sql_value) list" where
  "case_fields r =
     [(''id'', Sql_uuid (cr_id r)), (''tenant_id'', Sql_uuid (cr_tenant_id r)), (''version'', Sql_int (cr_version r)),
      (''title'', Sql_text (cr_title r)), (''summary'', Sql_text (cr_summary r)),
      (''client_reference'', Sql_text (cr_client_reference r)),
      (''destination_country'', Sql_text (cr_destination_country r)), (''document_type'', Sql_text (cr_document_type r)),
      (''next_action_due_at'', nullable Sql_time (cr_next_action_due_at r)), (''status'', Sql_text (cr_status r)),
      (''retention_class'', Sql_text (cr_retention_class r)), (''retain_until'', Sql_time (cr_retain_until r)),
      (''legal_hold'', Sql_bool (cr_legal_hold r)), (''tombstoned_at'', nullable Sql_time (cr_tombstoned_at r)),
      (''encrypted_object_reference'', nullable Sql_text (cr_encrypted_object_reference r)),
      (''ciphertext_sha256'', nullable Sql_text (cr_ciphertext_sha256 r)),
      (''object_key_version'', nullable Sql_int (cr_object_key_version r)), (''created_at'', Sql_time (cr_created_at r)),
      (''updated_at'', Sql_time (cr_updated_at r))]"

definition event_fields :: "event_row \<Rightarrow> (string \<times> sql_value) list" where
  "event_fields e =
     [(''event_id'', Sql_uuid (ev_event_id e)), (''tenant_id'', Sql_uuid (ev_tenant_id e)), (''case_id'', Sql_uuid (ev_case_id e)),
      (''case_version'', Sql_int (ev_case_version e)), (''event_type'', Sql_text (ev_event_type e)),
      (''occurred_at'', Sql_time (ev_occurred_at e))]"

definition tenant_fields :: "tenant_row \<Rightarrow> (string \<times> sql_value) list" where
  "tenant_fields t = [(''id'', Sql_uuid (tn_id t)), (''organization_id'', Sql_uuid (tn_organization_id t))]"

definition membership_fields :: "membership_row \<Rightarrow> (string \<times> sql_value) list" where
  "membership_fields m =
     [(''tenant_id'', Sql_uuid (mb_tenant_id m)), (''shared_user_id'', Sql_text (mb_shared_user_id m)),
      (''role'', Sql_text (mb_role m)), (''active'', Sql_bool (mb_active m))]"

definition sql_tables :: "'x database_scheme \<Rightarrow> string \<Rightarrow> sql_row list" where
  "sql_tables d name =
     (if name = ''apme_cases'' then map (map_of \<circ> case_fields) (case_table d)
      else if name = ''apme_case_events'' then map (map_of \<circ> event_fields) (case_events d)
      else if name = ''apme_tenants'' then map (map_of \<circ> tenant_fields) (tenants d)
      else if name = ''apme_tenant_memberships'' then map (map_of \<circ> membership_fields) (memberships d)
      else [])"

lemmas fields_defs = case_fields_def event_fields_def tenant_fields_def membership_fields_def column_value_def

lemma joined_one: "joined tables [\<lparr>src_table = t, src_alias = None\<rparr>] = tables t"
  by (simp add: aliased_def)

lemma nullable_null: "nullable Sql_time x = Sql_null \<longleftrightarrow> x = None"
  by (cases x) (simp_all add: nullable_def)

lemma meansI:
  assumes "read_select text = Some q" and "sel_columns q \<noteq> [''count(*)'']" and "mset rows = mset (matching tables ps q)"
    and "sorted_wrt (\<lambda>a b. \<not> comes_before (sel_order q) b a) rows"
    and "map (\<lambda>row. map (column_value row) (sel_columns q)) rows = result"
  shows "means text tables ps result"
proof -
  have mem: "result \<in> answers_of tables ps q"
    using assms(2-5) by (auto simp: answers_of_def)
  have same: "mset result' = mset result" if "result' \<in> answers_of tables ps q" for result'
  proof -
    from that assms(2) obtain rows' where "result' = map (\<lambda>row. map (column_value row) (sel_columns q)) rows'"
      "mset rows' = mset (matching tables ps q)" by (auto simp: answers_of_def)
    with assms(3) show ?thesis unfolding assms(5) [symmetric] by simp
  qed
  have "mset ` answers_of tables ps q = {mset result}"
  proof
    show "mset ` answers_of tables ps q \<subseteq> {mset result}" using same by blast
    show "{mset result} \<subseteq> mset ` answers_of tables ps q" using mem by blast
  qed
  with mem show ?thesis by (simp add: means_def assms(1))
qed

lemma unordered: "sorted_wrt (\<lambda>a b. \<not> comes_before [] b a) rows"
  by (induction rows) simp_all

section \<open>The queries of the model\<close>

lemma case_values: "map (column_value (map_of (case_fields r))) case_columns = map snd (case_fields r)"
  by (simp add: case_columns_def fields_defs)

lemma case_columns_many [simp]: "case_columns \<noteq> [''count(*)'']"
  by (simp add: case_columns_def)

lemma case_list_means:
  "means CASE_SELECT_LIST (sql_tables d) [Sql_uuid t] (map (map snd \<circ> case_fields) (case_select_list t d))"
proof (rule meansI [OF case_list_read, where rows = "map (map_of \<circ> case_fields) (case_select_list t d)"])
  have sel: "list_all (satisfies [Sql_uuid t] (map_of (case_fields r))) [Equal (Column ''tenant_id'') (Param (Suc 0)), Is_null (Column ''tombstoned_at'')] \<longleftrightarrow>
      cr_tenant_id r = t \<and> cr_tombstoned_at r = None" for r
    by (simp add: fields_defs nullable_null)
  show "mset (map (map_of \<circ> case_fields) (case_select_list t d)) = mset (matching (sql_tables d) [Sql_uuid t]
      \<lparr>sel_columns = case_columns, sel_sources = [\<lparr>src_table = ''apme_cases'', src_alias = None\<rparr>],
       sel_where = [Equal (Column ''tenant_id'') (Param 1), Is_null (Column ''tombstoned_at'')],
       sel_order = [(''created_at'', True), (''id'', False)]\<rparr>)"
    by (simp add: matching_def joined_one sql_tables_def filter_map sel o_def case_select_list_def del: joined.simps list.pred_inject)
  have "sorted_wrt (\<lambda>a b. case_list_key a \<le> case_list_key b) (case_select_list t d)"
    using case_select_list_sorted [of t d] by (simp add: sorted_map)
  then have "sorted_wrt (\<lambda>a b. \<not> comes_before [(''created_at'', True), (''id'', False)] (map_of (case_fields b)) (map_of (case_fields a)))
      (case_select_list t d)"
    by (rule sorted_wrt_mono_rel [rotated]) (auto simp: fields_defs case_list_key_def less_eq_list_key_def)
  then show "sorted_wrt (\<lambda>a b. \<not> comes_before (sel_order
      \<lparr>sel_columns = case_columns, sel_sources = [\<lparr>src_table = ''apme_cases'', src_alias = None\<rparr>],
       sel_where = [Equal (Column ''tenant_id'') (Param 1), Is_null (Column ''tombstoned_at'')],
       sel_order = [(''created_at'', True), (''id'', False)]\<rparr>) b a) (map (map_of \<circ> case_fields) (case_select_list t d))"
    by (simp add: sorted_wrt_map)
qed (simp_all add: case_values)

lemma case_one_means:
  "means CASE_SELECT_ONE (sql_tables d) [Sql_uuid t, Sql_uuid i] (map (map snd \<circ> case_fields) (case_select_one t i d))"
proof -
  have sel: "list_all (satisfies [Sql_uuid t, Sql_uuid i] (map_of (case_fields r)))
      [Equal (Column ''tenant_id'') (Param (Suc 0)), Equal (Column ''id'') (Param 2), Is_null (Column ''tombstoned_at'')] \<longleftrightarrow>
      cr_tenant_id r = t \<and> cr_id r = i \<and> cr_tombstoned_at r = None" for r
    by (simp add: fields_defs nullable_null)
  show ?thesis
    by (rule meansI [OF case_one_read, where rows = "map (map_of \<circ> case_fields) (case_select_one t i d)"])
      (simp_all add: matching_def joined_one sql_tables_def filter_map sel o_def case_select_one_def unordered case_values
        del: joined.simps list.pred_inject)
qed

lemma event_means:
  "means EVENT_SELECT (sql_tables d) [Sql_uuid t, Sql_uuid i]
     (map (\<lambda>e. [Sql_uuid (ev_tenant_id e), Sql_uuid (ev_case_id e), Sql_int (ev_case_version e), Sql_text (ev_event_type e),
        Sql_time (ev_occurred_at e)]) (event_select t i d))"
proof -
  have sel: "list_all (satisfies [Sql_uuid t, Sql_uuid i] (map_of (event_fields e)))
      [Equal (Column ''tenant_id'') (Param (Suc 0)), Equal (Column ''event_id'') (Param 2)] \<longleftrightarrow> ev_tenant_id e = t \<and> ev_event_id e = i" for e
    by (simp add: fields_defs)
  show ?thesis
    by (rule meansI [OF event_read, where rows = "map (map_of \<circ> event_fields) (event_select t i d)"])
      (simp_all add: matching_def joined_one sql_tables_def filter_map sel o_def event_select_def unordered
        del: joined.simps list.pred_inject, simp add: fields_defs)
qed

lemma count_means: "means CASE_COUNT (sql_tables d) [] [[Sql_int (int (case_count d))]]"
  by (simp add: means_def count_read answers_of_def matching_def joined_one sql_tables_def case_count_def del: joined.simps)

text \<open>The join: the rows of both tables under their aliases.\<close>

definition member_row :: "tenant_row \<Rightarrow> membership_row \<Rightarrow> sql_row" where
  "member_row t m =
     aliased (Some ''t'') (map_of (tenant_fields t)) ++ aliased (Some ''m'') (map_of (membership_fields m))"

lemma member_columns:
  "column_value (member_row t m) ''t.id'' = Sql_uuid (tn_id t)"
  "column_value (member_row t m) ''t.organization_id'' = Sql_uuid (tn_organization_id t)"
  "column_value (member_row t m) ''m.tenant_id'' = Sql_uuid (mb_tenant_id m)"
  "column_value (member_row t m) ''m.shared_user_id'' = Sql_text (mb_shared_user_id m)"
  "column_value (member_row t m) ''m.role'' = Sql_text (mb_role m)"
  "column_value (member_row t m) ''m.active'' = Sql_bool (mb_active m)"
  by (simp_all add: member_row_def aliased_def map_add_def fields_defs)

lemma member_rows_joined:
  "joined (sql_tables d) [\<lparr>src_table = ''apme_tenants'', src_alias = Some ''t''\<rparr>, \<lparr>src_table = ''apme_tenant_memberships'', src_alias = Some ''m''\<rparr>] =
     [member_row t m. t \<leftarrow> tenants d, m \<leftarrow> memberships d]"
  by (simp add: sql_tables_def member_row_def o_def)

lemma membership_means:
  "means MEMBERSHIP_SELECT (sql_tables d) [Sql_uuid t, Sql_text user]
     (map (\<lambda>(organization, role). [Sql_uuid organization, Sql_text role]) (membership_rows t user d))"
proof (rule meansI [OF membership_read])
  let ?rows = "[member_row a m. a \<leftarrow> tenants d, m \<leftarrow> memberships d,
      mb_tenant_id m = tn_id a, tn_id a = t, mb_shared_user_id m = user, mb_active m]"
  have selected: "[member_row a m. m \<leftarrow> ms, mb_tenant_id m = tn_id a, tn_id a = t, mb_shared_user_id m = user, mb_active m] =
      map (member_row a) (filter (\<lambda>m. mb_tenant_id m = tn_id a \<and> tn_id a = t \<and> mb_shared_user_id m = user \<and> mb_active m) ms)" for a ms
    by (induction ms) simp_all
  show "mset ?rows = mset (matching (sql_tables d) [Sql_uuid t, Sql_text user]
     \<lparr>sel_columns = [''t.organization_id'', ''m.role''],
      sel_sources = [\<lparr>src_table = ''apme_tenants'', src_alias = Some ''t''\<rparr>, \<lparr>src_table = ''apme_tenant_memberships'', src_alias = Some ''m''\<rparr>],
      sel_where = [Equal (Column ''m.tenant_id'') (Column ''t.id''), Equal (Column ''t.id'') (Param 1),
        Equal (Column ''m.shared_user_id'') (Param 2), Holds (Column ''m.active'')],
      sel_order = []\<rparr>)"
    by (simp add: matching_def member_rows_joined filter_concat filter_map member_columns o_def selected del: joined.simps)
  show "map (\<lambda>row. map (column_value row) (sel_columns
     \<lparr>sel_columns = [''t.organization_id'', ''m.role''],
      sel_sources = [\<lparr>src_table = ''apme_tenants'', src_alias = Some ''t''\<rparr>, \<lparr>src_table = ''apme_tenant_memberships'', src_alias = Some ''m''\<rparr>],
      sel_where = [Equal (Column ''m.tenant_id'') (Column ''t.id''), Equal (Column ''t.id'') (Param 1),
        Equal (Column ''m.shared_user_id'') (Param 2), Holds (Column ''m.active'')],
      sel_order = []\<rparr>)) ?rows = map (\<lambda>(organization, role). [Sql_uuid organization, Sql_text role]) (membership_rows t user d)"
    by (auto simp: membership_rows_def map_concat member_columns o_def intro!: arg_cong [where f = concat] map_cong)
qed (simp_all add: unordered)

text \<open>
  C11. The queries of the model are what the SQL says: read as SQL, each of the five query texts of the program, on any database
  and with any parameters, has the answer that the model gives (the listing in the order that the text asks for, newest first), and
  every answer the text can have consists of the same rows.
\<close>

theorem queries_mean_their_text:
  "means CASE_SELECT_LIST (sql_tables d) [Sql_uuid t] (map (map snd \<circ> case_fields) (case_select_list t d)) \<and>
   means CASE_SELECT_ONE (sql_tables d) [Sql_uuid t, Sql_uuid i] (map (map snd \<circ> case_fields) (case_select_one t i d)) \<and>
   means MEMBERSHIP_SELECT (sql_tables d) [Sql_uuid t, Sql_text user]
     (map (\<lambda>(organization, role). [Sql_uuid organization, Sql_text role]) (membership_rows t user d)) \<and>
   means EVENT_SELECT (sql_tables d) [Sql_uuid t, Sql_uuid i]
     (map (\<lambda>e. [Sql_uuid (ev_tenant_id e), Sql_uuid (ev_case_id e), Sql_int (ev_case_version e), Sql_text (ev_event_type e),
        Sql_time (ev_occurred_at e)]) (event_select t i d)) \<and>
   means CASE_COUNT (sql_tables d) [] [[Sql_int (int (case_count d))]]"
  by (intro conjI case_list_means case_one_means membership_means event_means count_means)

end
