(* ===== verification/Unit_Tests.thy ===== *)
theory Unit_Tests
  imports Startup Wire_Format Sql_Text
begin

text \<open>
  The unit tests of the repository, translated and proved of the model: the model gives on every input of the tests what
  the program is tested to give. A test that draws fresh identifiers is a definition over arbitrary ones; libraries
  the tests call are arguments, as everywhere.
\<close>

section \<open>The case service\<close>

definition viewer_cannot_mutate_but_agent_can :: "interfaces \<Rightarrow> bool" where
  "viewer_cannot_mutate_but_agent_can L \<longleftrightarrow>
     (let c = (\<lambda>role. \<lparr>ctx_tenant_id = 0, ctx_organization_id = 0, ctx_role = role\<rparr>) in
      isl (require_mutator L (c Viewer)) \<and> \<not> isl (require_mutator L (c Agent)))"

definition idempotency_key_rejects_empty_control_or_oversized_values :: bool where
  "idempotency_key_rejects_empty_control_or_oversized_values \<longleftrightarrow>
     \<not> isl (validate_idempotency_key ''create-42'') \<and>
     isl (validate_idempotency_key []) \<and>
     isl (validate_idempotency_key (''bad'' @ [char_of (10 :: nat)] @ ''key'')) \<and>
     isl (validate_idempotency_key (replicate 201 (CHR ''a'')))"

lemma case_service_tests:
  "can_create_or_transition L Agent \<and> \<not> can_create_or_transition L Viewer \<longleftrightarrow> viewer_cannot_mutate_but_agent_can L"
  "idempotency_key_rejects_empty_control_or_oversized_values"
proof -
  show "can_create_or_transition L Agent \<and> \<not> can_create_or_transition L Viewer \<longleftrightarrow> viewer_cannot_mutate_but_agent_can L"
    by (auto simp: viewer_cannot_mutate_but_agent_can_def require_mutator_def)
  show idempotency_key_rejects_empty_control_or_oversized_values
    by (simp add: idempotency_key_rejects_empty_control_or_oversized_values_def validate_idempotency_key_def string_eval)
qed

definition case_selects_are_tenant_predicated :: bool where
  "case_selects_are_tenant_predicated \<longleftrightarrow>
     str_contains ''tenant_id = $1'' CASE_SELECT_LIST \<and> str_contains ''tenant_id = $1 and id = $2'' CASE_SELECT_ONE"

text \<open>
  The hashing test hashes values of a type of its own, so the function is needed as generic as it is in the source: over any
  type with a serializer. The service applies it to the inputs of the mutations.
\<close>

definition canonical_hash_of :: "('a \<Rightarrow> string + bytes) \<Rightarrow> (bytes \<Rightarrow> bytes) \<Rightarrow> 'a \<Rightarrow> case_service_error + bytes" where
  "canonical_hash_of to_vec digest value = and_then (map_err Validation (to_vec value)) (\<lambda>bytes. Inr (digest bytes))"

lemma canonical_hash_instance: "canonical_hash L = canonical_hash_of (json_to_vec L) (sha256_digest L)"
  by (simp add: fun_eq_iff canonical_hash_def canonical_hash_of_def)

definition canonical_hash_is_repeatable_and_request_sensitive ::
  "(nat \<times> string \<times> string \<Rightarrow> string + bytes) \<Rightarrow> (bytes \<Rightarrow> bytes) \<Rightarrow> bool" where
  "canonical_hash_is_repeatable_and_request_sensitive to_vec digest \<longleftrightarrow>
     (case (canonical_hash_of to_vec digest (1, ''tenant'', ''request''),
            canonical_hash_of to_vec digest (1, ''tenant'', ''request''),
            canonical_hash_of to_vec digest (1, ''tenant'', ''changed'')) of
        (Inr first, Inr replay, Inr changed) \<Rightarrow> first = replay \<and> first \<noteq> changed
      | _ \<Rightarrow> False)"

text \<open>Where the serializer and the digest are injective, as is documented of the one and assumed of the other.\<close>

lemma hash_test:
  assumes "\<And>x. to_vec x = Inr (text x)" and "inj text" and "inj digest"
  shows "canonical_hash_is_repeatable_and_request_sensitive to_vec digest"
proof -
  have "text (1, ''tenant'', ''request'') \<noteq> text (1, ''tenant'', ''changed'')" using assms(2) by (simp add: inj_eq)
  with assms(1,3) show ?thesis
    by (simp add: canonical_hash_is_repeatable_and_request_sensitive_def canonical_hash_of_def inj_eq)
qed

lemma select_tests: "case_selects_are_tenant_predicated"
  by (simp add: case_selects_are_tenant_predicated_def CASE_SELECT_LIST_def CASE_SELECT_ONE_def)

section \<open>Authentication\<close>

definition test_identity :: identity where
  "test_identity =
     \<lparr>id_shared_user_id = ''shared-user-42'', id_provider = ''shared-auth'', id_provider_tenant = ''default'',
      id_provider_subject = ''provider-user-42'', id_project = None, id_supabase_user_id = None,
      id_session_id = Some ''session-42'', id_email = None, id_email_verified = False,
      id_roles = [], id_amr = [''passkey''], id_acr = None, id_cred = None, id_authority = SharedAuth\<rparr>"

definition test_introspection :: introspection where
  "test_introspection =
     \<lparr>in_active = True, in_sub = Some ''shared-user-42'', in_iss = Some ''https://auth.example'',
      in_aud = Some ''apostille-me'', in_sid = Some ''session-42'', in_exp = Some 1100,
      in_nbf = Some 900, in_scope = Some ''apme:cases:read apme:cases:write''\<rparr>"

definition active_exact_session_is_accepted :: "authority \<Rightarrow> bool" where
  "active_exact_session_is_accepted A \<longleftrightarrow>
     (case validate_active_session A test_identity test_introspection ''https://auth.example'' ''apostille-me''
             [CASES_READ_SCOPE] 1000 of
        Inl _ \<Rightarrow> False
      | Inr subject \<Rightarrow> vs_shared_user_id subject = ''shared-user-42'' \<and> vs_session_id subject = ''session-42'')"

definition revoked_expired_or_wrong_session_fails_closed :: "authority \<Rightarrow> bool" where
  "revoked_expired_or_wrong_session_fails_closed A \<longleftrightarrow>
     (let revoked = test_introspection\<lparr>in_active := False\<rparr>;
          expired = test_introspection\<lparr>in_exp := Some 1000\<rparr>;
          wrong_session = test_introspection\<lparr>in_sid := Some ''other-session''\<rparr> in
      validate_active_session A test_identity revoked ''https://auth.example'' ''apostille-me'' [CASES_READ_SCOPE] 1000 =
        Inl Unauthorized \<and>
      validate_active_session A test_identity expired ''https://auth.example'' ''apostille-me'' [CASES_READ_SCOPE] 1000 =
        Inl Unauthorized \<and>
      validate_active_session A test_identity wrong_session ''https://auth.example'' ''apostille-me'' [CASES_READ_SCOPE] 1000 =
        Inl Unauthorized)"

definition wrong_issuer_or_audience_fails_closed :: "authority \<Rightarrow> bool" where
  "wrong_issuer_or_audience_fails_closed A \<longleftrightarrow>
     validate_active_session A test_identity test_introspection ''https://other.example'' ''apostille-me''
       [CASES_READ_SCOPE] 1000 = Inl Unauthorized \<and>
     validate_active_session A test_identity test_introspection ''https://auth.example'' ''other-product''
       [CASES_READ_SCOPE] 1000 = Inl Unauthorized"

lemmas session_test_defs = active_exact_session_is_accepted_def revoked_expired_or_wrong_session_fails_closed_def
  wrong_issuer_or_audience_fails_closed_def test_identity_def test_introspection_def validate_active_session_def

lemma session_tests:
  "has_scope A test_introspection CASES_READ_SCOPE \<longleftrightarrow> active_exact_session_is_accepted A"
  "revoked_expired_or_wrong_session_fails_closed A"
  "wrong_issuer_or_audience_fails_closed A"
  by (simp_all add: session_test_defs)

section \<open>Origins\<close>

definition accepts_explicit_http_and_https_origins :: "http_values \<Rightarrow> bool" where
  "accepts_explicit_http_and_https_origins H \<longleftrightarrow>
     (case parse_allowed_origins H ''https://app.apostille.me, http://127.0.0.1:3000'' of
        Inl _ \<Rightarrow> False
      | Inr origins \<Rightarrow>
          map (header_to_str H) origins = [Some ''https://app.apostille.me'', Some ''http://127.0.0.1:3000''])"

definition error_mentions :: "string \<Rightarrow> cors_error + 'a \<Rightarrow> bool" where
  "error_mentions text r \<longleftrightarrow> (case r of Inl (Invalid_input message) \<Rightarrow> str_contains text message | _ \<Rightarrow> False)"

definition rejects_wildcard_origin :: "http_values \<Rightarrow> bool" where
  "rejects_wildcard_origin H \<longleftrightarrow> error_mentions ''wildcard'' (parse_allowed_origins H ''*'')"

definition rejects_empty_origin_list :: "http_values \<Rightarrow> bool" where
  "rejects_empty_origin_list H \<longleftrightarrow> error_mentions ''at least one origin'' (parse_allowed_origins H '' , '')"

definition rejects_origin_with_path :: "http_values \<Rightarrow> bool" where
  "rejects_origin_with_path H \<longleftrightarrow>
     error_mentions ''path, query, or fragment'' (parse_allowed_origins H ''https://app.apostille.me/callback'')"

lemmas origin_test_defs = accepts_explicit_http_and_https_origins_def rejects_wildcard_origin_def
  rejects_empty_origin_list_def rejects_origin_with_path_def error_mentions_def parse_allowed_origins_def
  candidates_def comma_def parse_origin_def origin_authority_def

lemma origin_tests:
  "accepts_explicit_http_and_https_origins ref_http"
  "rejects_wildcard_origin H"
  "rejects_empty_origin_list H"
  "rejects_origin_with_path H"
  by (simp_all add: origin_test_defs ref_http_def string_eval)

section \<open>Preflight requests\<close>

text \<open>
  The middleware that applies the origin policy is a library: a function from the policy and a request to the headers of its
  response. Its documentation, for the policies that this program builds: a preflight request (\<^verbatim>\<open>OPTIONS\<close>) is answered with the
  allowed headers of the policy, and with the origin of the request exactly when the policy lists it.
\<close>

record preflight =
  pf_origin :: bytes
  pf_request_method :: string
  pf_request_headers :: "string option"

record cors_headers =
  ch_allow_origin :: "bytes option"
  ch_allow_headers :: "string option"

definition mirrors_listed_origins :: "(cors_layer \<Rightarrow> preflight \<Rightarrow> cors_headers) \<Rightarrow> bool" where
  "mirrors_listed_origins middleware \<longleftrightarrow>
     (\<forall>layer r.
        ch_allow_origin (middleware layer r) = (if pf_origin r \<in> set (cl_origins layer) then Some (pf_origin r) else None) \<and>
        ch_allow_headers (middleware layer r) = Some (join_with comma (cl_headers layer)))"

definition cors_preflight_allows_only_configured_origin_and_headers ::
  "http_values \<Rightarrow> (cors_layer \<Rightarrow> preflight \<Rightarrow> cors_headers) \<Rightarrow> bool" where
  "cors_preflight_allows_only_configured_origin_and_headers H middleware \<longleftrightarrow>
     (case cors_layer_of H ''https://app.apostille.me'' of
        Inl _ \<Rightarrow> False
      | Inr layer \<Rightarrow>
          (let allowed = middleware layer
             \<lparr>pf_origin = ''https://app.apostille.me'', pf_request_method = ''POST'',
              pf_request_headers = Some ''authorization,content-type,x-apme-tenant-id,idempotency-key''\<rparr>;
               rejected = middleware layer
             \<lparr>pf_origin = ''https://evil.example'', pf_request_method = ''POST'', pf_request_headers = None\<rparr> in
           ch_allow_origin allowed = Some ''https://app.apostille.me'' \<and> ch_allow_headers allowed \<noteq> None \<and>
           ch_allow_origin rejected = None))"

text \<open>With such a middleware an origin is allowed exactly when it is one of those the policy was read from.\<close>

lemma preflight_allows_exactly:
  assumes "mirrors_listed_origins middleware" and "cors_layer_of H raw = Inr layer"
  shows "ch_allow_origin (middleware layer r) = Some v \<longleftrightarrow>
    pf_origin r = v \<and> (\<exists>org \<in> set (candidates raw). exact_origin org \<and> header_from_str H org = Some v)"
proof -
  from assms(2) obtain origins where "parse_allowed_origins H raw = Inr origins" "cl_origins layer = origins"
    by (auto simp: cors_layer_of_def result_simps)
  then have "list_all2 (\<lambda>org v. exact_origin org \<and> header_from_str H org = Some v) (candidates raw) (cl_origins layer)"
    by (simp add: parse_allowed_origins_def try_map_Inr_iff parse_origin_iff split: if_splits)
  then have "v \<in> set (cl_origins layer) \<longleftrightarrow> (\<exists>org \<in> set (candidates raw). exact_origin org \<and> header_from_str H org = Some v)"
    by (induction rule: list_all2_induct) auto
  with assms(1) show ?thesis by (auto simp: mirrors_listed_origins_def)
qed

lemma preflight_test:
  assumes "mirrors_listed_origins middleware"
  shows "cors_preflight_allows_only_configured_origin_and_headers ref_http middleware"
proof -
  have "cors_layer_of ref_http ''https://app.apostille.me'' = Inr \<lparr>cl_origins = [''https://app.apostille.me''], cl_methods = [GET, POST],
      cl_headers = [''authorization'', ''content-type'', TENANT_HEADER, IDEMPOTENCY_HEADER]\<rparr>"
    by (simp add: cors_layer_of_def parse_allowed_origins_def candidates_def comma_def parse_origin_def origin_authority_def
        ref_http_def string_eval)
  with assms show ?thesis
    by (simp add: cors_preflight_allows_only_configured_origin_and_headers_def mirrors_listed_origins_def)
qed

section \<open>Subscriptions\<close>

definition websocket_filter_requires_exact_tenant_and_optional_case ::
  "uuid \<Rightarrow> uuid \<Rightarrow> uuid \<Rightarrow> uuid \<Rightarrow> uuid \<Rightarrow> instant \<Rightarrow> bool" where
  "websocket_filter_requires_exact_tenant_and_optional_case tenant case_id event_id other_tenant other_case now \<longleftrightarrow>
     (let event =
        \<lparr>te_tenant_id = tenant, te_case_id = case_id,
         te_event =
           \<lparr>er_event_id = event_id, er_tenant_id = tenant, er_case_id = case_id, er_case_version = 1,
            er_event_type = ''case.created'', er_occurred_at = now, er_event_hash = concat (replicate 32 ''00'')\<rparr>\<rparr> in
      subscription_allows \<lparr>cs_tenant_id = tenant, cs_case_id = None\<rparr> event \<and>
      subscription_allows \<lparr>cs_tenant_id = tenant, cs_case_id = Some case_id\<rparr> event \<and>
      \<not> subscription_allows \<lparr>cs_tenant_id = other_tenant, cs_case_id = None\<rparr> event \<and>
      \<not> subscription_allows \<lparr>cs_tenant_id = tenant, cs_case_id = Some other_case\<rparr> event)"

lemma subscription_test:
  "other_tenant \<noteq> tenant \<and> other_case \<noteq> case_id \<longleftrightarrow>
     websocket_filter_requires_exact_tenant_and_optional_case tenant case_id event_id other_tenant other_case now"
  by (auto simp: websocket_filter_requires_exact_tenant_and_optional_case_def subscription_allows_def)

section \<open>The JetStream worker\<close>

definition signal_is_strict_bounded_and_credential_free :: "status_wire \<Rightarrow> bool" where
  "signal_is_strict_bounded_and_credential_free W \<longleftrightarrow>
     (let valid = ''{\"schema\":\"apme.async-status-request.v1\",\"operation_id\":\"018f5cc6-6d8b-7b2a-9f38-269e6a7b1f11\"}''
      in
      is_ok (decode_signal W valid) \<and>
      isl (decode_signal W
        ''{\"schema\":\"apme.async-status-request.v1\",\"operation_id\":\"018f5cc6-6d8b-7b2a-9f38-269e6a7b1f11\",\"bearer_token\":\"attack\"}'') \<and>
      isl (decode_signal W (replicate (MAX_SIGNAL_BYTES + 1) (CHR ''x''))))"

definition broker_configuration_requires_tls_and_external_credentials :: bool where
  "broker_configuration_requires_tls_and_external_credentials \<longleftrightarrow>
     (let config =
        \<lparr>nats_url = ''nats://localhost:4222'', credentials_path = ''unused.creds'',
         request_stream = DEFAULT_REQUEST_STREAM, response_stream = DEFAULT_RESPONSE_STREAM,
         nats_consumer = DEFAULT_CONSUMER\<rparr> in
      isl (validate_nats_config config))"

lemma worker_tests: "broker_configuration_requires_tls_and_external_credentials"
  by (simp add: broker_configuration_requires_tls_and_external_credentials_def validate_nats_config_def string_eval)

lemma signal_test: "signal_is_strict_bounded_and_credential_free json_status_wire"
proof -
  have valid: "is_ok (decode_signal json_status_wire signal_text)"
    by (simp add: decode_signal_def json_status_wire_def signal_text_read status_request_of_def STATUS_FIELDS_def as_uuid_def read_uuid_def
        REQUEST_SCHEMA_def MAX_SIGNAL_BYTES_def) (simp add: signal_text_def sample_uuid_def)
  have attack: "isl (decode_signal json_status_wire
      ''{\"schema\":\"apme.async-status-request.v1\",\"operation_id\":\"018f5cc6-6d8b-7b2a-9f38-269e6a7b1f11\",\"bearer_token\":\"attack\"}'')"
    by (simp add: decode_signal_def json_status_wire_def read_json_def status_request_of_def STATUS_FIELDS_def string_eval)
  have "isl (decode_signal json_status_wire (replicate (MAX_SIGNAL_BYTES + 1) (CHR ''x'')))"
    by (simp add: decode_signal_def)
  with valid attack show ?thesis
    by (simp add: signal_is_strict_bounded_and_credential_free_def signal_text_def sample_uuid_def Let_def)
qed

section \<open>The framed transport\<close>

definition request_is_strict_bounded_and_requires_a_fresh_user_bearer :: "wire \<Rightarrow> string \<Rightarrow> string \<Rightarrow> bool" where
  "request_is_strict_bounded_and_requires_a_fresh_user_bearer W request_id tenant \<longleftrightarrow>
     (let valid = ''{\"request_id\":\"'' @ request_id @ ''\",\"tenant_id\":\"'' @ tenant @
            ''\",\"bearer_token\":\"synthetic.token\",\"operation\":\"list_cases\"}'';
          injected = ''{\"request_id\":\"'' @ request_id @ ''\",\"tenant_id\":\"'' @ tenant @
            ''\",\"bearer_token\":\"synthetic.token\",\"operation\":\"list_cases\",\"subject\":\"injected\"}''
      in length valid \<le> MAX_REQUEST_BYTES \<and> parse_request W valid \<noteq> None \<and> parse_request W injected = None)"

lemma frame_test: "request_is_strict_bounded_and_requires_a_fresh_user_bearer json_wire sample_uuid sample_uuid"
proof -
  have "length (frame_text []) \<le> MAX_REQUEST_BYTES" by (simp add: frame_text_def sample_uuid_def MAX_REQUEST_BYTES_def)
  moreover have "parse_request json_wire (frame_text []) \<noteq> None"
    by (simp add: json_wire_def frame_text_read frame_request_of_def FRAME_FIELDS_def as_uuid_def read_uuid_def as_operation_def)
  moreover have "parse_request json_wire (frame_text '',\"subject\":\"injected\"'') = None"
    by (simp add: json_wire_def frame_text_read frame_request_of_def FRAME_FIELDS_def)
  ultimately show ?thesis
    by (simp add: request_is_strict_bounded_and_requires_a_fresh_user_bearer_def frame_text_def Let_def)
qed

end
