(* ===== verification/Duplicates.thy ===== *)
theory Duplicates
  imports Concurrent_Properties
begin

text \<open>
  The same mutating request several times at once: however the calls of the copies interleave, all are answered with the same
  case and event, exactly one as fresh, and its event is announced exactly once.
\<close>

section \<open>Programs that settle and programs that await a statement\<close>

text \<open>On every database of a set the program makes the same reads and returns the same.\<close>

inductive settles :: "'d set \<Rightarrow> ('d, 'e, 'a) prog \<Rightarrow> 'e + 'a \<Rightarrow> bool" for E where
  settles_done: "settles E (Done r) r"
| settles_call: "(\<And>e. e \<in> E \<Longrightarrow> c None e = (p, e)) \<Longrightarrow> settles E p r \<Longrightarrow> settles E (Call c) r"

inductive_cases settles_doneE: "settles E (Done x) r"
inductive_cases settles_callE: "settles E (Call c) r"

text \<open>On every database of a set the program makes the same reads, then runs one statement and goes on with its outcome.\<close>

inductive awaits ::
  "'d set \<Rightarrow> ('d, 'b) stmt \<Rightarrow> (sql_error + 'b \<Rightarrow> ('d, 'e, 'a) prog) \<Rightarrow> ('d, 'e, 'a) prog \<Rightarrow> bool" for E q k where
  awaits_here: "awaits E q k (Call (\<lambda>f e. map_prod k id (faulty_call q f e)))"
| awaits_read: "(\<And>e. e \<in> E \<Longrightarrow> c None e = (p, e)) \<Longrightarrow> awaits E q k p \<Longrightarrow> awaits E q k (Call c)"

inductive_cases awaits_doneE: "awaits E q k (Done r)"
inductive_cases awaits_callE: "awaits E q k (Call c)"

lemma settles_unique: "settles E p r \<Longrightarrow> e \<in> E \<Longrightarrow> settles E p r' \<Longrightarrow> r = r'"
  by (induction rule: settles.induct) (auto elim!: settles_doneE settles_callE)

lemma settles_subset: "settles E p r \<Longrightarrow> E' \<subseteq> E \<Longrightarrow> settles E' p r"
  by (induction rule: settles.induct) (auto intro: settles.intros)

lemma settles_then: "settles E p (Inr x) \<Longrightarrow> settles E (g x) r \<Longrightarrow> settles E (then_prog p g) r"
proof (induction p "Inr x :: 'b + 'c" rule: settles.induct)
  case settles_done
  then show ?case by simp
next
  case (settles_call c p)
  then show ?case by (auto intro!: settles.settles_call)
qed

lemma settles_map_err: "settles E p r \<Longrightarrow> settles E (map_err_prog h p) (map_err h r)"
  by (induction rule: settles.induct) (auto intro!: settles.intros)

lemma settles_query: "(\<And>e. e \<in> E \<Longrightarrow> q e = r) \<Longrightarrow> settles E (call (query q)) r"
  unfolding call_def
  by (rule settles.settles_call [of _ _ "Done r"])
    (auto simp: faulty_call_def run_stmt_def query_def intro: settles.intros split: sum.splits)

lemma settles_statement: "faulty_call q None e = (r, e) \<Longrightarrow> settles {e} (call q) r"
  unfolding call_def by (rule settles.settles_call [of _ _ "Done r"]) (auto intro: settles.intros)

lemma awaits_call: "awaits E q Done (call q)"
  unfolding call_def by (rule awaits.awaits_here)

lemma awaits_then: "awaits E q k p \<Longrightarrow> awaits E q (\<lambda>r. then_prog (k r) g) (then_prog p g)"
proof (induction rule: awaits.induct)
  case awaits_here
  have "(\<lambda>f e. map_prod (\<lambda>p. then_prog p g) id (map_prod k id (faulty_call q f e))) =
      (\<lambda>f e. map_prod (\<lambda>r. then_prog (k r) g) id (faulty_call q f e))"
    by (simp add: fun_eq_iff prod.map_comp o_def id_def)
  then show ?case using awaits.awaits_here [of E q "\<lambda>r. then_prog (k r) g"] by simp
next
  case (awaits_read c p)
  then show ?case by (auto intro!: awaits.awaits_read)
qed

lemma awaits_map_err: "awaits E q k p \<Longrightarrow> awaits E q (\<lambda>r. map_err_prog h (k r)) (map_err_prog h p)"
proof (induction rule: awaits.induct)
  case awaits_here
  have "(\<lambda>f e. map_prod (map_err_prog h) id (map_prod k id (faulty_call q f e))) =
      (\<lambda>f e. map_prod (\<lambda>r. map_err_prog h (k r)) id (faulty_call q f e))"
    by (simp add: fun_eq_iff prod.map_comp o_def id_def)
  then show ?case using awaits.awaits_here [of E q "\<lambda>r. map_err_prog h (k r)"] by simp
next
  case (awaits_read c p)
  then show ?case by (auto intro!: awaits.awaits_read)
qed

lemma awaits_after: "settles E p (Inr x) \<Longrightarrow> awaits E q k (g x) \<Longrightarrow> awaits E q k (then_prog p g)"
proof (induction p "Inr x :: 'b + 'c" rule: settles.induct)
  case settles_done
  then show ?case by simp
next
  case (settles_call c p)
  then show ?case by (auto intro!: awaits.awaits_read)
qed

lemma awaits_settles:
  "awaits E q k p \<Longrightarrow> e \<in> E \<Longrightarrow> faulty_call q None e = (r, e) \<Longrightarrow> settles {e} (k r) res \<Longrightarrow> settles {e} p res"
proof (induction rule: awaits.induct)
  case awaits_here
  then show ?case by (intro settles.settles_call [of _ _ "k r"]) auto
next
  case (awaits_read c p)
  then show ?case by (auto intro: settles.settles_call)
qed


section \<open>A mutating request\<close>

lemma gate_settles:
  assumes "admits_mutation D h \<lparr>store = d, agenda = []\<rparr> subject c key w" and "\<And>e. e \<in> E \<Longrightarrow> same_members d e"
  shows "settles E (gate_prog D h [CASES_WRITE_SCOPE]) (Inr (subject, c))"
proof -
  from assms(1) obtain tenant where g: "grants_here D h [CASES_WRITE_SCOPE] subject" and t: "tenant_id D h = Inr tenant"
    and ctx: "tenant_context subject tenant \<lparr>store = d, agenda = []\<rparr> = (Inr c, w)"
    by (auto simp: admits_mutation_def)
  let ?found = "fetch_optional (membership_rows tenant (vs_shared_user_id subject) d)"
  have "membership_rows tenant (vs_shared_user_id subject) e = membership_rows tenant (vs_shared_user_id subject) d" if "e \<in> E" for e
    using assms(2) [OF that] by (simp add: membership_rows_def same_members_def)
  then have found: "settles E (call (query (\<lambda>e. Inr (fetch_optional (membership_rows tenant (vs_shared_user_id subject) e)))))
      (Inr ?found)"
    by (intro settles_query) simp
  from ctx have "and_then (ok_or NotAuthorized ?found) (\<lambda>(organization, role_name).
      and_then (parse_role role_name) (\<lambda>role.
      Inr \<lparr>ctx_tenant_id = tenant, ctx_organization_id = organization, ctx_role = role\<rparr>)) = Inr c"
    by (auto simp: tenant_context_def result_simps dest!: db_call_query_Inr simp: presented_def)
  with settles_map_err [OF found, of Storage] have "settles E (tenant_context_prog subject tenant) (Inr c)"
    unfolding tenant_context_prog_def by (intro settles_then [where x = ?found]) (simp_all add: settles.settles_done)
  from settles_map_err [OF this, of Cases_error] g t show ?thesis
    unfolding gate_prog_def authenticate_grants [symmetric]
    by (simp add: settles_then [where x = c] settles.settles_done)
qed

lemma mutation_awaits:
  assumes "admits_mutation D h \<lparr>store = d, agenda = []\<rparr> subject c key w" and "\<And>e. e \<in> E \<Longrightarrow> same_members d e"
    and "prepare (dep_interfaces D) (dep_procs D) c subject key (dep_clock D) x = Inr st"
  shows "awaits E st (after_statement x c) (mutation_prog D h x)"
proof -
  have "idempotency_key D h = Inr key" using assms(1) by (simp add: admits_mutation_def)
  moreover have "awaits E st (after_statement x c)
      (then_prog (map_err_prog Cases_error (mutate_prog (dep_interfaces D) (dep_procs D) c subject key (dep_clock D) x))
        (\<lambda>m. Done (outcome x m)))"
    unfolding after_statement_def mutate_prog_def assms(3)
    by (simp only: then_prog.simps sum.case) (intro awaits_then awaits_map_err awaits_call)
  ultimately show ?thesis
    unfolding mutation_prog_def by (intro awaits_after [OF gate_settles [OF assms(1,2)]]) (simp_all add: outcome_def)
qed

lemma mutation_result_settles:
  assumes "mutation_result c row \<lparr>store = e, agenda = []\<rparr> = (Inr m, w)"
  shows "settles {e} (mutation_result_prog c row) (Inr m)"
proof -
  from assms obtain y ev where
    y: "and_then (ok_or NotFound (fetch_optional (case_select_one (ctx_tenant_id c) (mu_case_id row) e))) case_from_row = Inr y"
    and ev: "fetch_one (event_select (ctx_tenant_id c) (mu_event_id row) e) = Inr ev"
    and m: "m = \<lparr>mr_case = y, mr_event = \<lparr>er_event_id = mu_event_id row, er_tenant_id = ev_tenant_id ev,
        er_case_id = ev_case_id ev, er_case_version = ev_case_version ev, er_event_type = ev_event_type ev,
        er_occurred_at = ev_occurred_at ev, er_event_hash = mu_event_hash row\<rparr>, mr_replayed = mu_replayed row\<rparr>"
    by (cases "fetch_one (event_select (ctx_tenant_id c) (mu_event_id row) e)")
      (auto simp: mutation_result_def bind_try_def calm_reading calm_event_read map_err_def split: sum.splits)
  let ?found = "fetch_optional (case_select_one (ctx_tenant_id c) (mu_case_id row) e)"
  have "settles {e} (call (query (\<lambda>d. Inr (fetch_optional (case_select_one (ctx_tenant_id c) (mu_case_id row) d))))) (Inr ?found)"
    by (intro settles_query) simp
  from settles_map_err [OF this, of Storage] y have get: "settles {e} (get_case_prog c (mu_case_id row)) (Inr y)"
    unfolding get_case_prog_def by (intro settles_then [where x = ?found]) (simp_all add: settles.settles_done)
  have "settles {e} (call (query (\<lambda>d. fetch_one (event_select (ctx_tenant_id c) (mu_event_id row) d)))) (Inr ev)"
    using ev by (intro settles_query) simp
  from settles_map_err [OF this, of Storage] get show ?thesis
    unfolding mutation_result_prog_def m
    by (intro settles_then [where x = y] settles_then [where x = ev]) (simp_all add: settles.settles_done)
qed

lemma after_statement_settles:
  assumes "mutation_result c row \<lparr>store = e, agenda = []\<rparr> = (Inr m, w)"
  shows "settles {e} (after_statement x c (Inr row)) (outcome x m)"
  using settles_map_err [OF mutation_result_settles [OF assms], of Cases_error]
  unfolding after_statement_def by (intro settles_then [where x = m]) (simp_all add: settles.settles_done)


section \<open>The race\<close>

text \<open>
  Copies of one request are in a race when each reaches the same statement whatever the others did, the first statement
  to run settles the outcome, and every statement run after it is a replay.
\<close>

definition race ::
  "'x database_scheme deps \<Rightarrow> request \<Rightarrow> 'x database_scheme \<Rightarrow> int set \<Rightarrow> mutation \<Rightarrow>
     (sql_error + mutation_row \<Rightarrow> ('x database_scheme, api_error, reply) prog) \<Rightarrow>
     (int \<Rightarrow> ('x database_scheme, mutation_row) stmt) \<Rightarrow> (int \<Rightarrow> case_mutation_result) \<Rightarrow> (int \<Rightarrow> 'x database_scheme) \<Rightarrow> bool" where
  "race D r d T x k st m after \<longleftrightarrow> (\<forall>t \<in> T.
     awaits (insert d (after ` T)) (st t) k (handle_prog (D\<lparr>dep_clock := t\<rparr>) r) \<and> \<not> mr_replayed (m t) \<and>
     (\<exists>res. faulty_call (st t) None d = (res, after t) \<and> settles {after t} (k res) (outcome x (m t))) \<and>
     (\<forall>t' \<in> T. \<exists>res. faulty_call (st t') None (after t) = (res, after t) \<and>
        settles {after t} (k res) (outcome x (m t\<lparr>mr_replayed := True\<rparr>))))"

text \<open>A request that, alone on this database at this time, succeeds and is not a replay.\<close>

definition succeeds_fresh :: "'x database_scheme deps \<Rightarrow> request \<Rightarrow> 'x database_scheme \<Rightarrow> int \<Rightarrow> bool" where
  "succeeds_fresh D r d t \<longleftrightarrow>
     (\<exists>status m s'. handle (D\<lparr>dep_clock := t\<rparr>) r \<lparr>app_cases = \<lparr>store = d, agenda = []\<rparr>, app_events = []\<rparr> =
        (Inr (status, Mutation_body m), s') \<and> \<not> mr_replayed m)"

lemma prepare_valid: "prepare L P c subject key now x = Inr st \<Longrightarrow> valid_at L now x"
  by (cases x) (auto simp: prepare_create_def result_simps)

lemma succeeds_freshE:
  assumes "succeeds_fresh D r d t" and "mutation_of r = Some x"
  obtains subject c key m v where
    "admits_mutation (D\<lparr>dep_clock := t\<rparr>) (headers_of r) \<lparr>store = d, agenda = []\<rparr> subject c key \<lparr>store = d, agenda = []\<rparr>"
    "mutate (dep_interfaces D) (dep_procs D) c subject key t x \<lparr>store = d, agenda = []\<rparr> = (Inr m, v)" "\<not> mr_replayed m"
proof -
  let ?s = "\<lparr>app_cases = \<lparr>store = d, agenda = []\<rparr>, app_events = []\<rparr>"
  from assms obtain status m s' where fresh: "\<not> mr_replayed m"
    and run: "mutation_handler (D\<lparr>dep_clock := t\<rparr>) (headers_of r) (run_for (D\<lparr>dep_clock := t\<rparr>) x) (success_status x) ?s =
      (Inr (status, Mutation_body m), s')"
    by (auto simp: succeeds_fresh_def handle_mutation)
  have "agenda (app_cases ?s) = []" by simp
  from this run show thesis by (rule mutation_handler_admits) (use that fresh in \<open>auto simp: run_for_def\<close>)
qed

text \<open>Who asks, for which tenant and with which key does not depend on the time.\<close>

lemma succeeds_fresh_same:
  assumes "succeeds_fresh D r d t" and "mutation_of r = Some x"
    and "admits_mutation (D\<lparr>dep_clock := t0\<rparr>) (headers_of r) \<lparr>store = d, agenda = []\<rparr> subject c key \<lparr>store = d, agenda = []\<rparr>"
  shows "admits_mutation (D\<lparr>dep_clock := t\<rparr>) (headers_of r) \<lparr>store = d, agenda = []\<rparr> subject c key \<lparr>store = d, agenda = []\<rparr> \<and>
    (\<exists>m v. mutate (dep_interfaces D) (dep_procs D) c subject key t x \<lparr>store = d, agenda = []\<rparr> = (Inr m, v) \<and> \<not> mr_replayed m)"
proof -
  from assms(1,2) obtain subject' c' key' m v where
    adm: "admits_mutation (D\<lparr>dep_clock := t\<rparr>) (headers_of r) \<lparr>store = d, agenda = []\<rparr> subject' c' key' \<lparr>store = d, agenda = []\<rparr>"
    and run: "mutate (dep_interfaces D) (dep_procs D) c' subject' key' t x \<lparr>store = d, agenda = []\<rparr> = (Inr m, v)"
    and fresh: "\<not> mr_replayed m"
    by (rule succeeds_freshE)
  from assms(3) adm have "subject' = subject"
    using grants_unique [of "D\<lparr>dep_clock := t0\<rparr>" "headers_of r" "[CASES_WRITE_SCOPE]" subject t subject']
    by (simp add: admits_mutation_def)
  with assms(3) adm have "c' = c" "key' = key" by (auto simp: admits_mutation_def tenant_id_def idempotency_key_def)
  with adm run fresh \<open>subject' = subject\<close> show ?thesis by blast
qed

text \<open>What a copy that would succeed afresh does on the database it finds.\<close>

lemma fresh_outcome:
  assumes x: "mutation_of r = Some x" and fresh: "succeeds_fresh D r d t"
    and adm0: "admits_mutation (D\<lparr>dep_clock := t0\<rparr>) (headers_of r) \<lparr>store = d, agenda = []\<rparr> subject c key \<lparr>store = d, agenda = []\<rparr>"
  shows "\<exists>st row m e. admits_mutation (D\<lparr>dep_clock := t\<rparr>) (headers_of r) \<lparr>store = d, agenda = []\<rparr> subject c key \<lparr>store = d, agenda = []\<rparr> \<and>
    prepare (dep_interfaces D) (dep_procs D) c subject key t x = Inr st \<and> st d = Inr (row, e) \<and>
    mutation_result c row \<lparr>store = e, agenda = []\<rparr> = (Inr m, \<lparr>store = e, agenda = []\<rparr>) \<and> \<not> mr_replayed m"
proof -
  let ?w = "\<lparr>store = d, agenda = []\<rparr>"
  from succeeds_fresh_same [OF fresh x adm0] obtain m v where
    adm: "admits_mutation (D\<lparr>dep_clock := t\<rparr>) (headers_of r) ?w subject c key ?w" and m: "\<not> mr_replayed m"
    and run: "(\<lambda>(subject, key, now). mutate (dep_interfaces D) (dep_procs D) c subject key now x) (subject, key, t) ?w = (Inr m, v)"
    by auto
  have "agenda ?w = []" by simp
  from mutating.calm_run [OF this run] obtain st row where
    "prepare (dep_interfaces D) (dep_procs D) c subject key t x = Inr st" "st d = Inr (row, store v)"
    "mutation_result c row v = (Inr m, v)" "agenda v = []"
    by auto
  moreover from this have "v = \<lparr>store = store v, agenda = []\<rparr>" by simp
  ultimately show ?thesis using adm m by metis
qed

lemma fresh_race:
  assumes P: "mutations_replay (dep_procs D)" "mutations_keep_members (dep_procs D)"
    and x: "mutation_of r = Some x" and fresh: "\<And>t. t \<in> T \<Longrightarrow> succeeds_fresh D r d t" and "t0 \<in> T"
  shows "\<exists>k st m after. race D r d T x k st m after"
proof -
  let ?w = "\<lparr>store = d, agenda = []\<rparr>"
  from fresh [OF \<open>t0 \<in> T\<close>] x obtain subject c key where
    adm0: "admits_mutation (D\<lparr>dep_clock := t0\<rparr>) (headers_of r) ?w subject c key ?w"
    by (rule succeeds_freshE)
  from fresh_outcome [OF x fresh adm0] obtain st row m after where
    all: "\<And>t. t \<in> T \<Longrightarrow> admits_mutation (D\<lparr>dep_clock := t\<rparr>) (headers_of r) ?w subject c key ?w \<and>
      prepare (dep_interfaces D) (dep_procs D) c subject key t x = Inr (st t) \<and> st t d = Inr (row t, after t) \<and>
      mutation_result c (row t) \<lparr>store = after t, agenda = []\<rparr> = (Inr (m t), \<lparr>store = after t, agenda = []\<rparr>) \<and> \<not> mr_replayed (m t)"
    by metis
  have members: "same_members d e" if "e \<in> insert d (after ` T)" for e
    using that all prepare_keeps_members [OF P(2)] by (auto simp: same_members_def) blast+
  have prog: "handle_prog (D\<lparr>dep_clock := t\<rparr>) r = mutation_prog (D\<lparr>dep_clock := t\<rparr>) (headers_of r) x" for t
    using x by (cases r) auto
  have replay: "st t' (after t) = Inr (row t\<lparr>mu_replayed := True\<rparr>, after t)" if "t \<in> T" "t' \<in> T" for t t'
    using prepare_later [OF P(1), of "dep_interfaces D" c subject key t x "st t" t'] all [OF that(1)] all [OF that(2)]
      prepare_valid [of "dep_interfaces D" "dep_procs D" c subject key t' x "st t'"]
    by (auto simp: repeats_def)
  have "race D r d T x (after_statement x c) st m after"
    unfolding race_def
  proof (intro ballI conjI, goal_cases)
    case (1 t)
    show ?case unfolding prog by (rule mutation_awaits [where subject = subject and key = key]) (use all [OF 1] members in auto)
  next
    case (3 t)
    with all [OF 3] show ?case
      by (intro exI [of _ "Inr (row t)"] conjI after_statement_settles) (auto simp: faulty_call_def run_stmt_def)
  next
    case (4 t t')
    from all [OF 4(1)] have "mutation_result c (row t\<lparr>mu_replayed := True\<rparr>) \<lparr>store = after t, agenda = []\<rparr> =
        (Inr (m t\<lparr>mr_replayed := True\<rparr>), \<lparr>store = after t, agenda = []\<rparr>)"
      using mutation_result_replayed by blast
    with replay [OF 4] show ?case
      by (intro exI [of _ "Inr (row t\<lparr>mu_replayed := True\<rparr>)"] conjI after_statement_settles)
        (auto simp: faulty_call_def run_stmt_def)
  qed (use all in simp)
  then show ?thesis by blast
qed


section \<open>Running the race\<close>

text \<open>Runs in which only copies of one request arrive, at times out of a set, on a database that nobody else uses.\<close>

fun duplicate_label :: "request \<Rightarrow> int set \<Rightarrow> service_label \<Rightarrow> bool" where
  "duplicate_label r T (Arrives _ t q) \<longleftrightarrow> q = r \<and> t \<in> T"
| "duplicate_label r T (Calls _ f) \<longleftrightarrow> f = None"
| "duplicate_label r T (Answers _ _ _ _) \<longleftrightarrow> True"
| "duplicate_label r T Other_writes \<longleftrightarrow> False"

definition duplicates_only :: "request \<Rightarrow> int set \<Rightarrow> ('d \<times> service_label) list \<Rightarrow> bool" where
  "duplicates_only r T history \<longleftrightarrow> list_all (duplicate_label r T \<circ> snd) history"

text \<open>Before the first statement: every copy still awaits its own.\<close>

definition undecided ::
  "'x database_scheme deps \<Rightarrow> request \<Rightarrow> 'x database_scheme \<Rightarrow> int set \<Rightarrow>
     (sql_error + mutation_row \<Rightarrow> ('x database_scheme, api_error, reply) prog) \<Rightarrow>
     (int \<Rightarrow> ('x database_scheme, mutation_row) stmt) \<Rightarrow> (int \<Rightarrow> 'x database_scheme) \<Rightarrow> tenant_event list \<Rightarrow>
     (api_error + reply) list \<Rightarrow> 'x database_scheme service \<Rightarrow> bool" where
  "undecided D r d T k st after base results s \<longleftrightarrow>
     sv_store s = d \<and> sv_events s = base \<and> results = [] \<and>
     (\<forall>i t q p. sv_flight s i = Some (t, q, p) \<longrightarrow> t \<in> T \<and> awaits (insert d (after ` T)) (st t) k p)"

text \<open>After it: one copy, the winner, will answer or has answered with the fresh result, and all others with the replay.\<close>

definition decided ::
  "mutation \<Rightarrow> case_mutation_result \<Rightarrow> 'x database_scheme \<Rightarrow> nat option \<Rightarrow> tenant_event list \<Rightarrow>
     (api_error + reply) list \<Rightarrow> 'x database_scheme service \<Rightarrow> bool" where
  "decided x m e winner base results s \<longleftrightarrow>
     sv_store s = e \<and> (\<forall>i. winner = Some i \<longrightarrow> sv_flight s i \<noteq> None) \<and>
     sv_events s = base @ (if winner = None then [event_of m] else []) \<and>
     set results \<subseteq> {outcome x m, outcome x (m\<lparr>mr_replayed := True\<rparr>)} \<and>
     count_list results (outcome x m) = (if winner = None then 1 else 0) \<and>
     (\<forall>i t q p. sv_flight s i = Some (t, q, p) \<longrightarrow>
        settles {e} p (outcome x (if winner = Some i then m else m\<lparr>mr_replayed := True\<rparr>)))"

definition results :: "('d \<times> service_label) list \<Rightarrow> (api_error + reply) list" where
  "results history = map (\<lambda>(t, r, result). result) (answers history)"

lemma results_append [simp]: "results (xs @ ys) = results xs @ results ys"
  by (simp add: results_def)

lemma outcome_fresh:
  "\<not> mr_replayed m \<Longrightarrow> outcome x (m\<lparr>mr_replayed := True\<rparr>) \<noteq> outcome x m"
  by (auto simp: outcome_def) (metis case_mutation_result.select_convs(3) case_mutation_result.surjective case_mutation_result.update_convs(3))

lemma published_outcome [simp]: "published (outcome x m) = (if mr_replayed m then [] else [event_of m])"
  by (simp add: outcome_def)

lemma awaits_step:
  assumes "awaits E q k (Call c)" and "e \<in> E" and "c None e = (p, e')"
  shows "(e' = e \<and> awaits E q k p) \<or> (\<exists>res. faulty_call q None e = (res, e') \<and> p = k res)"
  using assms by (cases "faulty_call q None e") (auto elim!: awaits_callE)

lemma settles_step: "settles {e} (Call c) res \<Longrightarrow> c None e = (p, e') \<Longrightarrow> e' = e \<and> settles {e} p res"
  by (auto elim!: settles_callE)

lemma decided_step:
  assumes dec: "decided x m e winner base (results history) s" and fresh: "\<not> mr_replayed m"
    and step: "service_step D s l s'" and lab: "duplicate_label r T l"
    and new: "\<And>t. t \<in> T \<Longrightarrow> settles {e} (handle_prog (D\<lparr>dep_clock := t\<rparr>) r) (outcome x (m\<lparr>mr_replayed := True\<rparr>))"
  shows "\<exists>winner. decided x m e winner base (results (history @ [(sv_store s, l)])) s'"
  using step
proof (rule service_stepE)
  fix i t q
  assume *: "l = Arrives i t q" "sv_flight s i = None"
    "s' = s\<lparr>sv_flight := (sv_flight s)(i \<mapsto> (t, q, handle_prog (D\<lparr>dep_clock := t\<rparr>) q))\<rparr>"
  with dec have "winner \<noteq> Some i" by (auto simp: decided_def)
  with * dec lab new [of t] show ?thesis by (intro exI [of _ winner]) (auto simp: decided_def results_def)
next
  fix i t q c f p d
  assume *: "l = Calls i f" "sv_flight s i = Some (t, q, Call c)" "c f (sv_store s) = (p, d)"
    "s' = s\<lparr>sv_store := d, sv_flight := (sv_flight s)(i \<mapsto> (t, q, p))\<rparr>"
  from * dec have "settles {e} (Call c) (outcome x (if winner = Some i then m else m\<lparr>mr_replayed := True\<rparr>))"
    by (auto simp: decided_def)
  from settles_step [OF this] * lab dec have "d = e" "settles {e} p (outcome x (if winner = Some i then m else m\<lparr>mr_replayed := True\<rparr>))"
    by (auto simp: decided_def)
  with * dec show ?thesis by (intro exI [of _ winner]) (auto simp: decided_def results_def)
next
  fix i t q result
  assume *: "l = Answers i t q result" "sv_flight s i = Some (t, q, Done result)"
    "s' = s\<lparr>sv_events := sv_events s @ published result, sv_flight := (sv_flight s)(i := None)\<rparr>"
  with dec have "settles {e} (Done result) (outcome x (if winner = Some i then m else m\<lparr>mr_replayed := True\<rparr>))"
    by (simp add: decided_def)
  then have res: "result = outcome x (if winner = Some i then m else m\<lparr>mr_replayed := True\<rparr>)" by (auto elim: settles_doneE)
  have hist: "results (history @ [(sv_store s, l)]) = results history @ [result]" using * by (simp add: results_def)
  have others: "settles {e} p (outcome x (m\<lparr>mr_replayed := True\<rparr>))" if "sv_flight s j = Some (u, q', p)" "winner \<noteq> Some j" for j u q' p
    using dec that by (auto simp: decided_def split: if_splits)
  show ?thesis
  proof (cases "winner = Some i")
    case True
    with * dec res fresh hist outcome_fresh [OF fresh, of x] others show ?thesis
      by (intro exI [of _ None]) (auto simp: decided_def)
  next
    case False
    with * dec res hist outcome_fresh [OF fresh, of x] show ?thesis
      by (intro exI [of _ winner]) (auto simp: decided_def)
  qed
qed (use lab in simp_all)

lemma race_replays:
  assumes "race D r d T x k st m after" and "t \<in> T" and "u \<in> T" and "awaits (insert d (after ` T)) (st u) k p"
  shows "settles {after t} p (outcome x (m t\<lparr>mr_replayed := True\<rparr>))"
proof -
  from assms(1-3) obtain res where "faulty_call (st u) None (after t) = (res, after t)"
    "settles {after t} (k res) (outcome x (m t\<lparr>mr_replayed := True\<rparr>))"
    unfolding race_def by blast
  with assms(2,4) show ?thesis using awaits_settles [of "insert d (after ` T)" "st u" k p "after t"] by blast
qed

lemma undecided_step:
  assumes race: "race D r d T x k st m after" and und: "undecided D r d T k st after base (results history) s"
    and step: "service_step D s l s'" and lab: "duplicate_label r T l"
  shows "undecided D r d T k st after base (results (history @ [(sv_store s, l)])) s' \<or>
    (\<exists>t winner. t \<in> T \<and> decided x (m t) (after t) winner base (results (history @ [(sv_store s, l)])) s')"
  using step
proof (rule service_stepE)
  fix i t q
  assume "l = Arrives i t q" "s' = s\<lparr>sv_flight := (sv_flight s)(i \<mapsto> (t, q, handle_prog (D\<lparr>dep_clock := t\<rparr>) q))\<rparr>"
  with und lab race have "undecided D r d T k st after base (results (history @ [(sv_store s, l)])) s'"
    by (auto simp: undecided_def race_def results_def)
  then show ?thesis ..
next
  fix i t q c f p e
  assume *: "l = Calls i f" "sv_flight s i = Some (t, q, Call c)" "c f (sv_store s) = (p, e)"
    "s' = s\<lparr>sv_store := e, sv_flight := (sv_flight s)(i \<mapsto> (t, q, p))\<rparr>"
  let ?E = "insert d (after ` T)"
  from * und lab have t: "t \<in> T" and wait: "awaits ?E (st t) k (Call c)" and c: "c None d = (p, e)"
    by (auto simp: undecided_def)
  from awaits_step [OF wait _ c] consider "e = d" "awaits ?E (st t) k p" | res where "faulty_call (st t) None d = (res, e)" "p = k res"
    by auto
  then show ?thesis
  proof cases
    case 1
    with * und t have "undecided D r d T k st after base (results (history @ [(sv_store s, l)])) s'"
      by (auto simp: undecided_def results_def)
    then show ?thesis ..
  next
    case 2
    with race t have e: "e = after t" and p: "settles {after t} p (outcome x (m t))" by (auto simp: race_def)
    have "settles {after t} p' (outcome x (m t\<lparr>mr_replayed := True\<rparr>))" if "sv_flight s j = Some (u, q', p')" for j u q' p'
      using und that race_replays [OF race t] unfolding undecided_def by blast
    with * und e p t have "decided x (m t) (after t) (Some i) base (results (history @ [(sv_store s, l)])) s'"
      by (auto simp: decided_def undecided_def results_def)
    with t show ?thesis by blast
  qed
next
  fix i t q result
  assume "sv_flight s i = Some (t, q, Done result)"
  with und have "awaits (insert d (after ` T)) (st t) k (Done result)" by (auto simp: undecided_def)
  then show ?thesis by (rule awaits_doneE)
qed (use lab in simp_all)

lemma race_run:
  assumes "service_run D s history s'" and race: "race D r d T x k st m after"
    and "sv_flight s = Map.empty" and "sv_store s = d" and "duplicates_only r T history"
  shows "undecided D r d T k st after (sv_events s) (results history) s' \<or>
    (\<exists>t winner. t \<in> T \<and> decided x (m t) (after t) winner (sv_events s) (results history) s')"
  using assms(1,3-)
proof (induction rule: service_run.induct)
  case (stay s)
  then show ?case by (simp add: undecided_def results_def)
next
  case (later s history s' l s'')
  from later.prems have lab: "duplicate_label r T l" by (simp add: duplicates_only_def)
  from later consider "undecided D r d T k st after (sv_events s) (results history) s'"
    | t winner where "t \<in> T" "decided x (m t) (after t) winner (sv_events s) (results history) s'"
    by (auto simp: duplicates_only_def)
  then show ?case
  proof cases
    case 1
    from undecided_step [OF race this later.hyps(2) lab] show ?thesis .
  next
    case (2 t)
    have "settles {after t} (handle_prog (D\<lparr>dep_clock := u\<rparr>) r) (outcome x (m t\<lparr>mr_replayed := True\<rparr>))" if u: "u \<in> T" for u
      using race u by (intro race_replays [OF race 2(1) u]) (simp add: race_def)
    moreover from race 2(1) have "\<not> mr_replayed (m t)" by (simp add: race_def)
    ultimately show ?thesis using decided_step [OF 2(2) _ later.hyps(2) lab] 2(1) by blast
  qed
qed


text \<open>Run alone, a program that settles returns that result and leaves the database.\<close>

lemma settles_run: "settles {e} p res \<Longrightarrow> run_prog p \<lparr>store = e, agenda = []\<rparr> = (res, \<lparr>store = e, agenda = []\<rparr>)"
  by (induction rule: settles.induct) simp_all

lemma awaits_run:
  "awaits E q k p \<Longrightarrow> d \<in> E \<Longrightarrow> faulty_call q None d = (res, e) \<Longrightarrow>
     run_prog p \<lparr>store = d, agenda = []\<rparr> = run_prog (k res) \<lparr>store = e, agenda = []\<rparr>"
  by (induction rule: awaits.induct) simp_all

lemma race_alone:
  assumes "race D r d T x k st m after" and "t \<in> T"
  shows "handle (D\<lparr>dep_clock := t\<rparr>) r \<lparr>app_cases = \<lparr>store = d, agenda = []\<rparr>, app_events = base\<rparr> =
    (outcome x (m t), \<lparr>app_cases = \<lparr>store = after t, agenda = []\<rparr>, app_events = base @ [event_of (m t)]\<rparr>)"
proof -
  from assms obtain res where "awaits (insert d (after ` T)) (st t) k (handle_prog (D\<lparr>dep_clock := t\<rparr>) r)"
    and "\<not> mr_replayed (m t)" "faulty_call (st t) None d = (res, after t)" "settles {after t} (k res) (outcome x (m t))"
    by (auto simp: race_def)
  then show ?thesis by (simp add: handle_runs awaits_run settles_run)
qed

section \<open>Property\<close>

text \<open>
  C7. Duplicate requests in flight together: when copies of one mutating request arrive, each of which alone would succeed
  afresh, and their database calls interleave in any order, then once all are answered the database and the channel are
  exactly as if one of them had run alone. That one is the only fresh answer, its
  event is the only one announced, and every other copy is answered 200 with the same case and event, marked as replayed.
\<close>

theorem duplicates_run_once:
  assumes "mutations_replay (dep_procs D)" and "mutations_keep_members (dep_procs D)" and "mutation_of r = Some x"
    and "\<forall>t \<in> T. succeeds_fresh D r (sv_store s) t"
    and "service_run D s history s'" and "sv_flight s = Map.empty" and "duplicates_only r T history"
    and "sv_flight s' = Map.empty" and "results history \<noteq> []"
  shows "\<exists>t \<in> T. \<exists>m. handle (D\<lparr>dep_clock := t\<rparr>) r \<lparr>app_cases = \<lparr>store = sv_store s, agenda = []\<rparr>, app_events = sv_events s\<rparr> =
      (Inr (success_status x m, Mutation_body m), \<lparr>app_cases = \<lparr>store = sv_store s', agenda = []\<rparr>, app_events = sv_events s'\<rparr>) \<and>
    sv_events s' = sv_events s @ [event_of m] \<and>
    count_list (results history) (Inr (success_status x m, Mutation_body m)) = 1 \<and>
    set (results history) \<subseteq> {Inr (success_status x m, Mutation_body m), Inr (200, Mutation_body (m\<lparr>mr_replayed := True\<rparr>))}"
proof -
  have "\<exists>k st m after. race D r (sv_store s) T x k st m after"
  proof (cases "T = {}")
    case False
    with assms(1-4) show ?thesis by (metis fresh_race ex_in_conv)
  qed (simp add: race_def)
  then obtain k st m after where race: "race D r (sv_store s) T x k st m after" by blast
  from race_run [OF assms(5) race assms(6) refl assms(7)] assms(9) obtain t winner where
    t: "t \<in> T" and dec: "decided x (m t) (after t) winner (sv_events s) (results history) s'"
    by (auto simp: undecided_def)
  from dec assms(8) have "winner = None" by (cases winner) (simp_all add: decided_def)
  moreover have "outcome x (m t\<lparr>mr_replayed := True\<rparr>) = Inr (200, Mutation_body (m t\<lparr>mr_replayed := True\<rparr>))"
    by (simp add: outcome_def success_status_def split: mutation.split)
  ultimately show ?thesis
    using t dec race_alone [OF race t, of "sv_events s"]
    by (intro bexI [of _ t] exI [of _ "m t"]) (simp_all add: decided_def outcome_def)
qed


text \<open>Two copies of the sample transition, the second of which commits first.\<close>

definition duplicate_moves :: "ledger_database move list" where
  "duplicate_moves =
     [Arrive 0 ref_clock transition_request, Arrive 1 (ref_clock + 1) transition_request, Advance 0 None, Advance 1 None,
      Advance 1 None, Advance 0 None, Advance 0 None, Advance 1 None, Advance 1 None, Advance 0 None, Advance 0 None, Advance 1 None]"

lemma sample_duplicates:
  "\<exists>history s'. play ref_deps case_service duplicate_moves = Some (history, s') \<and> length (results history) = 2 \<and>
     duplicates_only transition_request {ref_clock, ref_clock + 1} history \<and> sv_flight s' = Map.empty"
  by (simp add: duplicate_moves_def results_def duplicates_only_def transition_request_def http_eval service_eval
      sample_defs ref_defs prog_eval)

lemma sample_fresh:
  "succeeds_fresh ref_deps transition_request (store case_world) ref_clock"
  "succeeds_fresh ref_deps transition_request (store case_world) (ref_clock + 1)"
  by (simp_all add: succeeds_fresh_def transition_request_def http_eval service_eval sample_defs ref_defs)

theorem duplicates_run_once_witness:
  "\<exists>history s' t m. service_run ref_deps case_service history s' \<and> length (results history) = 2 \<and>
     t \<in> {ref_clock, ref_clock + 1} \<and> sv_events s' = [event_of m] \<and>
     count_list (results history) (Inr (success_status (Transition 1 transition_command) m, Mutation_body m)) = 1"
proof -
  obtain history s' where play: "play ref_deps case_service duplicate_moves = Some (history, s')" and
    two: "length (results history) = 2" and only: "duplicates_only transition_request {ref_clock, ref_clock + 1} history"
    and quiet: "sv_flight s' = Map.empty"
    using sample_duplicates by blast
  have start: "sv_flight case_service = Map.empty" "sv_events case_service = []" by (simp_all add: case_service_def)
  have fresh: "\<forall>t \<in> {ref_clock, ref_clock + 1}. succeeds_fresh ref_deps transition_request (sv_store case_service) t"
    using sample_fresh by (simp add: case_service_def)
  have some: "results history \<noteq> []" using two by auto
  from duplicates_run_once [OF ref_contracts(1,2,4) fresh play_runs [OF play] start(1) only quiet some] start(2)
  obtain t m where "t \<in> {ref_clock, ref_clock + 1}" "sv_events s' = [event_of m]"
    "count_list (results history) (Inr (success_status (Transition 1 transition_command) m, Mutation_body m)) = 1"
    by auto
  with play_runs [OF play] two show ?thesis by blast
qed

end
