(* ===== verification/Commit_Points.thy ===== *)
theory Commit_Points
  imports Announcements Concurrent_Writes
begin

text \<open>
  Where a mutation takes effect: although its request makes several calls between those of others, the database changes for it at a
  single one of them, which is its own and lies between its arrival and its answer.
\<close>

section \<open>The step that commits\<close>

fun answers_number :: "nat \<Rightarrow> service_label \<Rightarrow> bool" where
  "answers_number i (Answers j _ _ _) \<longleftrightarrow> j = i"
| "answers_number i _ \<longleftrightarrow> False"

text \<open>
  In the run, a call of the request in flight under the number \<open>i\<close> that has not been answered since put an event with the id \<open>x\<close> into
  the table, which did not have it.
\<close>

definition commits_at ::
  "'x database_scheme deps \<Rightarrow> 'x database_scheme service \<Rightarrow> ('x database_scheme \<times> service_label) list \<Rightarrow>
     'x database_scheme service \<Rightarrow> nat \<Rightarrow> int \<Rightarrow> request \<Rightarrow> uuid \<Rightarrow> bool" where
  "commits_at D s history s' i t r x \<longleftrightarrow>
     (\<exists>earlier u f u' later p. history = earlier @ (sv_store u, Calls i f) # later \<and>
        service_run D s earlier u \<and> sv_flight u i = Some (t, r, p) \<and> service_step D u (Calls i f) u' \<and>
        service_run D u' later s' \<and> list_all (\<lambda>(d, l). \<not> answers_number i l) later \<and>
        x \<notin> event_ids (sv_store u) \<and> x \<in> event_ids (sv_store u'))"

lemma commits_later:
  assumes "commits_at D s history s' i t r x" and "service_step D s' l s''" and "\<not> answers_number i l"
  shows "commits_at D s (history @ [(sv_store s', l)]) s'' i t r x"
proof -
  from assms(1) obtain earlier u f u' later p where "history = earlier @ (sv_store u, Calls i f) # later"
    and at: "service_run D s earlier u" "sv_flight u i = Some (t, r, p)" "service_step D u (Calls i f) u'"
      "x \<notin> event_ids (sv_store u)" "x \<in> event_ids (sv_store u')"
    and rest: "service_run D u' later s'" "list_all (\<lambda>(d, l). \<not> answers_number i l) later"
    unfolding commits_at_def by blast
  then have "history @ [(sv_store s', l)] = earlier @ (sv_store u, Calls i f) # (later @ [(sv_store s', l)])" by simp
  moreover have "service_run D u' (later @ [(sv_store s', l)]) s''" using rest(1) assms(2) by (rule service_run.later)
  moreover have "list_all (\<lambda>(d, l). \<not> answers_number i l) (later @ [(sv_store s', l)])" using rest(2) assms(3) by simp
  ultimately show ?thesis using at unfolding commits_at_def by blast
qed

text \<open>A program in flight has committed nothing, or announces at most what a call of its request committed.\<close>

definition commit_tracked ::
  "'x database_scheme deps \<Rightarrow> 'x database_scheme service \<Rightarrow> ('x database_scheme \<times> service_label) list \<Rightarrow>
     'x database_scheme service \<Rightarrow> nat \<Rightarrow> int \<Rightarrow> request \<Rightarrow> ('x database_scheme, api_error, reply) prog \<Rightarrow> bool" where
  "commit_tracked D s history s' i t r p \<longleftrightarrow>
     uncommitted p \<or> (\<exists>x d. ends (announces x) p d \<and> commits_at D s history s' i t r x)"

lemma tracked_later:
  "commit_tracked D s history s' i t r p \<Longrightarrow> service_step D s' l s'' \<Longrightarrow> \<not> answers_number i l \<Longrightarrow>
     commit_tracked D s (history @ [(sv_store s', l)]) s'' i t r p"
  unfolding commit_tracked_def using commits_later by blast

lemma tracked_call:
  assumes "service_run D s history s'" and "commit_tracked D s history s' i t r (Call c)"
    and "sv_flight s' i = Some (t, r, Call c)" and "c f (sv_store s') = (p, d)" and "service_step D s' (Calls i f) s''"
    and "sv_store s'' = d"
  shows "commit_tracked D s (history @ [(sv_store s', Calls i f)]) s'' i t r p"
proof -
  from assms(2) consider "uncommitted (Call c)"
    | x e where "ends (announces x) (Call c) e" "commits_at D s history s' i t r x"
    unfolding commit_tracked_def by blast
  then show ?thesis
  proof cases
    case 1
    then consider "uncommitted p"
      | x where "x \<notin> event_ids (sv_store s')" "x \<in> event_ids d" "ends (announces x) p d"
      using assms(4) by (metis uncommitted_callE fst_conv snd_conv)
    then show ?thesis
    proof cases
      case 2
      have "commits_at D s (history @ [(sv_store s', Calls i f)]) s'' i t r x"
        unfolding commits_at_def using assms(1,3,5,6) 2(1,2) service_run.stay [of D s'']
        by (intro exI [of _ history] exI [of _ s'] exI [of _ f] exI [of _ s''] exI [of _ "[]"] exI [of _ "Call c"]) simp
      with 2(3) show ?thesis unfolding commit_tracked_def by blast
    qed (simp add: commit_tracked_def)
  next
    case 2
    from 2(1) have "ends (announces x) p d" using assms(4) by (metis ends_callE fst_conv snd_conv)
    moreover have "commits_at D s (history @ [(sv_store s', Calls i f)]) s'' i t r x"
      using commits_later [OF 2(2) assms(5)] by simp
    ultimately show ?thesis unfolding commit_tracked_def by blast
  qed
qed

lemma run_tracked:
  assumes "service_run D s history s'" and "events_keyed (dep_procs D)" and "sv_flight s = Map.empty"
    and "sv_flight s' i = Some (t, r, p)"
  shows "commit_tracked D s history s' i t r p"
  using assms
proof (induction arbitrary: i t r p rule: service_run.induct)
  case (later s history s' l s'')
  note IH = later.IH [OF later.prems(1,2)] and step = later.hyps(2)
  show ?case using step
  proof (rule service_stepE)
    fix j u q
    assume *: "l = Arrives j u q" "s'' = s'\<lparr>sv_flight := (sv_flight s')(j \<mapsto> (u, q, handle_prog (D\<lparr>dep_clock := u\<rparr>) q))\<rparr>"
    show ?thesis
    proof (cases "i = j")
      case True
      with * later.prems(1,3) show ?thesis by (auto simp: commit_tracked_def handle_uncommitted)
    next
      case False
      with * later.prems(3) have "sv_flight s' i = Some (t, r, p)" by simp
      from tracked_later [OF IH [OF this] step] * show ?thesis by simp
    qed
  next
    fix j u q c f p' d
    assume *: "l = Calls j f" "sv_flight s' j = Some (u, q, Call c)" "c f (sv_store s') = (p', d)"
      "s'' = s'\<lparr>sv_store := d, sv_flight := (sv_flight s')(j \<mapsto> (u, q, p'))\<rparr>"
    show ?thesis
    proof (cases "i = j")
      case True
      with * later.prems(3) have "t = u" "r = q" "p = p'" by simp_all
      with tracked_call [OF later.hyps(1) IH [OF *(2)] *(2,3) step [unfolded *(1)]] *(1,4) True show ?thesis by simp
    next
      case False
      with * later.prems(3) have "sv_flight s' i = Some (t, r, p)" by simp
      from tracked_later [OF IH [OF this] step] * show ?thesis by simp
    qed
  next
    fix j u q result
    assume *: "l = Answers j u q result" "s'' = s'\<lparr>sv_events := sv_events s' @ published result, sv_flight := (sv_flight s')(j := None)\<rparr>"
    with later.prems(3) have "sv_flight s' i = Some (t, r, p)" "j \<noteq> i" by (auto split: if_splits)
    with tracked_later [OF IH [OF this(1)] step] * show ?thesis by simp
  next
    fix d
    assume *: "l = Other_writes" "s'' = s'\<lparr>sv_store := d\<rparr>"
    with later.prems(3) have "sv_flight s' i = Some (t, r, p)" by simp
    from tracked_later [OF IH [OF this] step] * show ?thesis by simp
  qed
qed simp

lemma service_run_split:
  assumes "service_run D s (before @ (d, l) # after) s'"
  obtains u u' where "service_run D s before u" "sv_store u = d" "service_step D u l u'"
proof -
  obtain u' where "service_run D s (before @ [(d, l)]) u'"
    using service_run_prefix [OF assms, of "before @ [(d, l)]" after] by auto
  then show thesis using that by (cases rule: service_run.cases) auto
qed

text \<open>
  C16. A mutation takes effect at a call of its own: in any run of any number of requests in flight together, with faults and with other
  instances writing, when a request is answered with a fresh mutation there is a call of that very request,
  before its answer, at which the event of the answer entered the event table; that
  call is the stored function of the request's endpoint, for the tenant of its header, in the name of a caller that a database
  on the way grants and admits. So the effects of concurrent mutations are those of these calls, one after the other.
\<close>

theorem mutations_take_effect_at_a_call:
  assumes "events_keyed (dep_procs D)" and "sv_flight s = Map.empty"
    and "service_run D s (before @ (d, Answers i t r (Inr (status, Mutation_body m))) # after) s'" and "\<not> mr_replayed m"
  shows "\<exists>earlier u f u' later. before = earlier @ (sv_store u, Calls i f) # later \<and>
    list_all (\<lambda>(d, l). \<not> answers_number i l) later \<and>
    service_run D s earlier u \<and> service_step D u (Calls i f) u' \<and>
    er_event_id (mr_event m) \<notin> event_ids (sv_store u) \<and> er_event_id (mr_event m) \<in> event_ids (sv_store u') \<and>
    (\<exists>subject k. \<exists>d' \<in> seen earlier. admitted (D\<lparr>dep_clock := t\<rparr>) (headers_of r) (needed_scopes r) d' subject k \<and>
       issues (D\<lparr>dep_clock := t\<rparr>) r subject k (sv_store u) (sv_store u'))"
proof -
  let ?result = "Inr (status, Mutation_body m)"
  obtain v v' where run: "service_run D s before v" and "service_step D v (Answers i t r ?result) v'"
    using service_run_split [OF assms(3)] by metis
  then have "sv_flight v i = Some (t, r, Done ?result)" by (auto elim: service_stepE)
  from run_tracked [OF run assms(1,2) this] assms(4) obtain x where x: "commits_at D s before v i t r x"
    and "er_event_id (mr_event m) = x"
    by (auto simp: commit_tracked_def announces_def event_of_def elim!: uncommitted_doneE ends_doneE)
  with x obtain earlier u f u' later p where b: "before = earlier @ (sv_store u, Calls i f) # later"
    "list_all (\<lambda>(d, l). \<not> answers_number i l) later"
    and at: "service_run D s earlier u" "sv_flight u i = Some (t, r, p)" "service_step D u (Calls i f) u'"
    and new: "er_event_id (mr_event m) \<notin> event_ids (sv_store u)" "er_event_id (mr_event m) \<in> event_ids (sv_store u')"
    unfolding commits_at_def by blast
  have "sv_store u' \<noteq> sv_store u" using new by metis
  from concurrent_writes_accounted [OF at(1) assms(2) at(3) _ this] at(2) obtain subject k where
    "\<exists>d' \<in> seen earlier. admitted (D\<lparr>dep_clock := t\<rparr>) (headers_of r) (needed_scopes r) d' subject k"
    "issues (D\<lparr>dep_clock := t\<rparr>) r subject k (sv_store u) (sv_store u')" by auto
  with b at(1,3) new show ?thesis by blast
qed

text \<open>The winner of two transitions that race for one version.\<close>

lemma sample_winner:
  "\<exists>before d s' m. service_run keyed_deps case_service
     (before @ (d, Answers 1 ref_clock rival_request (Inr (200, Mutation_body m))) # []) s' \<and> \<not> mr_replayed m"
proof -
  obtain history s' m where play: "play keyed_deps case_service rival_moves = Some (history, s')"
    and at: "length history = 10" "snd (history ! 9) = Answers 1 ref_clock rival_request (Inr (200, Mutation_body m))"
    and m: "\<not> mr_replayed m"
    by (simp add: rival_moves_def transition_request_def rival_request_def keyed_deps_def keyed_procs_def keyed_def
        keeps_events_def event_ids_def map_sql_error_def database_message_def http_eval service_eval sample_defs ref_defs prog_eval)
  obtain d l where dl: "history ! 9 = (d, l)" by (cases "history ! 9")
  have "history = take 9 history @ (d, l) # []" using id_take_nth_drop [of 9 history] at(1) dl by simp
  with play_runs [OF play] at(2) dl m show ?thesis by (metis snd_conv)
qed

theorem mutations_take_effect_at_a_call_witness:
  "\<exists>before s' (m :: case_mutation_result) earlier u f u' later. service_run keyed_deps case_service before s' \<and> \<not> mr_replayed m \<and>
     before = earlier @ (sv_store u, Calls 1 f) # later \<and> service_step keyed_deps u (Calls 1 f) u' \<and>
     er_event_id (mr_event m) \<notin> event_ids (sv_store u) \<and> er_event_id (mr_event m) \<in> event_ids (sv_store u')"
proof -
  obtain before d s' m where run: "service_run keyed_deps case_service
      (before @ (d, Answers 1 ref_clock rival_request (Inr (200, Mutation_body m))) # []) s'" and m: "\<not> mr_replayed m"
    using sample_winner by blast
  have "sv_flight case_service = Map.empty" by (simp add: case_service_def)
  from mutations_take_effect_at_a_call [OF keyed_events_keyed this run m] obtain earlier u f u' later where
    call: "before = earlier @ (sv_store u, Calls 1 f) # later" "service_step keyed_deps u (Calls 1 f) u'"
      "er_event_id (mr_event m) \<notin> event_ids (sv_store u)" "er_event_id (mr_event m) \<in> event_ids (sv_store u')"
    by metis
  obtain v where "service_run keyed_deps case_service before v" using service_run_prefix [OF run refl] ..
  with call m show ?thesis by blast
qed

end
