(* ===== verification/Event_Channel.thy ===== *)
theory Event_Channel
  imports Concurrent_Properties
begin

text \<open>
  A subscriber behind the broadcast channel. The channel is a library; its receiver is modelled as its documentation has it:
  a bounded backlog from which the oldest event falls when a send finds it full, after which the next receive reports how
  many were lost. With it, what a subscriber misses depends on the capacity that \<^verbatim>\<open>main\<close> gives the channel.
\<close>

section \<open>A receiver\<close>

record receiver =
  backlog :: "tenant_event list"
  overrun :: nat

datatype receiver_move = Pushed tenant_event | Took tenant_event | Lost nat

definition subscribed :: receiver where
  "subscribed = \<lparr>backlog = [], overrun = 0\<rparr>"

fun receiver_step :: "nat \<Rightarrow> receiver \<Rightarrow> receiver_move \<Rightarrow> receiver option" where
  "receiver_step capacity r (Pushed e) =
     Some (if length (backlog r) < capacity then r\<lparr>backlog := backlog r @ [e]\<rparr>
           else \<lparr>backlog = tl (backlog r @ [e]), overrun = overrun r + 1\<rparr>)"
| "receiver_step capacity r (Took e) =
     (case backlog r of
        [] \<Rightarrow> None
      | e' # rest \<Rightarrow> if overrun r = 0 \<and> e' = e then Some (r\<lparr>backlog := rest\<rparr>) else None)"
| "receiver_step capacity r (Lost n) = (if 0 < n \<and> n = overrun r then Some (r\<lparr>overrun := 0\<rparr>) else None)"

fun receiver_run :: "nat \<Rightarrow> receiver \<Rightarrow> receiver_move list \<Rightarrow> receiver option" where
  "receiver_run capacity r [] = Some r"
| "receiver_run capacity r (m # ms) = Option.bind (receiver_step capacity r m) (\<lambda>r'. receiver_run capacity r' ms)"

fun pushed :: "receiver_move list \<Rightarrow> tenant_event list" where
  "pushed [] = []"
| "pushed (Pushed e # ms) = e # pushed ms"
| "pushed (_ # ms) = pushed ms"

fun took :: "receiver_move list \<Rightarrow> tenant_event list" where
  "took [] = []"
| "took (Took e # ms) = e # took ms"
| "took (_ # ms) = took ms"

fun lost :: "receiver_move list \<Rightarrow> nat" where
  "lost [] = 0"
| "lost (Lost n # ms) = n + lost ms"
| "lost (_ # ms) = lost ms"

text \<open>What the loop of the socket gets from the receiver.\<close>

fun delivered :: "receiver_move list \<Rightarrow> socket_input list" where
  "delivered [] = []"
| "delivered (Took e # ms) = Event_received e # delivered ms"
| "delivered (Lost n # ms) = Events_lagged n # delivered ms"
| "delivered (Pushed _ # ms) = delivered ms"

fun from_channel :: "socket_input \<Rightarrow> bool" where
  "from_channel (Event_received _) = True"
| "from_channel (Events_lagged _) = True"
| "from_channel _ = False"

text \<open>The receiver is never more than so many events behind.\<close>

definition within_reach :: "nat \<Rightarrow> receiver_move list \<Rightarrow> bool" where
  "within_reach n ms \<longleftrightarrow> (\<forall>us vs. ms = us @ vs \<longrightarrow> length (pushed us) \<le> length (took us) + n)"

section \<open>What a receiver misses\<close>

lemma pushed_append [simp]: "pushed (us @ vs) = pushed us @ pushed vs"
  by (induction us rule: pushed.induct) simp_all

lemma took_append [simp]: "took (us @ vs) = took us @ took vs"
  by (induction us rule: took.induct) simp_all

lemma lost_append [simp]: "lost (us @ vs) = lost us + lost vs"
  by (induction us rule: lost.induct) simp_all

lemma receiver_run_append:
  "receiver_run capacity r (us @ vs) = Option.bind (receiver_run capacity r us) (\<lambda>r'. receiver_run capacity r' vs)"
  by (induction us arbitrary: r) (simp_all add: Option.bind_assoc)

text \<open>Every event is taken, reported as lost, about to be so, or in the backlog, which stays within the capacity.\<close>

lemma receiver_accounts:
  assumes "receiver_run capacity subscribed ms = Some r" and "0 < capacity"
  shows "length (pushed ms) = length (took ms) + lost ms + overrun r + length (backlog r) \<and> length (backlog r) \<le> capacity \<and>
    (lost ms = 0 \<and> overrun r = 0 \<longrightarrow> pushed ms = took ms @ backlog r)"
  using assms
proof (induction ms arbitrary: r rule: rev_induct)
  case Nil
  then show ?case by (auto simp: subscribed_def)
next
  case (snoc m ms)
  then obtain u where "receiver_run capacity subscribed ms = Some u" and step: "receiver_step capacity u m = Some r"
    by (auto simp: receiver_run_append bind_eq_Some_conv)
  with snoc.IH snoc.prems(2) have IH: "length (pushed ms) = length (took ms) + lost ms + overrun u + length (backlog u)"
    "length (backlog u) \<le> capacity" "lost ms = 0 \<and> overrun u = 0 \<longrightarrow> pushed ms = took ms @ backlog u" by auto
  show ?case
  proof (cases m)
    case (Pushed e)
    with step IH snoc.prems(2) show ?thesis by (auto split: if_splits)
  next
    case (Took e)
    with step IH show ?thesis by (auto split: list.splits if_splits)
  next
    case (Lost n)
    with step IH show ?thesis by (auto split: if_splits)
  qed
qed

text \<open>A receiver that stays within reach of the capacity loses nothing.\<close>

lemma within_reach_nothing_lost:
  assumes "receiver_run capacity subscribed ms = Some r" and "0 < capacity" and "within_reach n ms" and "n \<le> capacity"
  shows "lost ms = 0 \<and> overrun r = 0"
  using assms(1,3)
proof (induction ms arbitrary: r rule: rev_induct)
  case Nil
  then show ?case by (auto simp: subscribed_def)
next
  case (snoc m ms)
  then obtain u where run: "receiver_run capacity subscribed ms = Some u" and step: "receiver_step capacity u m = Some r"
    by (auto simp: receiver_run_append bind_eq_Some_conv)
  from snoc.prems(2) have "within_reach n ms" by (auto simp: within_reach_def)
  with snoc.IH [OF run] have none: "lost ms = 0" "overrun u = 0" by simp_all
  from snoc.prems(2) have "length (pushed (ms @ [m])) \<le> length (took (ms @ [m])) + n"
    unfolding within_reach_def by (metis append.right_neutral)
  with receiver_accounts [OF run assms(2)] none step assms(4) show ?case
    by (cases m) (auto split: if_splits list.splits)
qed

text \<open>In general what is taken is a part of what was sent, in order.\<close>

lemma taken_in_order:
  assumes "receiver_run capacity r ms = Some r'"
  shows "subseq (took ms) (backlog r @ pushed ms)"
  using assms
proof (induction ms arbitrary: r)
  case (Cons m ms)
  then obtain u where step: "receiver_step capacity r m = Some u" and "receiver_run capacity u ms = Some r'"
    by (auto simp: bind_eq_Some_conv)
  with Cons.IH have IH: "subseq (took ms) (backlog u @ pushed ms)" by simp
  show ?case
  proof (cases m)
    case (Pushed e)
    have "subseq (tl (backlog r @ [e])) (backlog r @ [e])" by (cases "backlog r @ [e]") auto
    with Pushed step have "subseq (backlog u) (backlog r @ [e])" by (auto split: if_splits)
    then have "subseq (backlog u @ pushed ms) ((backlog r @ [e]) @ pushed ms)" by (rule list_emb_append_mono) simp
    with IH Pushed show ?thesis by (simp add: subseq_order.order_trans)
  next
    case (Took e)
    with step IH show ?thesis by (auto split: list.splits if_splits)
  next
    case (Lost n)
    with step IH show ?thesis by (auto split: if_splits)
  qed
qed simp

text \<open>So the receiver satisfies the contract \<open>broadcasts\<close> that the isolation of subscribers rests on.\<close>

fun log_of :: "receiver_move list \<Rightarrow> channel_action list" where
  "log_of [] = []"
| "log_of (Pushed e # ms) = Sent e # log_of ms"
| "log_of (Took e # ms) = Received e # log_of ms"
| "log_of (Lost n # ms) = log_of ms"

lemma log_of_append: "log_of (us @ vs) = log_of us @ log_of vs"
  by (induction us rule: log_of.induct) simp_all

lemma log_of_moves: "sent (log_of ms) = pushed ms" "received (log_of ms) = took ms"
  by (induction ms rule: log_of.induct) simp_all

lemma keeps_up_within_reach: "keeps_up n (log_of ms) \<Longrightarrow> within_reach n ms"
  unfolding within_reach_def
proof (intro allI impI)
  fix us vs
  assume up: "keeps_up n (log_of ms)" and ms: "ms = us @ vs"
  then have "take (length (log_of us)) (log_of ms) = log_of us" by (simp add: log_of_append)
  moreover have "length (log_of us) \<in> set [0..<Suc (length (log_of ms))]" using ms by (simp add: log_of_append)
  ultimately have "length (sent (log_of us)) \<le> length (received (log_of us)) + n"
    using up unfolding keeps_up_def list_all_iff by metis
  then show "length (pushed us) \<le> length (took us) + n" by (simp add: log_of_moves)
qed

lemma receiver_broadcasts:
  assumes "receiver_run capacity subscribed ms = Some r" and "0 < capacity"
  shows "broadcasts capacity (log_of ms)"
  unfolding broadcasts_def log_of_moves
proof (intro conjI impI)
  show "subseq (took ms) (pushed ms)" using taken_in_order [OF assms(1)] by (simp add: subscribed_def)
  assume "keeps_up capacity (log_of ms)"
  from within_reach_nothing_lost [OF assms keeps_up_within_reach [OF this] order_refl] receiver_accounts [OF assms]
  show "prefix (took ms) (pushed ms)" by simp
qed

lemma events_delivered: "filter from_channel (map fst ins) = delivered ms \<Longrightarrow> events_received ins = took ms"
proof -
  have taken: "events_received (map (\<lambda>i. (i, b)) (delivered ms)) = took ms" for b
    by (induction ms rule: delivered.induct) simp_all
  have kept: "events_received ins = events_received (map (\<lambda>i. (i, b)) (filter from_channel (map fst ins)))" for b
    by (induction ins rule: events_received.induct) auto
  assume "filter from_channel (map fst ins) = delivered ms"
  with taken kept show ?thesis by metis
qed

section \<open>A subscriber\<close>

text \<open>
  C20. A subscriber that stays within 256 events of the channel misses nothing: let the answers after its handshake push their events
  into a receiver of the capacity that the program chose, from which the loop of the socket takes, and let the loop
  still run. If the receiver was never more than 256 events behind, it was never told of a loss, and the text frames sent are
  exactly the serializations of the events of the tenant (and case) of the handshake among the first announced ones, in the order of the
  answers, of which at most the last 256 are still to come. Otherwise, the announced events are those it took, those it was told it
  lost, and at most 256 more with those it is about to be told of.
\<close>

theorem subscribers_miss_nothing:
  assumes "service_run D s (before @ (d, Answers i t (Socket_request q h) (Inr (status, Upgraded sub))) # after) s'"
    and "sv_flight s = Map.empty"
    and "receiver_run EVENT_CAPACITY subscribed moves = Some r" and "pushed moves = announced after"
    and "filter from_channel (map fst ins) = delivered moves" and "snd (socket_loop to_json sub ins)"
  shows "length (announced after) = length (events_received ins) + lost moves + overrun r + length (backlog r) \<and>
    length (backlog r) \<le> 256 \<and>
    (within_reach 256 moves \<longrightarrow>
       lost moves = 0 \<and> overrun r = 0 \<and>
       map Some (texts (fst (socket_loop to_json sub ins))) =
         map to_json (filter (\<lambda>e. te_tenant_id e = wq_tenant_id q \<and> wq_case_id q \<in> {None, Some (te_case_id e)})
           (take (length (announced after) - length (backlog r)) (announced after))))"
proof -
  have "(t, Socket_request q h, Inr (status, Upgraded sub)) \<in>
      set (answers (before @ (d, Answers i t (Socket_request q h) (Inr (status, Upgraded sub))) # after))" by simp
  from concurrent_handshake(1,2) [OF assms(1,2) this]
  have allows: "subscription_allows sub = (\<lambda>e. te_tenant_id e = wq_tenant_id q \<and> wq_case_id q \<in> {None, Some (te_case_id e)})"
    by (auto simp: fun_eq_iff subscription_allows_def split: option.splits)
  note took = events_delivered [OF assms(5)]
  have cap: "0 < EVENT_CAPACITY" "256 \<le> EVENT_CAPACITY" "EVENT_CAPACITY \<le> 256" by (simp_all add: EVENT_CAPACITY_def)
  note acc = receiver_accounts [OF assms(3) cap(1)]
  from assms(6) have whole: "takeWhile (\<lambda>i. \<not> stops to_json sub i) ins = ins"
    using socket_loop_run [of to_json sub ins] by (simp add: takeWhile_eq_all_conv list_all_iff)
  have texts: "map Some (texts (fst (socket_loop to_json sub ins))) = map to_json (filter (subscription_allows sub) (took moves))"
    using socket_loop_run [of to_json sub ins] unfolding whole took by simp
  have "lost moves = 0 \<and> overrun r = 0 \<and> took moves = take (length (announced after) - length (backlog r)) (announced after)"
    if "within_reach 256 moves"
  proof -
    note none = within_reach_nothing_lost [OF assms(3) cap(1) that cap(2)]
    with acc assms(4) have "announced after = took moves @ backlog r" by simp
    with none show ?thesis by simp
  qed
  moreover have "length (backlog r) \<le> 256" using acc cap(3) by linarith
  ultimately show ?thesis using acc assms(4) texts unfolding took allows by simp
qed

text \<open>A subscriber that takes the event of a transition after its handshake.\<close>

theorem subscribers_miss_nothing_witness:
  "\<exists>e r. receiver_run EVENT_CAPACITY subscribed [Pushed e, Took e] = Some r \<and> backlog r = [] \<and>
     map Some (texts (fst (socket_loop (\<lambda>_. Some ''event'') sample_subscription [(Event_received e, True)]))) = [Some ''event'']"
proof -
  obtain before d after s' m where run: "service_run ref_deps case_service
       (before @ (d, Answers 0 ref_clock (Socket_request sample_query ref_headers) (Inr (101, Upgraded sample_subscription))) # after) s'"
    and ans: "answers after = [(ref_clock, transition_request, Inr (200, Mutation_body m))]"
    and m: "\<not> mr_replayed m" "pc_tenant_id (mr_case m) = 1"
    using sample_socket by blast
  let ?e = "event_of m"
  let ?moves = "[Pushed ?e, Took ?e]" and ?ins = "[(Event_received ?e, True)]"
  have empty: "sv_flight case_service = Map.empty" by (simp add: case_service_def)
  have moves: "receiver_run EVENT_CAPACITY subscribed ?moves = Some subscribed"
    by (simp add: subscribed_def EVENT_CAPACITY_def)
  have "pushed ?moves = announced after" using ans m by (simp add: announced_def)
  moreover have "filter from_channel (map fst ?ins) = delivered ?moves" by simp
  moreover have "snd (socket_loop (\<lambda>_. Some ''event'') sample_subscription ?ins)" by simp
  moreover have "within_reach 256 ?moves"
    unfolding within_reach_def by (auto simp: Cons_eq_append_conv)
  ultimately have "map Some (texts (fst (socket_loop (\<lambda>_. Some ''event'') sample_subscription ?ins))) = [Some ''event'']"
    using subscribers_miss_nothing [OF run empty moves, of ?ins "\<lambda>_. Some ''event''"] ans m
    by (auto simp: announced_def event_of_def subscribed_def)
  with moves show ?thesis unfolding subscribed_def by fastforce
qed

end
