(* ===== verification/Spec2Isabelle.thy ===== *)
theory Spec2Isabelle
  imports Live_Properties Live_Work Json_Replies Nats_Delivery Unit_Tests Duplicates Commit_Points Event_Channel
begin

text \<open>
  \<^bold>\<open>A verification of apme-api, the case API of Apostille Me.\<close>

  \<^bold>\<open>The program.\<close> One process serves the visa and apostille cases of several tenants from one PostgreSQL
  database. Its parts, all under \<^verbatim>\<open>src/src/\<close>: the case service (\<^verbatim>\<open>cases.rs\<close>), which runs every query and stored
  function; authentication (\<^verbatim>\<open>auth.rs\<close>), which combines a local guard with protected introspection; the REST surface, the browser origin
  policy, the WebSocket event feed and startup (\<^verbatim>\<open>main.rs\<close>); and two optional avenues (\<^verbatim>\<open>transport.rs\<close>), a framed mTLS
  transport for tenant-scoped reads and a JetStream worker for service status. REST handlers and the framed
  transport authorize a caller through authentication and the membership table, then call the case service; a fresh
  mutation is announced on a broadcast channel, from which each WebSocket forwards the events its
  subscription allows.

  \<^bold>\<open>The theories\<close>, in the order of their imports:
  \<^item> \<open>Prelude\<close>: Rust's \<^verbatim>\<open>Result\<close> as a sum, \<^verbatim>\<open>?\<close> on results and on state-passing actions, \<^verbatim>\<open>collect\<close> into a
    \<^verbatim>\<open>Result\<close>, event-driven machines (locale \<open>machine\<close>), and the inversion rules (\<open>result_simps\<close>) that most proofs rest on.
  \<^item> \<open>Rust_Str\<close>: the string operations of the standard library the code uses, on bytes of UTF-8 (\<^verbatim>\<open>trim\<close>,
    \<^verbatim>\<open>split\<close>, \<^verbatim>\<open>strip_prefix\<close>, \<^verbatim>\<open>contains\<close>, \<^verbatim>\<open>parse::<usize>\<close>, character classes), with their laws.
  \<^item> \<open>Domain\<close>: the data of the interface crate as the code uses its fields.
  \<^item> \<open>Database\<close>: the tables and queries in the SQL text of the program, statements as functions on a
    database, and the schedule that decides for every call what other connections did before it and whether the
    connection fails before or after the statement.
  \<^item> \<open>Sql_Text\<close>: the SQL texts of the queries word for word, a reader and a semantics for the fragment they are in, and that the
    queries of \<open>Database\<close> are what the texts say.
  \<^item> \<open>Cases\<close>: \<^verbatim>\<open>cases.rs\<close>, one definition per function. \<open>Case_Contracts\<close>: its interfaces as locales (\<open>name_codec\<close>,
    \<open>tenant_reader\<close>, \<open>case_mutation\<close>, and \<open>prepared_mutation\<close>, which gives the latter) with their interpretations on these
    definitions. \<open>Effects\<close>: what each operation can do to the database, composed through \<open>keeps\<close>. \<open>Witness_Store\<close>: a concrete
    store with the documented behaviour of the stored functions, used only to exhibit runs. \<open>Case_Properties\<close>: exactness
    of listings, agreement of reads, row codec, ownership, refusals without effect, error classification, key limits.
    \<open>Retries\<close>: repeating a mutation, also one whose answer was lost, for all three mutations at once.
  \<^item> \<open>Auth\<close>: \<^verbatim>\<open>auth.rs\<close>, with the specification \<open>grants\<close> that authentication is proved equivalent to.
  \<^item> \<open>Http_Api\<close>: state, authorization, handlers, error responses and routes of \<^verbatim>\<open>main.rs\<close>. \<open>Http_Properties\<close>: the gate every
    protected handler passes (locale \<open>tenant_gate\<close>, interpreted for headers and for bare tokens), tenant isolation,
    the event channel, audit of reads. \<open>Http_Retries\<close>: idempotent retries over HTTP. \<open>Reply_Types\<close>: which responses each
    endpoint can give. \<open>Writes\<close>: every change a request makes is one accounted stored-function call.
  \<^item> \<open>Cors\<close>: the origin policy of \<^verbatim>\<open>main.rs\<close> and that it is closed.
  \<^item> \<open>Web_Socket\<close>: subscription filter, socket loop and handshake. \<open>Event_Channel\<close>: a subscriber behind a
    broadcast channel of the program's capacity, and what it misses.
  \<^item> \<open>Programs\<close>: every REST request as a resumption that makes its database calls one at a time, proved to be the handler when it is
    run against a schedule (\<open>handle_runs\<close>). \<open>Concurrency\<close>: any number of such requests in flight together (\<open>service_step\<close>), and that
    each answer is one of its handler under a schedule of databases the service went through. \<open>Concurrent_Properties\<close>: isolation, accountability and
    what subscribers see under concurrency, the number of calls of a request.
    \<open>Duplicates\<close>: copies of one mutating request in a race. \<open>Announcements\<close>: no event is announced twice. \<open>Concurrent_Writes\<close>: who makes each single change of the database. \<open>Commit_Points\<close>: the one call of its own at which a mutation takes effect.
  \<^item> \<open>Tcp_Transport\<close>, \<open>Tcp_Properties\<close>, \<open>Tcp_Connection\<close>: module \<^verbatim>\<open>tcp\<close> of \<^verbatim>\<open>transport.rs\<close>: configuration, TLS setup, one
    frame, the accept loop with its permits, the task of a connection, and one connection over time with its idle timeouts.
  \<^item> \<open>Nats_Transport\<close>, \<open>Nats_Properties\<close>: module \<^verbatim>\<open>nats\<close>: configuration, topology checks, one message, the consumer
    loop, with the order of acknowledgement and publication. \<open>Nats_Delivery\<close>: the worker against its broker over redeliveries, with the duplicate window of the response stream and the limits of both streams.
  \<^item> \<open>Wire_Format\<close>: the deserializers derived for frames and signals, on JSON values, and what they refuse.
    \<open>Json_Replies\<close>: the serializers and \<^verbatim>\<open>json!\<close> literals of responses, errors, events and status messages as JSON values, and what
    peers read. \<open>Json_Text\<close>: a printer inverse to the reader of \<open>Wire_Format\<close>, the instance of the JSON library.
  \<^item> \<open>Startup\<close>: \<^verbatim>\<open>main\<close>: what is opened in which order and under which conditions, its result and its log records.
  \<^item> \<open>Process\<close>: the running process, all avenues interleaved on one database and one channel (\<open>process_step\<close>; a request or a frame
    is one step there), until its shutdown: its invariant, and what shutdown does. Its step \<open>elsewhere\<close> stands for everything that happens to the database between two of its
    steps, so that it is a frame for the invariant, no claim that requests are atomic (they are not, see \<open>answer_overtaken\<close>).
  \<^item> \<open>Live_Process\<close>: the running process call by call (\<open>live_step\<close>): the requests of \<open>Concurrency\<close> and frames, which are programs as
    well (\<open>execute_prog\<close>), in flight together, inside the process. \<open>Live_Refinement\<close>: its runs are runs of \<open>Process\<close> with the same answers and contain a run of
    \<open>Concurrency\<close>, so it has the invariant of the former. \<open>Live_Work\<close>: how many calls requests and frames make, and that they end. \<open>Live_Properties\<close>: who writes, what a frame is answered, and what shutdown waits for.
  \<^item> \<open>Unit_Tests\<close>: all unit tests of the repository, proved of the model.
  \<^item> This theory: where the REST listing and the framed transport agree, down to the JSON they send, and that both transports obey the shutdown signal.

  \<^bold>\<open>Representation.\<close> Structs are records, enums datatypes, errors the left of a sum; strings and byte
  strings are lists of bytes; UUIDs are 128-bit words; instants are integers; dictionaries are
  maps. A fallible operation on the database is an action, a function from a world (database and
  schedule) to a result and a world, so errors keep the effects that happened before them. Loops are recursions
  over what the environment delivers, in any order; none needs fuel, because every recursion is over a
  list of inputs or a bounded count, as the loop of a connection is in the code. A connection is also followed through time: each
  wait for the peer completes after some milliseconds or never, and \<open>timeout\<close> cuts it off.

  \<^bold>\<open>Parameters.\<close> Code outside the repository is an argument of the definitions: the stored functions of the migration (\<open>procs\<close>),
  the interface crate (\<open>interfaces\<close>), the guard and introspection client (\<open>authority\<close>), header values (\<open>http_values\<close>), JSON and the frame codec
  (\<open>wire\<close>, \<open>status_wire\<close>), the serializers of the interface crate (\<open>renderer\<close>), TLS (\<open>tls_library\<close>), the NATS client and broker (\<open>nats_client\<close>, \<open>broker\<close>) and the operating system (\<open>platform\<close>).
  What a theorem needs of one is a named hypothesis: \<open>mutations_replay\<close> and \<open>mutations_keep_members\<close> (the stored functions are
  idempotent and leave memberships alone), \<open>header_values_faithful\<close>, \<open>codec_limits\<close>, \<open>uuid_text_injective\<close>, \<open>deduplicates\<close> (the response stream drops a message whose id it stored within its duplicate window), \<open>reads_frames\<close> and \<open>reads_signals\<close> (the wire reads a JSON value and deserializes it), \<open>prints_frames\<close>, \<open>prints_signals\<close> and \<open>prints_events\<close> (it serializes to a JSON value and writes it), \<open>reads_back\<close> (reading a written value gives it), \<open>events_keyed\<close> and \<open>keeps_events\<close> (the event table is
  append-only and keyed by event ids), \<open>mirrors_listed_origins\<close> (the CORS middleware allows the origins of its policy) and \<open>broadcasts\<close> (the channel delivers a subsequence of what was sent, and all of it to a receiver within the
  capacity; \<open>receiver_run\<close> is a receiver that does so). Each has an instance in the theory that uses it.

  \<^bold>\<open>Not modelled:\<close> unstructured tracing lines, the order of members in JSON text, routing and extraction by the web framework (handlers take extracted
  values), connection pooling beyond its options, time that passes inside a REST request (one clock reading per request),
  the insides of the HTTP server (it accepts, drains and ends, see \<open>process_step\<close>; what becomes of its open connections at shutdown is not modelled), and tokio's scheduling beyond the order of inputs. The
  integration tests under \<^verbatim>\<open>src/tests/\<close> need a PostgreSQL server with the migration, which is not in the repository, or read files of
  the repository as text; \<^verbatim>\<open>lib.rs\<close> only declares modules.
\<close>

section \<open>The two reading avenues agree\<close>

text \<open>
  When the framed request says the same as the HTTP request: its token is the bearer of the HTTP
  headers, its tenant that of the tenant header, the token survives the trip through a header value, and the guard decides on the
  authorization header alone.
\<close>

definition same_caller :: "'d deps \<Rightarrow> header_map \<Rightarrow> frame_request \<Rightarrow> bool" where
  "same_caller D h request \<longleftrightarrow>
     bearer (dep_http D) h = Some (fr_bearer_token request) \<and> tenant_id D h = Inr (fr_tenant_id request) \<and>
     \<not> token_refused (fr_bearer_token request) \<and>
     (\<exists>v. header_from_str (dep_http D) (''Bearer '' @ fr_bearer_token request) = Some v \<and>
        header_to_str (dep_http D) v = Some (''Bearer '' @ fr_bearer_token request) \<and>
        guard_check (dep_authority D) [''authorization'' \<mapsto> v] = guard_check (dep_authority D) h)"

lemma same_caller_authorized:
  assumes "same_caller D h request"
  shows "authorize_token D (fr_bearer_token request) (fr_tenant_id request) scopes w =
    authorized_tenant_with_scopes D h scopes w"
proof -
  from assms obtain v where v: "header_from_str (dep_http D) (''Bearer '' @ fr_bearer_token request) = Some v"
    "header_to_str (dep_http D) v = Some (''Bearer '' @ fr_bearer_token request)"
    "guard_check (dep_authority D) [''authorization'' \<mapsto> v] = guard_check (dep_authority D) h"
    and t: "\<not> token_refused (fr_bearer_token request)"
    and b: "bearer (dep_http D) h = Some (fr_bearer_token request)" and tenant: "tenant_id D h = Inr (fr_tenant_id request)"
    by (auto simp: same_caller_def)
  from t have "trim (fr_bearer_token request) = fr_bearer_token request" "fr_bearer_token request \<noteq> []"
    by (auto simp: token_refused_def intro: trim_no_whitespace)
  with v(2) have b': "bearer (dep_http D) [''authorization'' \<mapsto> v] = Some (fr_bearer_token request)"
    by (simp add: bearer_def del: append_Cons)
  have "authenticate_with_scopes (dep_auth D) (dep_authority D) (dep_http D) (dep_clock D) [''authorization'' \<mapsto> v] scopes =
      authenticate_with_scopes (dep_auth D) (dep_authority D) (dep_http D) (dep_clock D) h scopes"
    by (simp add: authenticate_with_scopes_def b b' v(3))
  with t v(1) tenant show ?thesis
    by (cases "authenticate_with_scopes (dep_auth D) (dep_authority D) (dep_http D) (dep_clock D) h scopes")
      (simp_all add: authorize_token_def authorized_tenant_with_scopes_def)
qed

text \<open>How the framed transport renders a list of cases.\<close>

definition rendered :: "wire \<Rightarrow> frame_request \<Rightarrow> persisted_case list \<Rightarrow> bytes" where
  "rendered W request cs =
     (case filter_opt (\<lambda>b. length b \<le> MAX_RESPONSE_BYTES) (print_response W (ok_response request cs)) of
        Some b \<Rightarrow> b
      | None \<Rightarrow> encode_failure W (fr_request_id request) ''response_too_large'')"

lemma execute_listing:
  assumes "parse_request W frame = Some request" and "fr_operation request = ListCases"
  shows "execute W D frame w =
    (case authorize_token D (fr_bearer_token request) (fr_tenant_id request) [CASES_READ_SCOPE] w of
       (Inl error, w1) \<Rightarrow> (encode_failure W (fr_request_id request) (api_error_code error), w1)
     | (Inr (_, context), w1) \<Rightarrow>
         (case list_cases context w1 of
            (Inl _, w2) \<Rightarrow> (encode_failure W (fr_request_id request) ''temporarily_unavailable'', w2)
          | (Inr cs, w2) \<Rightarrow> (rendered W request cs, w2)))"
  using assms by (simp add: execute_def rendered_def split: prod.splits sum.splits option.splits)

lemma rendered_read:
  assumes "prints_frames write J W" and "reads_back read write"
    and "\<forall>code \<in> refusal_codes. write (failure_json J (fr_request_id request) code) \<noteq> None"
  shows "peer_reads read write J (fr_request_id request) (map (case_json J) cs) (rendered W request cs)"
proof -
  let ?p = "write (success_json J (fr_request_id request) (map (case_json J) cs))"
  have p: "print_response W (ok_response request cs) = ?p"
    using assms(1) by (simp add: prints_frames_def ok_response_json)
  show ?thesis
  proof (cases "\<exists>b. ?p = Some b \<and> length b \<le> 65536")
    case True
    with p assms(2) show ?thesis
      by (auto simp: peer_reads_def rendered_def reads_back_def MAX_RESPONSE_BYTES_def filter_opt_def split: option.splits)
  next
    case False
    then have "rendered W request cs = encode_failure W (fr_request_id request) ''response_too_large''"
      by (auto simp: rendered_def p MAX_RESPONSE_BYTES_def filter_opt_def split: option.splits)
    with False encode_failure_read [OF assms(1,2)] assms(3) fixed_refusals(1) show ?thesis by (auto simp: peer_reads_def)
  qed
qed

lemma listing_of_authorized:
  assumes "authorized_tenant_with_scopes D h [CASES_READ_SCOPE] (app_cases s) = (r, w)"
  shows "handle D (List_request h) s =
    (case r of
       Inl e \<Rightarrow> (Inl e, s\<lparr>app_cases := w\<rparr>)
     | Inr (_, context) \<Rightarrow>
         (case list_cases context w of
            (Inl e, w') \<Rightarrow> (Inl (Cases_error e), s\<lparr>app_cases := w'\<rparr>)
          | (Inr cs, w') \<Rightarrow> (Inr (200, Cases_body cs), s\<lparr>app_cases := w'\<rparr>)))"
  using assms by (auto simp: list_cases_handler_def authorized_tenant_def bind_try_def on_cases_def act_map_err_def
      split: prod.splits sum.splits)

text \<open>When the listing reads a row of the tenant that does not decode.\<close>

definition listing_undecodable :: "'x database_scheme deps \<Rightarrow> header_map \<Rightarrow> 'x database_scheme world \<Rightarrow> bool" where
  "listing_undecodable D h w \<longleftrightarrow>
     (case authorized_tenant_with_scopes D h [CASES_READ_SCOPE] w of
        (Inl _, _) \<Rightarrow> False
      | (Inr (_, context), w1) \<Rightarrow>
          (case db_call (query (\<lambda>d. Inr (case_select_list (ctx_tenant_id context) d))) w1 of
             (Inl _, _) \<Rightarrow> False
           | (Inr rows, _) \<Rightarrow> \<exists>row \<in> set rows. isl (case_from_row row)))"

lemma try_map_isl: "isl (try_map f xs) \<longleftrightarrow> (\<exists>x \<in> set xs. isl (f x))"
  by (induction xs) (auto split: sum.splits)

lemma list_cases_undecodable:
  assumes "authorized_tenant_with_scopes D h [CASES_READ_SCOPE] w = (Inr (subject, c), w1)"
    and "list_cases c w1 = (l, w2)"
  shows "listing_undecodable D h w \<longleftrightarrow> (\<exists>message. l = Inl (Validation message))"
    and "l = Inl e \<Longrightarrow> \<not> listing_undecodable D h w \<Longrightarrow> api_error_code (Cases_error e) = ''temporarily_unavailable''"
proof -
  obtain q w' where q: "db_call (query (\<lambda>d. Inr (case_select_list (ctx_tenant_id c) d))) w1 = (q, w')"
    by (cases "db_call (query (\<lambda>d. Inr (case_select_list (ctx_tenant_id c) d))) w1")
  have run: "l = (case q of Inl e \<Rightarrow> Inl (Storage e) | Inr rows \<Rightarrow> try_map case_from_row rows)"
    using assms(2) q by (auto simp: list_cases_def bind_try_def act_map_err_def lift_result_def split: sum.splits)
  have listing: "listing_undecodable D h w \<longleftrightarrow> (\<exists>rows e. q = Inr rows \<and> l = Inl e)"
  proof (cases q)
    case (Inr rows)
    then have "listing_undecodable D h w \<longleftrightarrow> isl l" using run by (simp add: listing_undecodable_def assms(1) q try_map_isl)
    with Inr show ?thesis by (simp add: isl_def)
  qed (simp add: listing_undecodable_def assms(1) q)
  have invalid: "\<exists>m. e = Validation m" if "q = Inr rows" "l = Inl e" for rows e
    using try_map_Inl_split [of case_from_row rows e] that run by (auto dest: case_from_row_Inl)
  have stored: "l = Inl (Storage e)" if "q = Inl e" for e using that run by simp
  show "listing_undecodable D h w \<longleftrightarrow> (\<exists>message. l = Inl (Validation message))"
  proof (cases q)
    case (Inl e)
    with listing stored show ?thesis by simp
  next
    case (Inr rows)
    with listing invalid show ?thesis by auto
  qed
  show "api_error_code (Cases_error e) = ''temporarily_unavailable''" if "l = Inl e" "\<not> listing_undecodable D h w"
  proof (cases q)
    case (Inl d)
    with stored that(1) show ?thesis by simp
  next
    case (Inr rows)
    with listing that show ?thesis by simp
  qed
qed

lemma listing_refusal:
  assumes "u \<longleftrightarrow> (\<exists>message. e = Validation message)"
    and "\<not> u \<Longrightarrow> api_error_code (Cases_error e) = ''temporarily_unavailable''"
    and "read answer = Some (failure_json J i ''temporarily_unavailable'')"
  shows "if u
    then \<exists>message. http_response J (Inl (Cases_error e)) = (422, Json_content (error_json ''validation'' (Some message)))
    else \<exists>status code message. http_response J (Inl (Cases_error e)) = (status, Json_content (error_json code message)) \<and>
      read answer = Some (failure_json J i code)"
proof (cases u)
  case True
  with assms(1) show ?thesis by (auto simp: http_response_def respond_def)
next
  case False
  obtain status message where
    "http_response J (Inl (Cases_error e)) = (status, Json_content (error_json (api_error_code (Cases_error e)) message))"
    by (rule http_response_Inl)
  with False assms(2,3) show ?thesis by auto
qed

text \<open>
  C13. The two reading avenues agree except about rows that do not decode, down to the JSON that leaves: for the same caller, tenant
  and database, the framed transport leaves the database in the same state as the REST listing. Unless a row of the tenant does
  not decode, either the body of the REST response is an array of cases and the peer reads the very same array (or, when its text would
  exceed 64 KiB, that the response was too large), or REST refuses with a code and the peer reads that same code. When a row does
  not decode, REST answers 422 with the code of a validation failure and the peer reads a temporary unavailability.
\<close>

theorem avenues_agree:
  assumes "parse_request W frame = Some request" and "same_caller D h request"
    and "prints_frames write J W" and "reads_back read write"
    and "\<forall>code \<in> refusal_codes. write (failure_json J (fr_request_id request) code) \<noteq> None"
    and "handle D (List_request h) s = (result, s')"
  shows "snd (execute W D frame (app_cases s)) = app_cases s' \<and>
    (if listing_undecodable D h (app_cases s)
     then (\<exists>message. http_response J result = (422, Json_content (error_json ''validation'' (Some message)))) \<and>
       read (fst (execute W D frame (app_cases s))) = Some (failure_json J (fr_request_id request) ''temporarily_unavailable'')
     else
       (\<exists>items. http_response J result = (200, Json_content (J_array items)) \<and>
          peer_reads read write J (fr_request_id request) items (fst (execute W D frame (app_cases s)))) \<or>
       (\<exists>status code message. http_response J result = (status, Json_content (error_json code message)) \<and>
          read (fst (execute W D frame (app_cases s))) = Some (failure_json J (fr_request_id request) code)))"
proof -
  obtain q w where q: "authorized_tenant_with_scopes D h [CASES_READ_SCOPE] (app_cases s) = (q, w)"
    by (cases "authorized_tenant_with_scopes D h [CASES_READ_SCOPE] (app_cases s)")
  note rest = listing_of_authorized [OF q]
  have "fr_operation request = ListCases" by (cases "fr_operation request") simp
  note frame = execute_listing [OF assms(1) this, of D "app_cases s", unfolded same_caller_authorized [OF assms(2)] q]
  have peer: "read (encode_failure W (fr_request_id request) code) = Some (failure_json J (fr_request_id request) code)"
    if "code \<in> refusal_codes" for code
    using encode_failure_read [OF assms(3,4)] assms(5) that by blast
  show ?thesis
  proof (cases q)
    case (Inl e)
    then have "\<not> listing_undecodable D h (app_cases s)" using q by (simp add: listing_undecodable_def)
    moreover obtain status message where "http_response J (Inl e) = (status, Json_content (error_json (api_error_code e) message))"
      by (rule http_response_Inl)
    ultimately show ?thesis using Inl rest frame assms(6) peer [OF api_error_code_refusal [of e]] by auto
  next
    case (Inr p)
    obtain subject c where p: "p = (subject, c)" by (cases p)
    obtain l w' where l: "list_cases c w = (l, w')" by (cases "list_cases c w")
    note undecodable = list_cases_undecodable [OF q [unfolded Inr p] l]
    show ?thesis
    proof (cases l)
      case (Inl e)
      with rest frame Inr p l assms(6) have "result = Inl (Cases_error e)" "snd (execute W D frame (app_cases s)) = app_cases s'"
        "fst (execute W D frame (app_cases s)) = encode_failure W (fr_request_id request) ''temporarily_unavailable''"
        by auto
      moreover from undecodable(1) undecodable(2) [OF Inl] Inl
      have "if listing_undecodable D h (app_cases s)
        then \<exists>message. http_response J (Inl (Cases_error e)) = (422, Json_content (error_json ''validation'' (Some message)))
        else \<exists>status code message. http_response J (Inl (Cases_error e)) = (status, Json_content (error_json code message)) \<and>
          read (encode_failure W (fr_request_id request) ''temporarily_unavailable'') =
            Some (failure_json J (fr_request_id request) code)"
        by (intro listing_refusal) (simp_all add: peer fixed_refusals(2))
      ultimately show ?thesis using peer [OF fixed_refusals(2)] by (simp split: if_splits)
    next
      case (Inr cs)
      with rest frame \<open>q = Inr p\<close> p l assms(6) rendered_read [OF assms(3-5)] undecodable(1)
      show ?thesis by (auto simp: http_response_def respond_def)
    qed
  qed
qed

definition text_wire :: wire where
  "text_wire = ref_wire\<lparr>print_response := \<lambda>r. write_json (frame_response_json plain_renderer r)\<rparr>"

theorem avenues_agree_witness:
  "read_json (fst (execute text_wire ref_deps ''list'' (app_cases case_app))) =
     Some (success_json plain_renderer 7 [case_json plain_renderer sample_case])"
proof -
  let ?r = "\<lparr>fr_request_id = 7, fr_tenant_id = 1, fr_bearer_token = ''t0ken'', fr_operation = ListCases\<rparr>"
  have p: "parse_request text_wire ''list'' = Some ?r" by (simp add: text_wire_def ref_wire_def)
  have c: "same_caller ref_deps ref_headers ?r"
    by (simp add: same_caller_def token_refused_def http_eval service_eval)
  have w: "prints_frames write_json plain_renderer text_wire" by (simp add: prints_frames_def text_wire_def)
  have f: "\<forall>code \<in> refusal_codes. write_json (failure_json plain_renderer (fr_request_id ?r) code) \<noteq> None"
    by (simp add: refusal_codes_def error_codes_def failure_json_def write_json_def uuid_json_def plain_renderer_def
        sample_uuid_def plain_char_def byte_def)
  have body: "http_response plain_renderer (Inr (200, Cases_body [sample_case])) =
      (200, Json_content (J_array [case_json plain_renderer sample_case]))"
    by (simp add: http_response_def respond_def)
  have small: "\<exists>b. write_json (success_json plain_renderer 7 [case_json plain_renderer sample_case]) = Some b \<and> length b \<le> 65536"
    by (simp add: success_json_def write_json_def uuid_json_def plain_renderer_def sample_uuid_def plain_char_def byte_def
        quoted_def sample_defs)
  from avenues_agree [OF p c w reads_back_instance f sample_list_request] body small show ?thesis
    by (auto simp: peer_reads_def error_json_def split: option.splits if_splits)
qed

section \<open>Shutdown of the transports\<close>

lemma nats_serve_shutdown:
  "nats_serve V (before @ Shutdown_signalled # after) =
     (if fst (nats_serve V before) = None then (Some (Inr ()), snd (nats_serve V before)) else nats_serve V before)"
  by (induction V before rule: nats_serve.induct) (auto split: prod.splits sum.splits)

lemma running_task_stays:
  "c \<in> fst ` set (tasks s) \<Longrightarrow> Serving_ended c \<notin> set es \<Longrightarrow> Handshake_ended c False \<notin> set es \<Longrightarrow>
     c \<in> fst ` set (tasks (serve_events s es))"
proof (induction es arbitrary: s)
  case (Cons e es)
  have "c \<in> fst ` set (tasks (serve_event s e))"
  proof (cases e)
    case (Handshake_ended d completed)
    with Cons.prems show ?thesis by (cases completed) (auto simp: end_task_def rev_image_eqI)
  qed (use Cons.prems in \<open>auto simp: end_task_def rev_image_eqI\<close>)
  with Cons.IH [of "serve_event s e"] Cons.prems show ?case by (simp add: serve_events_def)
qed (simp add: serve_events_def)

interpretation tcp_closed: machine serve_event "\<lambda>s. \<not> listening s \<and> accepted s = n \<and> fst ` set (tasks s) \<subseteq> ids" for n ids
proof (unfold_locales, goal_cases)
  case (1 s e)
  then show ?case by (cases e) (auto simp: end_task_def split: if_splits)
qed

text \<open>
  C32. The transports obey the shutdown signal. The listener that sees it (or sees the channel closed) takes no connection from
  then on, whatever events follow: the connections it has running are among those it had, and each of them goes on until its own handshake
  fails or its serving ends. The worker that sees it, if it was still running, ends with success, and whatever inputs
  follow, its effects are those of the inputs before: no message after the signal is handled, none before is left out.
\<close>

theorem transports_obey_shutdown:
  assumes "stop = Shutdown_changed \<or> stop = Shutdown_channel_closed"
  shows "accepted (serve_events s (before @ stop # after)) = accepted (serve_events s before) \<and>
    fst ` set (tasks (serve_events s (before @ stop # after))) \<subseteq> fst ` set (tasks (serve_events s before)) \<and>
    (\<forall>c \<in> fst ` set (tasks (serve_events s before)).
       Serving_ended c \<notin> set after \<and> Handshake_ended c False \<notin> set after \<longrightarrow>
       c \<in> fst ` set (tasks (serve_events s (before @ stop # after)))) \<and>
    snd (worker_serve V starts (inputs @ Shutdown_signalled # later)) = snd (worker_serve V starts inputs) \<and>
    (fst (worker_serve V starts inputs) = None \<longrightarrow>
       fst (worker_serve V starts (inputs @ Shutdown_signalled # later)) = Some (Inr ()))"
proof -
  let ?u = "serve_events s before"
  have at_stop: "serve_events s (before @ stop # after) = serve_events (?u\<lparr>listening := False\<rparr>) after"
    using assms by (auto simp: serve_events_def)
  from tcp_closed.run_keeps [of "?u\<lparr>listening := False\<rparr>" "accepted ?u" "fst ` set (tasks ?u)" after]
  have "accepted (serve_events s (before @ stop # after)) = accepted ?u"
    and "fst ` set (tasks (serve_events s (before @ stop # after))) \<subseteq> fst ` set (tasks ?u)"
    unfolding at_stop by (simp_all add: serve_events_def)
  moreover from running_task_stays [of _ "?u\<lparr>listening := False\<rparr>" after]
  have "\<forall>c \<in> fst ` set (tasks ?u). Serving_ended c \<notin> set after \<and> Handshake_ended c False \<notin> set after \<longrightarrow>
      c \<in> fst ` set (tasks (serve_events s (before @ stop # after)))"
    unfolding at_stop by simp
  ultimately show ?thesis by (simp add: worker_serve_def nats_serve_shutdown)
qed

theorem transports_obey_shutdown_witness:
  "tasks (serve_events (server_start 2) ([Accepted] @ Shutdown_changed # [Accepted])) = [(0, Handshaking)] \<and>
   fst ` set (tasks (serve_events (server_start 2) ([Accepted] @ Shutdown_changed # [Accepted]))) \<subseteq> {0} \<and>
   snd (worker_serve ref_status_wire True ([] @ Shutdown_signalled # [Delivered ''ask'' good_broker])) = []"
  using transports_obey_shutdown [of Shutdown_changed "server_start 2" "[Accepted]" "[Accepted]" ref_status_wire True "[]"
      "[Delivered ''ask'' good_broker]"]
  by (simp add: serve_events_def server_start_def worker_serve_def)

end
